(* ===== verification/Prelude.thy ===== *)
theory Prelude
  imports Main "HOL-Library.Sublist"
begin

text \<open>
  The part of the JavaScript run time that the components share: results of
  calls that may throw (a sum whose left side is the error), the string
  operations \<open>split\<close>, \<open>join\<close>, \<open>startsWith\<close>, \<open>indexOf\<close> and the trimming loops of
  the sources, Latin-1 case mapping, and digit strings with
  \<open>Number.parseInt\<close>.  A JavaScript string is a list of code units: the HTTP
  components work on Latin-1 text, for which \<open>string\<close> (a list of bytes) is
  exact, and the components that look at code points use lists of \<open>nat\<close>; the
  list operations are polymorphic so that both share them.
\<close>

named_theorems throw_iff \<open>characterisations of a call that returns normally\<close>

section \<open>Calls that may throw\<close>

text \<open>A call returns \<open>Inr v\<close> or throws \<open>Inl e\<close>; \<open>andThen\<close> runs the rest of the
  body only after a normal return.\<close>

definition andThen :: "'e + 'a \<Rightarrow> ('a \<Rightarrow> 'e + 'b) \<Rightarrow> 'e + 'b" where
  "andThen m f = (case m of Inl e \<Rightarrow> Inl e | Inr x \<Rightarrow> f x)"

lemma andThen_simps [simp]:
  "andThen (Inl e) f = Inl e"
  "andThen (Inr x) f = f x"
  by (simp_all add: andThen_def)

lemma andThen_Inr_iff [throw_iff]:
  "andThen m f = Inr y \<longleftrightarrow> (\<exists>x. m = Inr x \<and> f x = Inr y)"
  by (cases m) auto

lemma andThen_Inl_iff:
  "andThen m f = Inl e \<longleftrightarrow> m = Inl e \<or> (\<exists>x. m = Inr x \<and> f x = Inl e)"
  by (cases m) auto

text \<open>\<open>if (!cond) throw e\<close>.\<close>

definition throwUnless :: "bool \<Rightarrow> 'e \<Rightarrow> 'e + unit" where
  "throwUnless b e = (if b then Inr () else Inl e)"

lemma throwUnless_Inr_iff [throw_iff]: "throwUnless b e = Inr u \<longleftrightarrow> b"
  by (simp add: throwUnless_def)

lemma throwUnless_simps [simp]:
  "throwUnless True e = Inr ()"
  "throwUnless False e = Inl e"
  by (simp_all add: throwUnless_def)

text \<open>\<open>xs.map(f)\<close> where \<open>f\<close> may throw: the first error wins.\<close>

fun mapThrowing :: "('a \<Rightarrow> 'e + 'b) \<Rightarrow> 'a list \<Rightarrow> 'e + 'b list" where
  "mapThrowing f [] = Inr []"
| "mapThrowing f (x # xs) =
     andThen (f x) (\<lambda>y. andThen (mapThrowing f xs) (\<lambda>ys. Inr (y # ys)))"

lemma mapThrowing_Inr_iff [throw_iff]:
  "mapThrowing f xs = Inr ys \<longleftrightarrow> list_all2 (\<lambda>x y. f x = Inr y) xs ys"
  by (induction xs arbitrary: ys) (auto simp: throw_iff list_all2_Cons1)

lemma mapThrowing_map_Inr:
  "(\<And>x. x \<in> set xs \<Longrightarrow> f (g x) = Inr (h x)) \<Longrightarrow> mapThrowing f (map g xs) = Inr (map h xs)"
  by (induction xs) auto

section \<open>Splitting and joining\<close>

text \<open>\<open>text.split(sep)\<close> for a separator of one code unit.\<close>

fun splitOn :: "'a \<Rightarrow> 'a list \<Rightarrow> 'a list list" where
  "splitOn c [] = [[]]"
| "splitOn c (x # xs) =
     (if x = c then [] # splitOn c xs
      else (x # hd (splitOn c xs)) # tl (splitOn c xs))"

fun consHead :: "'a \<Rightarrow> 'a list list \<Rightarrow> 'a list list" where
  "consHead x [] = [[x]]"
| "consHead x (y # ys) = (x # y) # ys"

text \<open>\<open>parts.join(sep)\<close>.\<close>

fun joinWith :: "'a list \<Rightarrow> 'a list list \<Rightarrow> 'a list" where
  "joinWith sep [] = []"
| "joinWith sep [x] = x"
| "joinWith sep (x # y # zs) = x @ sep @ joinWith sep (y # zs)"

lemma splitOn_not_Nil [simp]: "splitOn c xs \<noteq> []"
  by (cases xs) auto

text \<open>Evaluation visits each element once.\<close>

lemma splitOn_code [code]:
  "splitOn c [] = [[]]"
  "splitOn c (x # xs) = (if x = c then [] # splitOn c xs else consHead x (splitOn c xs))"
  by (cases "splitOn c xs"; simp)+

lemma joinWith_Cons: "xs \<noteq> [] \<Longrightarrow> joinWith sep (x # xs) = x @ sep @ joinWith sep xs"
  by (cases xs) auto

lemma splitOn_elems: "x \<in> set (splitOn c s) \<Longrightarrow> c \<notin> set x"
proof (induction s arbitrary: x)
  case (Cons a s)
  show ?case
  proof (cases "a = c")
    case True
    with Cons show ?thesis by auto
  next
    case False
    have "hd (splitOn c s) \<in> set (splitOn c s)" by simp
    then have "c \<notin> set (hd (splitOn c s))" by (rule Cons.IH)
    moreover have "\<And>y. y \<in> set (tl (splitOn c s)) \<Longrightarrow> c \<notin> set y"
      using Cons.IH by (meson list.set_sel(2) splitOn_not_Nil)
    ultimately show ?thesis using False Cons.prems by auto
  qed
qed simp

lemma splitOn_subset: "x \<in> set (splitOn c s) \<Longrightarrow> set x \<subseteq> set s"
proof (induction s arbitrary: x)
  case (Cons a s)
  have hd: "set (hd (splitOn c s)) \<subseteq> set s" by (rule Cons.IH) simp
  have tl: "\<And>y. y \<in> set (tl (splitOn c s)) \<Longrightarrow> set y \<subseteq> set s"
    using Cons.IH by (meson list.set_sel(2) splitOn_not_Nil)
  show ?case
  proof (cases "a = c")
    case True
    with Cons show ?thesis by auto
  next
    case False
    with Cons.prems have "x = a # hd (splitOn c s) \<or> x \<in> set (tl (splitOn c s))" by simp
    with hd tl show ?thesis by auto
  qed
qed simp

lemma joinWith_splitOn: "joinWith [c] (splitOn c s) = s"
proof (induction s)
  case (Cons a s)
  show ?case
  proof (cases "a = c")
    case True
    then show ?thesis using Cons by (simp add: joinWith_Cons)
  next
    case False
    obtain x xs where s: "splitOn c s = x # xs" by (cases "splitOn c s") auto
    then show ?thesis using Cons False by (cases xs) auto
  qed
qed simp

lemma splitOn_no_sep: "c \<notin> set s \<Longrightarrow> splitOn c s = [s]"
  by (induction s) auto

lemma splitOn_append_sep: "c \<notin> set x \<Longrightarrow> splitOn c (x @ c # s) = x # splitOn c s"
  by (induction x) auto

lemma splitOn_joinWith:
  "xs \<noteq> [] \<Longrightarrow> (\<And>x. x \<in> set xs \<Longrightarrow> c \<notin> set x) \<Longrightarrow> splitOn c (joinWith [c] xs) = xs"
proof (induction xs)
  case (Cons a xs)
  then show ?case
    by (cases "xs = []") (auto simp: splitOn_no_sep joinWith_Cons splitOn_append_sep)
qed simp

lemma joinWith_set: "set (joinWith sep xs) \<subseteq> \<Union> (set ` set xs) \<union> set sep"
  by (induction sep xs rule: joinWith.induct) auto

text \<open>\<open>text.split(sep)\<close> for a longer separator: the occurrences are found from the
  left and never overlap.  An empty separator, which the sources never use, is
  never found.\<close>

function splitStr :: "'a list \<Rightarrow> 'a list \<Rightarrow> 'a list list" where
  "splitStr sep s =
     (if sep \<noteq> [] \<and> prefix sep s then [] # splitStr sep (drop (length sep) s)
      else case s of [] \<Rightarrow> [[]]
           | x # xs \<Rightarrow> (x # hd (splitStr sep xs)) # tl (splitStr sep xs))"
  by pat_completeness auto
termination
  by (relation "measure (\<lambda>(sep, s). length s)") (auto simp: prefix_def)

declare splitStr.simps [simp del]

lemma splitStr_not_Nil [simp]: "splitStr sep s \<noteq> []"
  by (subst splitStr.simps) (auto split: list.splits)

lemma splitStr_code [code]:
  "splitStr sep s =
     (if sep \<noteq> [] \<and> prefix sep s then [] # splitStr sep (drop (length sep) s)
      else case s of [] \<Rightarrow> [[]] | x # xs \<Rightarrow> consHead x (splitStr sep xs))"
proof (cases s)
  case (Cons x xs)
  then show ?thesis by (subst splitStr.simps) (cases "splitStr sep xs"; auto)
qed (subst splitStr.simps, simp)

lemma splitStr_Nil [simp]: "splitStr sep [] = [[]]"
  by (subst splitStr.simps) auto

lemma splitStr_no_head:
  "sep \<noteq> [] \<Longrightarrow> hd sep \<notin> set x \<Longrightarrow> splitStr sep (x @ s) =
     (x @ hd (splitStr sep s)) # tl (splitStr sep s)"
proof (induction x)
  case (Cons a x)
  have "\<not> prefix sep (a # x @ s)"
    using Cons.prems by (cases sep) auto
  then show ?case
    using Cons by (subst splitStr.simps) simp
qed simp

lemma splitStr_sep: "sep \<noteq> [] \<Longrightarrow> splitStr sep (sep @ s) = [] # splitStr sep s"
  by (subst splitStr.simps) simp

lemma splitStr_joinWith:
  "sep \<noteq> [] \<Longrightarrow> xs \<noteq> [] \<Longrightarrow> (\<And>x. x \<in> set xs \<Longrightarrow> hd sep \<notin> set x) \<Longrightarrow>
     splitStr sep (joinWith sep xs) = xs"
proof (induction xs)
  case (Cons a xs)
  have a: "hd sep \<notin> set a" using Cons.prems by simp
  show ?case
  proof (cases "xs = []")
    case True
    then show ?thesis
      using splitStr_no_head [OF Cons.prems(1) a, of "[]"] by simp
  next
    case False
    with Cons have IH: "splitStr sep (joinWith sep xs) = xs" by simp
    show ?thesis
      using splitStr_no_head [OF Cons.prems(1) a, of "sep @ joinWith sep xs"] False
      by (simp add: joinWith_Cons splitStr_sep Cons.prems IH)
  qed
qed simp

lemma joinWith_snoc: "xs \<noteq> [] \<Longrightarrow> joinWith sep (xs @ [y]) = joinWith sep xs @ sep @ y"
proof (induction xs)
  case (Cons a xs)
  then show ?case by (cases "xs = []") (auto simp: joinWith_Cons)
qed simp

section \<open>Searching and trimming\<close>

text \<open>\<open>text.indexOf(c)\<close>: the first position of \<open>c\<close>, \<open>None\<close> for \<open>-1\<close>.\<close>

fun indexOf :: "'a \<Rightarrow> 'a list \<Rightarrow> nat option" where
  "indexOf c [] = None"
| "indexOf c (x # xs) = (if x = c then Some 0 else map_option Suc (indexOf c xs))"

lemma indexOf_None_iff [simp]: "indexOf c xs = None \<longleftrightarrow> c \<notin> set xs"
  by (induction xs) auto

lemma indexOf_append: "c \<notin> set xs \<Longrightarrow> indexOf c (xs @ c # ys) = Some (length xs)"
  by (induction xs) auto

lemma indexOf_SomeD:
  "indexOf c xs = Some n \<Longrightarrow> xs = take n xs @ c # drop (Suc n) xs \<and> c \<notin> set (take n xs)"
proof (induction xs arbitrary: n)
  case (Cons a xs)
  then show ?case by (cases "a = c") auto
qed simp

text \<open>The two loops that advance \<open>start\<close> and lower \<open>end\<close> while the character
  belongs to a set.\<close>

definition trimBy :: "('a \<Rightarrow> bool) \<Rightarrow> 'a list \<Rightarrow> 'a list" where
  "trimBy P s = rev (dropWhile P (rev (dropWhile P s)))"

definition trimmed :: "('a \<Rightarrow> bool) \<Rightarrow> 'a list \<Rightarrow> bool" where
  "trimmed P s \<longleftrightarrow> s = [] \<or> \<not> P (hd s) \<and> \<not> P (last s)"

lemma trimBy_set: "set (trimBy P s) \<subseteq> set s"
  by (auto simp: trimBy_def dest!: set_dropWhileD)

lemma dropWhile_rev_hd:
  "\<not> P (hd s) \<Longrightarrow> dropWhile P (rev s) \<noteq> [] \<Longrightarrow> last (dropWhile P (rev s)) = hd s"
proof -
  assume h: "\<not> P (hd s)" and ne: "dropWhile P (rev s) \<noteq> []"
  from ne have "s \<noteq> []" by auto
  have "rev s = takeWhile P (rev s) @ dropWhile P (rev s)" by simp
  then have "last (dropWhile P (rev s)) = last (rev s)"
    using ne by (metis last_appendR)
  with \<open>s \<noteq> []\<close> show ?thesis by (simp add: last_rev)
qed

lemma trimmed_trimBy [simp]: "trimmed P (trimBy P s)"
proof -
  define t where "t = dropWhile P s"
  have t: "t = [] \<or> \<not> P (hd t)"
    unfolding t_def using hd_dropWhile [of P s] by auto
  define u where "u = dropWhile P (rev t)"
  have u: "u = [] \<or> \<not> P (hd u)"
    unfolding u_def using hd_dropWhile [of P "rev t"] by auto
  have "u = [] \<or> last u = hd t"
    using t dropWhile_rev_hd [of P t] unfolding u_def by auto
  with t u have "u = [] \<or> \<not> P (hd u) \<and> \<not> P (last u)"
    unfolding u_def by auto
  then show ?thesis
    unfolding trimmed_def trimBy_def t_def [symmetric] u_def [symmetric]
    by (auto simp: hd_rev last_rev)
qed

lemma trimBy_trimmed: "trimmed P s \<Longrightarrow> trimBy P s = s"
proof (cases "s = []")
  case False
  assume "trimmed P s"
  with False have h: "\<not> P (hd s)" and l: "\<not> P (last s)" by (auto simp: trimmed_def)
  from h False have "dropWhile P s = s" by (cases s) auto
  moreover from l False have "dropWhile P (rev s) = rev s"
    by (cases "rev s") (auto simp: hd_rev [symmetric])
  ultimately show ?thesis by (simp add: trimBy_def)
qed (simp add: trimBy_def)

lemma trimBy_idem [simp]: "trimBy P (trimBy P s) = trimBy P s"
  by (rule trimBy_trimmed) simp

lemma trimBy_Cons [simp]: "P c \<Longrightarrow> trimBy P (c # s) = trimBy P s"
  by (simp add: trimBy_def)

lemma trimmed_joinWith:
  assumes "\<And>x. x \<in> set xs \<Longrightarrow> x \<noteq> [] \<and> trimmed P x"
  shows "trimmed P (joinWith sep xs)"
proof (cases "xs = []")
  case True
  then show ?thesis by (simp add: trimmed_def)
next
  case False
  have ends: "joinWith sep xs \<noteq> [] \<and> hd (joinWith sep xs) = hd (hd xs) \<and>
      last (joinWith sep xs) = last (last xs)"
    using False assms
  proof (induction xs)
    case (Cons a xs)
    then show ?case by (cases "xs = []") (auto simp: joinWith_Cons)
  qed simp
  have "hd xs \<in> set xs" and "last xs \<in> set xs" using False by auto
  then show ?thesis
    using ends assms unfolding trimmed_def by auto
qed

section \<open>Latin-1 characters\<close>

abbreviation code :: "char \<Rightarrow> nat" where
  "code c \<equiv> of_char c"

definition inRange :: "char \<Rightarrow> nat \<Rightarrow> nat \<Rightarrow> bool" where
  "inRange c lo hi \<longleftrightarrow> lo \<le> code c \<and> code c \<le> hi"

definition isDigit :: "char \<Rightarrow> bool" where
  "isDigit c \<longleftrightarrow> inRange c 48 57"

definition isHexDigit :: "char \<Rightarrow> bool" where
  "isHexDigit c \<longleftrightarrow> isDigit c \<or> inRange c 65 70 \<or> inRange c 97 102"

text \<open>\<open>toLowerCase\<close> on a Latin-1 character: the ASCII letters and the capital
  letters of the upper half, of which the multiplication sign is none.\<close>

definition toLowerChar :: "char \<Rightarrow> char" where
  "toLowerChar c =
     (if inRange c 65 90 \<or> inRange c 192 222 \<and> code c \<noteq> 215
      then char_of (code c + 32) else c)"

definition toLowerCase :: "string \<Rightarrow> string" where
  "toLowerCase s = map toLowerChar s"

lemma code_char_of: "n < 256 \<Longrightarrow> code (char_of n) = n"
  by simp

lemma toLowerChar_code:
  "code (toLowerChar c) =
     (if inRange c 65 90 \<or> inRange c 192 222 \<and> code c \<noteq> 215 then code c + 32 else code c)"
proof (cases "inRange c 65 90 \<or> inRange c 192 222 \<and> code c \<noteq> 215")
  case True
  then have "code c + 32 < 256" by (auto simp: inRange_def)
  with True show ?thesis by (simp add: toLowerChar_def code_char_of)
next
  case False
  then show ?thesis unfolding toLowerChar_def by (simp only: if_False)
qed

lemma toLowerChar_idem [simp]: "toLowerChar (toLowerChar c) = toLowerChar c"
proof -
  have "code (toLowerChar (toLowerChar c)) = code (toLowerChar c)"
    by (subst toLowerChar_code) (auto simp: toLowerChar_code inRange_def split: if_splits)
  then show ?thesis by simp
qed

lemma toLowerCase_idem [simp]: "toLowerCase (toLowerCase s) = toLowerCase s"
  by (simp add: toLowerCase_def)

section \<open>Numbers written in digits\<close>

definition digitValue :: "char \<Rightarrow> nat" where
  "digitValue c =
     (if isDigit c then code c - 48
      else if inRange c 65 70 then code c - 55
      else if inRange c 97 102 then code c - 87 else 0)"

text \<open>\<open>Number.parseInt(text, radix)\<close> on a string of digits of that radix.\<close>

definition parseDigits :: "nat \<Rightarrow> string \<Rightarrow> nat" where
  "parseDigits radix s = foldl (\<lambda>n c. n * radix + digitValue c) 0 s"

lemma parseDigits_Nil [simp]: "parseDigits radix [] = 0"
  by (simp add: parseDigits_def)

lemma parseDigits_snoc [simp]:
  "parseDigits radix (s @ [c]) = parseDigits radix s * radix + digitValue c"
  by (simp add: parseDigits_def)

definition digitChar :: "nat \<Rightarrow> char" where
  "digitChar d = char_of (if d < 10 then 48 + d else 87 + d)"

text \<open>\<open>n.toString(radix)\<close>, for a radix between 2 and 16.\<close>

fun showDigits :: "nat \<Rightarrow> nat \<Rightarrow> string" where
  "showDigits radix n =
     (if n < radix \<or> radix < 2 then [digitChar n]
      else showDigits radix (n div radix) @ [digitChar (n mod radix)])"

declare showDigits.simps [simp del]

lemma digitChar_numerals [simp]:
  "digitChar 0 = CHR ''0''" "digitChar 1 = CHR ''1''" "digitChar (Suc 0) = CHR ''1''"
  "digitChar 2 = CHR ''2''" "digitChar 3 = CHR ''3''" "digitChar 4 = CHR ''4''"
  "digitChar 5 = CHR ''5''" "digitChar 6 = CHR ''6''" "digitChar 7 = CHR ''7''"
  "digitChar 8 = CHR ''8''" "digitChar 9 = CHR ''9''"
  by code_simp+

lemma digitChar_code: "d < 16 \<Longrightarrow> code (digitChar d) = (if d < 10 then 48 + d else 87 + d)"
  unfolding digitChar_def by (subst code_char_of) auto

lemma digitValue_digitChar: "d < 16 \<Longrightarrow> digitValue (digitChar d) = d"
  by (auto simp: digitValue_def isDigit_def inRange_def digitChar_code)

lemma isHexDigit_digitChar: "d < 16 \<Longrightarrow> isHexDigit (digitChar d)"
  by (auto simp: isHexDigit_def isDigit_def inRange_def digitChar_code)

lemma isDigit_digitChar: "d < 10 \<Longrightarrow> isDigit (digitChar d)"
  by (auto simp: isDigit_def inRange_def digitChar_code)

lemma showDigits_not_Nil [simp]: "showDigits radix n \<noteq> []"
  by (subst showDigits.simps) auto

lemma showDigits_hex: "c \<in> set (showDigits 16 n) \<Longrightarrow> isHexDigit c"
proof (induction "16 :: nat" n rule: showDigits.induct)
  case (1 n)
  then show ?case
    by (subst (asm) showDigits.simps) (auto simp: isHexDigit_digitChar split: if_splits)
qed

lemma showDigits_dec: "c \<in> set (showDigits 10 n) \<Longrightarrow> isDigit c"
proof (induction "10 :: nat" n rule: showDigits.induct)
  case (1 n)
  then show ?case
    by (subst (asm) showDigits.simps) (auto simp: isDigit_digitChar split: if_splits)
qed

lemma parseDigits_showDigits:
  "2 \<le> radix \<Longrightarrow> radix \<le> 16 \<Longrightarrow> parseDigits radix (showDigits radix n) = n"
proof (induction radix n rule: showDigits.induct)
  case (1 radix n)
  show ?case
  proof (cases "n < radix")
    case True
    with 1 show ?thesis
      by (subst showDigits.simps) (auto simp: parseDigits_def digitValue_digitChar)
  next
    case False
    with 1 have "parseDigits radix (showDigits radix (n div radix)) = n div radix" by simp
    moreover have "n mod radix < 16"
      using 1 mod_less_divisor [of radix n] by linarith
    ultimately show ?thesis
      using 1 False by (subst showDigits.simps) (simp add: digitValue_digitChar)
  qed
qed


section \<open>Text as numbers, and paths\<close>

text \<open>Where text is not limited to Latin-1 it is a list of code points (or of UTF-16
  code units, where the source counts those).\<close>

type_synonym codepoints = "nat list"

definition units :: "string \<Rightarrow> codepoints" where
  "units s = map of_char s"

abbreviation SLASH :: nat where "SLASH \<equiv> 47"
abbreviation DOT :: nat where "DOT \<equiv> 46"

text \<open>A path segment that names something.\<close>

definition plainSegment :: "codepoints \<Rightarrow> bool" where
  "plainSegment s \<longleftrightarrow> s \<noteq> [] \<and> s \<noteq> [DOT] \<and> s \<noteq> [DOT, DOT] \<and> SLASH \<notin> set s"

lemma joinWith_terminated:
  "xs \<noteq> [] \<Longrightarrow> joinWith [c] xs @ [c] = concat (map (\<lambda>x. x @ [c]) xs)"
  by (induction xs rule: joinWith.induct [of _ "[c]"]) auto

text \<open>A prefix of terminated words is a prefix of the list of words.\<close>

lemma prefix_until:
  "c \<notin> set x \<Longrightarrow> c \<notin> set y \<Longrightarrow> prefix (x @ c # u) (y @ c # v) \<longleftrightarrow> x = y \<and> prefix u v"
proof (induction x arbitrary: y)
  case Nil
  then show ?case by (cases y) auto
next
  case (Cons a x)
  then show ?case by (cases y) auto
qed

lemma prefix_terminated:
  assumes "\<forall>x \<in> set xs. c \<notin> set x" "\<forall>y \<in> set ys. c \<notin> set y"
  shows "prefix (concat (map (\<lambda>x. x @ [c]) xs)) (concat (map (\<lambda>x. x @ [c]) ys)) \<longleftrightarrow> prefix xs ys"
  using assms
proof (induction xs arbitrary: ys)
  case (Cons x xs)
  show ?case
  proof (cases ys)
    case ys: (Cons y zs)
    have "c \<notin> set x" "c \<notin> set y" using Cons.prems ys by simp_all
    then show ?thesis using Cons.IH [of zs] Cons.prems ys by (simp add: prefix_until)
  qed simp
qed simp

lemma prefix_joinWith:
  assumes "xs \<noteq> []" "ys \<noteq> []" "\<forall>x \<in> set xs. c \<notin> set x" "\<forall>y \<in> set ys. c \<notin> set y"
  shows "prefix (joinWith [c] xs @ [c]) (joinWith [c] ys @ [c]) \<longleftrightarrow> prefix xs ys"
  unfolding joinWith_terminated [OF assms(1)] joinWith_terminated [OF assms(2)]
  by (rule prefix_terminated [OF assms(3,4)])


lemma joinWith_append:
  "xs \<noteq> [] \<Longrightarrow> ys \<noteq> [] \<Longrightarrow> joinWith sep (xs @ ys) = joinWith sep xs @ sep @ joinWith sep ys"
proof (induction xs)
  case (Cons x xs)
  then show ?case by (cases "xs = []") (simp_all add: joinWith_Cons)
qed simp

lemma prefix_joinWith_strict:
  assumes "xs \<noteq> []" "\<forall>x \<in> set xs. c \<notin> set x" "\<forall>y \<in> set ys. c \<notin> set y"
  shows "prefix (joinWith [c] xs @ [c]) (joinWith [c] ys) \<longleftrightarrow> strict_prefix xs ys"
proof (cases "ys = []")
  case False
  show ?thesis
  proof
    assume p: "prefix (joinWith [c] xs @ [c]) (joinWith [c] ys)"
    then have "prefix (joinWith [c] xs @ [c]) (joinWith [c] ys @ [c])" by (rule prefix_prefix)
    then have "prefix xs ys" using prefix_joinWith [OF assms(1) False assms(2,3)] by simp
    moreover have "xs \<noteq> ys" using p by (auto dest: prefix_length_le)
    ultimately show "strict_prefix xs ys" by (simp add: strict_prefix_def)
  next
    assume "strict_prefix xs ys"
    then obtain zs where "ys = xs @ zs" "zs \<noteq> []" by (auto simp: strict_prefix_def prefix_def)
    then show "prefix (joinWith [c] xs @ [c]) (joinWith [c] ys)" using assms(1) by (simp add: joinWith_append)
  qed
qed simp

end
