(* ===== verification/Http_Framing.thy ===== *)
theory Http_Framing
  imports Prelude
begin

text \<open>
  \<open>cli/http-framing.ts\<close>: where the body of an HTTP/1.1 message ends, for the
  sandbox proxy of the command line.  Text is Latin-1, as the proxy decodes it.
  The error type has one constructor per \<open>throw\<close> of the file, all of class
  \<open>MalformedFramingError\<close>.
\<close>

section \<open>Data and constants\<close>

datatype framing_error =
    SeveralContentLengths
  | ContentLengthNotNumeric
  | ContentLengthTooLarge
  | TransferEncodingWithContentLength
  | TransferEncodingNotChunked
  | InvalidStatusLine
  | InvalidChunkSize
  | ChunkSizeTooLarge

datatype BodyKind = KindNone | KindLength | KindChunked | KindUntilClose

record BodyFraming =
  bodyKind :: BodyKind
  bodyLength :: nat

definition NO_BODY :: BodyFraming where
  "NO_BODY = \<lparr>bodyKind = KindNone, bodyLength = 0\<rparr>"

definition CHUNKED_BODY :: BodyFraming where
  "CHUNKED_BODY = \<lparr>bodyKind = KindChunked, bodyLength = 0\<rparr>"

definition UNTIL_CLOSE_BODY :: BodyFraming where
  "UNTIL_CLOSE_BODY = \<lparr>bodyKind = KindUntilClose, bodyLength = 0\<rparr>"

abbreviation CR :: char where "CR \<equiv> CHR 0x0D"
abbreviation LF :: char where "LF \<equiv> CHR 0x0A"
abbreviation TAB :: char where "TAB \<equiv> CHR 0x09"
abbreviation CRLF :: string where "CRLF \<equiv> [CR, LF]"

text \<open>\<open>Number.MAX_SAFE_INTEGER\<close>.\<close>

definition maxSafeInteger :: nat where
  "maxSafeInteger = 2 ^ 53 - 1"

section \<open>Operations\<close>

definition isOws :: "char \<Rightarrow> bool" where
  "isOws c \<longleftrightarrow> c = CHR '' '' \<or> c = TAB"

definition trimOws :: "string \<Rightarrow> string" where
  "trimOws text = trimBy isOws text"

definition listValues :: "string list \<Rightarrow> string list" where
  "listValues values =
     concat (map (\<lambda>value. map (\<lambda>item. toLowerCase (trimOws item)) (splitOn CHR '','' value)) values)"

text \<open>\<open>Number.parseInt\<close> rounds a larger value to a double that is not a safe
  integer either, so the test on the exact value is the test on the double.\<close>

definition safeInteger :: "string \<Rightarrow> nat \<Rightarrow> framing_error \<Rightarrow> framing_error + nat" where
  "safeInteger digits radix message =
     (let value = parseDigits radix digits
      in if value \<le> maxSafeInteger then Inr value else Inl message)"

definition isDecimal :: "string \<Rightarrow> bool" where
  "isDecimal s \<longleftrightarrow> s \<noteq> [] \<and> list_all isDigit s"

definition isHexadecimal :: "string \<Rightarrow> bool" where
  "isHexadecimal s \<longleftrightarrow> s \<noteq> [] \<and> list_all isHexDigit s"

text \<open>A JavaScript \<open>Set\<close> of size one holds its only element, whatever the order
  in which duplicates are dropped.\<close>

definition contentLength :: "string list \<Rightarrow> framing_error + nat option" where
  "contentLength values =
     (if values = [] then Inr None
      else let items = remdups (listValues values) in
        if length items \<noteq> 1 then Inl SeveralContentLengths
        else if \<not> isDecimal (hd items) then Inl ContentLengthNotNumeric
        else andThen (safeInteger (hd items) 10 ContentLengthTooLarge) (\<lambda>n. Inr (Some n)))"

definition requestBodyFraming :: "string list \<Rightarrow> string list \<Rightarrow> framing_error + BodyFraming" where
  "requestBodyFraming transferEncodings contentLengths =
     (if transferEncodings \<noteq> [] then
        if contentLengths \<noteq> [] then Inl TransferEncodingWithContentLength
        else let codings = filter (\<lambda>coding. coding \<noteq> []) (listValues transferEncodings) in
          if codings = [] \<or> last codings \<noteq> ''chunked'' then Inl TransferEncodingNotChunked
          else Inr CHUNKED_BODY
      else andThen (contentLength contentLengths)
        (\<lambda>len. case len of None \<Rightarrow> Inr NO_BODY
           | Some n \<Rightarrow> Inr (if n = 0 then NO_BODY
                            else \<lparr>bodyKind = KindLength, bodyLength = n\<rparr>)))"

text \<open>\<open>/^HTTP\\/1\\.[01] (\\d{3})(?: .*)?$/\<close>: the dot matches anything but a line end.\<close>

definition responseStatus :: "string \<Rightarrow> framing_error + nat" where
  "responseStatus statusLine =
     (if prefix ''HTTP/1.'' statusLine then
        case drop 7 statusLine of
          v # sp # a # b # c # rest \<Rightarrow>
            if (v = CHR ''0'' \<or> v = CHR ''1'') \<and> sp = CHR '' '' \<and>
               isDigit a \<and> isDigit b \<and> isDigit c \<and>
               (rest = [] \<or> hd rest = CHR '' '' \<and> LF \<notin> set (tl rest) \<and> CR \<notin> set (tl rest))
            then Inr (parseDigits 10 [a, b, c]) else Inl InvalidStatusLine
        | _ \<Rightarrow> Inl InvalidStatusLine
      else Inl InvalidStatusLine)"

definition isInformational :: "nat \<Rightarrow> bool" where
  "isInformational status \<longleftrightarrow> 100 \<le> status \<and> status \<le> 199"

text \<open>The \<open>catch\<close> turns every error of \<open>contentLength\<close>, which are all
  \<open>MalformedFramingError\<close>, into \<open>undefined\<close>.\<close>

definition declaredResponseLength :: "string list \<Rightarrow> nat option" where
  "declaredResponseLength contentLengths =
     (case contentLength contentLengths of Inl e \<Rightarrow> None | Inr len \<Rightarrow> len)"

text \<open>\<open>toUpperCase\<close> compared with an ASCII word: only the ASCII letters can
  become one of its letters.\<close>

definition toUpperChar :: "char \<Rightarrow> char" where
  "toUpperChar c = (if inRange c 97 122 then char_of (code c - 32) else c)"

definition responseBodyFraming ::
  "nat \<Rightarrow> string \<Rightarrow> string list \<Rightarrow> string list \<Rightarrow> BodyFraming" where
  "responseBodyFraming status requestMethod transferEncodings contentLengths =
     (if isInformational status \<or> status = 204 \<or> status = 304 then NO_BODY
      else if map toUpperChar requestMethod = ''HEAD'' then NO_BODY
      else if transferEncodings \<noteq> [] then
        (if listValues transferEncodings \<noteq> [] \<and> last (listValues transferEncodings) = ''chunked''
         then CHUNKED_BODY else UNTIL_CLOSE_BODY)
      else case declaredResponseLength contentLengths of
        None \<Rightarrow> UNTIL_CLOSE_BODY
      | Some n \<Rightarrow> if n = 0 then NO_BODY else \<lparr>bodyKind = KindLength, bodyLength = n\<rparr>)"

definition chunkSize :: "string \<Rightarrow> framing_error + nat" where
  "chunkSize line =
     (let withoutLineEnd = (if suffix CRLF line then take (length line - 2) line else line);
          digits = trimOws (hd (splitOn CHR '';'' withoutLineEnd))
      in if \<not> isHexadecimal digits then Inl InvalidChunkSize
         else safeInteger digits 16 ChunkSizeTooLarge)"

section \<open>Lemmas\<close>

lemma trimOws_idem [simp]: "trimOws (trimOws s) = trimOws s"
  by (simp add: trimOws_def)

lemma trimOws_set: "set (trimOws s) \<subseteq> set s"
  by (simp add: trimOws_def trimBy_set)

lemma trimOws_all:
  assumes "\<And>c. c \<in> set ws \<Longrightarrow> isOws c" and "trimmed isOws s"
  shows "trimOws (s @ ws) = s"
proof (cases "s = []")
  case True
  then show ?thesis
    using assms(1) by (auto simp: trimOws_def trimBy_def dest: set_dropWhileD)
next
  case False
  with assms(2) have h: "\<not> isOws (hd s)" and l: "\<not> isOws (hd (rev s))"
    by (auto simp: trimmed_def hd_rev)
  from h False have "dropWhile isOws (s @ ws) = s @ ws" by (cases s) auto
  moreover from l False have "dropWhile isOws (rev s) = rev s" by (cases "rev s") auto
  moreover have "dropWhile isOws (rev ws @ rev s) = dropWhile isOws (rev s)"
    using assms(1) by (induction ws rule: rev_induct) auto
  ultimately show ?thesis by (simp add: trimOws_def trimBy_def)
qed

lemma safeInteger_Inr_iff [throw_iff]:
  "safeInteger d r e = Inr n \<longleftrightarrow> n = parseDigits r d \<and> n \<le> maxSafeInteger"
  by (auto simp: safeInteger_def Let_def)

lemma remdups_length_1_iff: "length (remdups xs) = Suc 0 \<longleftrightarrow> (\<exists>x. set xs = {x})"
  by (simp add: length_remdups_card_conv card_1_singleton_iff)

lemma hd_remdups_singleton:
  assumes "set xs = {x}"
  shows "hd (remdups xs) = x"
proof -
  have "set (remdups xs) = {x}" and "remdups xs \<noteq> []" using assms by auto
  then show ?thesis by (metis list.set_sel(1) singletonD)
qed

lemma listValues_eq_Nil_iff [simp]: "listValues vs = [] \<longleftrightarrow> vs = []"
  by (cases vs) (auto simp: listValues_def)

lemma contentLength_Inr_iff [throw_iff]:
  "contentLength vs = Inr len \<longleftrightarrow>
     vs = [] \<and> len = None \<or>
     (\<exists>d. vs \<noteq> [] \<and> set (listValues vs) = {d} \<and> isDecimal d \<and>
          parseDigits 10 d \<le> maxSafeInteger \<and> len = Some (parseDigits 10 d))"
proof (cases "vs = [] \<or> (\<nexists>d. set (listValues vs) = {d})")
  case True
  then show ?thesis
    unfolding contentLength_def Let_def by (auto simp: remdups_length_1_iff)
next
  case False
  then obtain d where d: "vs \<noteq> []" "set (listValues vs) = {d}" by blast
  have "hd (remdups (listValues vs)) = d" using d(2) by (rule hd_remdups_singleton)
  moreover have "length (remdups (listValues vs)) = Suc 0"
    using d by (auto simp: remdups_length_1_iff)
  ultimately have "contentLength vs = (if isDecimal d then
      andThen (safeInteger d 10 ContentLengthTooLarge) (\<lambda>n. Inr (Some n))
      else Inl ContentLengthNotNumeric)"
    unfolding contentLength_def Let_def using d by simp
  with d show ?thesis by (auto simp: throw_iff)
qed

lemma isOws_not_hex: "isHexDigit c \<Longrightarrow> \<not> isOws c"
  by (auto simp: isHexDigit_def isDigit_def inRange_def isOws_def)

lemma list_all_hex_trimmed: "list_all isHexDigit s \<Longrightarrow> trimmed isOws s"
  unfolding trimmed_def by (metis isOws_not_hex last_in_set list.set_sel(1) list_all_iff)

lemma showDigits_hexadecimal: "isHexadecimal (showDigits 16 n)"
  by (auto simp: isHexadecimal_def list_all_iff showDigits_hex)

section \<open>Properties\<close>

text \<open>C7: a request is given a body delimitation exactly in the unambiguous
  cases.  Either only \<open>Transfer-Encoding\<close> is present and its last coding is
  \<open>chunked\<close>; or neither header is present; or only \<open>Content-Length\<close> is present,
  all its list items are one and the same decimal numeral, and its value is a
  safe integer.  Everything else is rejected, \<open>Transfer-Encoding\<close> together with
  \<open>Content-Length\<close> included.\<close>

theorem requestBodyFraming_unambiguous:
  "requestBodyFraming te cl = Inr f \<longleftrightarrow>
     (te \<noteq> [] \<and> cl = [] \<and> f = CHUNKED_BODY \<and>
        (\<exists>xs. filter (\<lambda>c. c \<noteq> []) (listValues te) = xs @ [''chunked''])) \<or>
     (te = [] \<and> cl = [] \<and> f = NO_BODY) \<or>
     (te = [] \<and> cl \<noteq> [] \<and>
        (\<exists>d. set (listValues cl) = {d} \<and> isDecimal d \<and> parseDigits 10 d \<le> maxSafeInteger \<and>
           f = (if parseDigits 10 d = 0 then NO_BODY
                else \<lparr>bodyKind = KindLength, bodyLength = parseDigits 10 d\<rparr>)))"
proof (cases "te = []")
  case True
  then show ?thesis
    unfolding requestBodyFraming_def by (auto simp: throw_iff)
next
  case False
  have "(codings = [] \<or> last codings \<noteq> ''chunked'') \<longleftrightarrow> (\<nexists>xs. codings = xs @ [''chunked''])"
    for codings :: "string list"
    by (metis append_butlast_last_id last_snoc snoc_eq_iff_butlast)
  with False show ?thesis
    unfolding requestBodyFraming_def Let_def by auto
qed

text \<open>The size line of a chunk is read back as the size it was printed from,
  whatever optional white space and chunk extension follow the digits; a size
  beyond the safe integers is an error and never a rounded number.\<close>

theorem chunkSize_showDigits:
  assumes "\<And>c. c \<in> set ws \<Longrightarrow> isOws c" and "ext = [] \<or> hd ext = CHR '';''"
  shows "chunkSize (showDigits 16 n @ ws @ ext @ CRLF) =
    (if n \<le> maxSafeInteger then Inr n else Inl ChunkSizeTooLarge)"
proof -
  let ?d = "showDigits 16 n"
  have hex: "isHexadecimal ?d" by (rule showDigits_hexadecimal)
  have "\<not> isHexDigit CHR '';''" and "\<not> isOws CHR '';''"
    by (simp_all add: isHexDigit_def isDigit_def inRange_def isOws_def)
  then have nosep: "CHR '';'' \<notin> set (?d @ ws)"
    using showDigits_hex [of "CHR '';''" n] assms(1) [of "CHR '';''"] by auto
  have first: "hd (splitOn CHR '';'' (?d @ ws @ ext)) = ?d @ ws"
  proof (cases ext)
    case Nil
    with nosep show ?thesis by (simp add: splitOn_no_sep)
  next
    case (Cons e es)
    with assms(2) have "e = CHR '';''" by simp
    then show ?thesis using splitOn_append_sep [OF nosep, of es] Cons by simp
  qed
  have trim: "trimOws (?d @ ws) = ?d"
    using hex assms(1) by (intro trimOws_all list_all_hex_trimmed) (auto simp: isHexadecimal_def)
  have parse: "parseDigits 16 ?d = n" by (rule parseDigits_showDigits) simp_all
  have strip: "suffix CRLF (?d @ ws @ ext @ CRLF)"
    "take (length (?d @ ws @ ext @ CRLF) - 2) (?d @ ws @ ext @ CRLF) = ?d @ ws @ ext"
    using suffixI [of _ "?d @ ws @ ext" CRLF] by simp_all
  show ?thesis
    using hex strip first trim parse
    unfolding chunkSize_def Let_def safeInteger_def by simp
qed

text \<open>A response that carries a body and whose headers would delimit a
  request is delimited in the same way, provided its last list element is not
  empty.  A response never fails: without a usable header it lasts until the
  upstream closes.\<close>

theorem responseBodyFraming_agrees:
  assumes "\<not> isInformational status" "status \<noteq> 204" "status \<noteq> 304"
    and "map toUpperChar m \<noteq> ''HEAD''"
    and "requestBodyFraming te cl = Inr f"
    and "te \<noteq> [] \<or> cl \<noteq> []" and "te = [] \<or> last (listValues te) \<noteq> []"
  shows "responseBodyFraming status m te cl = f"
proof (cases "te = []")
  case True
  then have cl: "cl \<noteq> []" using assms(6) by simp
  with True assms(5) obtain d where d: "contentLength cl = Inr (Some (parseDigits 10 d))"
    and f: "f = (if parseDigits 10 d = 0 then NO_BODY
                 else \<lparr>bodyKind = KindLength, bodyLength = parseDigits 10 d\<rparr>)"
    by (auto simp: requestBodyFraming_def throw_iff split: option.splits)
  then show ?thesis
    using assms(1-4) True unfolding responseBodyFraming_def declaredResponseLength_def by simp
next
  case False
  let ?l = "listValues te"
  from False have "?l \<noteq> []" by simp
  then obtain ys y where l: "?l = ys @ [y]" by (cases ?l rule: rev_cases) auto
  then have "filter (\<lambda>c. c \<noteq> []) ?l = filter (\<lambda>c. c \<noteq> []) ys @ [last ?l]"
    using assms(7) False by simp
  then have "last ?l = ''chunked'' \<and> f = CHUNKED_BODY"
    using assms(5) False unfolding requestBodyFraming_def Let_def by (auto split: if_splits)
  with False \<open>?l \<noteq> []\<close> show ?thesis
    using assms(1-4) unfolding responseBodyFraming_def by simp
qed

end
