(* ===== verification/Http_Head.thy ===== *)
theory Http_Head
  imports Http_Framing
begin

text \<open>
  \<open>cli/http-head.ts\<close>: the head of an HTTP/1.1 message, its strict parser and its
  rewriting towards the endpoint of a sandbox.  The error type has one
  constructor per \<open>throw new MalformedHttpHeadError\<close>.  \<open>wf_head\<close> is the invariant
  that the parser establishes and the rewriting keeps; together with the round
  trip of \<open>serialise\<close> and \<open>parseHttpHead\<close> it excludes header smuggling.
\<close>

section \<open>Data and constants\<close>

datatype head_error =
    ObsFold
  | MissingColon
  | NameNotToken
  | MissingTerminator
  | BareLineBreak
  | EmptyRequestLine

type_synonym HeaderPair = "string \<times> string"

record HttpHead =
  requestLine :: string
  headers :: "HeaderPair list"

record RewriteTarget =
  endpoint :: string
  jwe :: string
  port :: nat

abbreviation HEADER_TERMINATOR :: string where "HEADER_TERMINATOR \<equiv> CRLF @ CRLF"
abbreviation PROXY_HEADER_PREFIX :: string where "PROXY_HEADER_PREFIX \<equiv> ''x-aws-proxy-''"
definition AUTH_HEADER_NAME :: string where "AUTH_HEADER_NAME = ''X-aws-proxy-auth''"
definition PORT_HEADER_NAME :: string where "PORT_HEADER_NAME = ''X-aws-proxy-port''"
definition HOST_HEADER_NAME :: string where "HOST_HEADER_NAME = ''Host''"
definition COOKIE_HEADER_NAME :: string where "COOKIE_HEADER_NAME = ''Cookie''"
definition CONNECTION_HEADER_NAME :: string where "CONNECTION_HEADER_NAME = ''Connection''"
definition UPGRADE_HEADER_NAME :: string where "UPGRADE_HEADER_NAME = ''Upgrade''"
definition TRANSFER_ENCODING_HEADER_NAME :: string where
  "TRANSFER_ENCODING_HEADER_NAME = ''Transfer-Encoding''"
definition CONTENT_LENGTH_HEADER_NAME :: string where
  "CONTENT_LENGTH_HEADER_NAME = ''Content-Length''"
abbreviation DASHBOARD_COOKIE_PREFIX :: string where "DASHBOARD_COOKIE_PREFIX \<equiv> ''rayito_dashboard_''"

text \<open>\<open>TOKEN_CHARACTERS\<close>: the \<open>tchar\<close> of RFC 9110.\<close>

definition isTchar :: "char \<Rightarrow> bool" where
  "isTchar c \<longleftrightarrow> isDigit c \<or> inRange c 65 90 \<or> inRange c 97 122 \<or>
     c \<in> set [CHR ''!'', CHR ''#'', CHR ''$'', CHR ''%'', CHR ''&'', CHR 0x27, CHR ''*'',
       CHR ''+'', CHR ''-'', CHR ''.'', CHR ''^'', CHR ''_'', CHR 0x60, CHR ''|'', CHR ''~'']"

section \<open>Operations of a head\<close>

definition headerValues :: "HttpHead \<Rightarrow> string \<Rightarrow> string list" where
  "headerValues h name =
     map snd (filter (\<lambda>(key, value). toLowerCase key = toLowerCase name) (headers h))"

definition header :: "HttpHead \<Rightarrow> string \<Rightarrow> string option" where
  "header h name = (case headerValues h name of [] \<Rightarrow> None | v # _ \<Rightarrow> Some v)"

definition head_method :: "HttpHead \<Rightarrow> string" where
  "head_method h = hd (splitOn CHR '' '' (requestLine h))"

definition bodyFraming :: "HttpHead \<Rightarrow> framing_error + BodyFraming" where
  "bodyFraming h =
     requestBodyFraming (headerValues h TRANSFER_ENCODING_HEADER_NAME)
       (headerValues h CONTENT_LENGTH_HEADER_NAME)"

definition isUpgrade :: "HttpHead \<Rightarrow> bool" where
  "isUpgrade h =
     (let tokens = map (\<lambda>token. toLowerCase (trimOws token))
            (splitOn CHR '','' (case header h CONNECTION_HEADER_NAME of None \<Rightarrow> [] | Some v \<Rightarrow> v))
      in ''upgrade'' \<in> set tokens \<and> header h UPGRADE_HEADER_NAME \<noteq> None)"

section \<open>Parsing\<close>

definition parseHeaderLine :: "string \<Rightarrow> head_error + HeaderPair" where
  "parseHeaderLine line =
     (if line \<noteq> [] \<and> (hd line = CHR '' '' \<or> hd line = TAB) then Inl ObsFold
      else case indexOf CHR '':'' line of
        None \<Rightarrow> Inl MissingColon
      | Some separator \<Rightarrow>
          let name = take separator line in
          if \<not> (name \<noteq> [] \<and> list_all isTchar name) then Inl NameNotToken
          else Inr (name, trimOws (drop (Suc separator) line)))"

definition parseHttpHead :: "string \<Rightarrow> head_error + HttpHead" where
  "parseHttpHead raw =
     (if \<not> suffix HEADER_TERMINATOR raw then Inl MissingTerminator
      else let ls = splitStr CRLF (take (length raw - 4) raw) in
        if list_ex (\<lambda>line. CR \<in> set line \<or> LF \<in> set line) ls then Inl BareLineBreak
        else if hd ls = [] then Inl EmptyRequestLine
        else andThen (mapThrowing parseHeaderLine (filter (\<lambda>line. line \<noteq> []) (tl ls)))
          (\<lambda>hs. Inr \<lparr>requestLine = hd ls, headers = hs\<rparr>))"

section \<open>Rewriting\<close>

definition withoutDashboardCookies :: "string \<Rightarrow> string option" where
  "withoutDashboardCookies cookieHeader =
     (let kept = filter (\<lambda>cookie. cookie \<noteq> [] \<and> \<not> prefix DASHBOARD_COOKIE_PREFIX cookie)
            (map trimOws (splitOn CHR '';'' cookieHeader))
      in if kept = [] then None else Some (joinWith ''; '' kept))"

fun withCookiesFiltered :: "HeaderPair list \<Rightarrow> HeaderPair list" where
  "withCookiesFiltered [] = []"
| "withCookiesFiltered ((name, value) # hs) =
     (if toLowerCase name \<noteq> toLowerCase COOKIE_HEADER_NAME
      then (name, value) # withCookiesFiltered hs
      else case withoutDashboardCookies value of
        None \<Rightarrow> withCookiesFiltered hs
      | Some remaining \<Rightarrow> (name, remaining) # withCookiesFiltered hs)"

definition serialise :: "string \<Rightarrow> HeaderPair list \<Rightarrow> string" where
  "serialise startLine hs =
     joinWith CRLF (startLine # map (\<lambda>(name, value). name @ '': '' @ value) hs @ [[], []])"

text \<open>The predicate of the \<open>filter\<close> in \<open>rewriteHead\<close>.\<close>

definition keepsHeader :: "bool \<Rightarrow> string \<Rightarrow> bool" where
  "keepsHeader upgrade name =
     (let lowered = toLowerCase name in
       \<not> prefix PROXY_HEADER_PREFIX lowered \<and>
       lowered \<noteq> toLowerCase HOST_HEADER_NAME \<and>
       (upgrade \<or> lowered \<noteq> toLowerCase CONNECTION_HEADER_NAME))"

definition rewrittenHeaders :: "HttpHead \<Rightarrow> RewriteTarget \<Rightarrow> HeaderPair list" where
  "rewrittenHeaders h target =
     filter (\<lambda>(name, value). keepsHeader (isUpgrade h) name) (withCookiesFiltered (headers h)) @
     [(HOST_HEADER_NAME, endpoint target), (AUTH_HEADER_NAME, jwe target),
      (PORT_HEADER_NAME, showDigits 10 (port target))] @
     (if isUpgrade h then [] else [(CONNECTION_HEADER_NAME, ''close'')])"

definition rewriteHead :: "HttpHead \<Rightarrow> RewriteTarget \<Rightarrow> string" where
  "rewriteHead h target = serialise (requestLine h) (rewrittenHeaders h target)"

definition closingHeaders :: "HttpHead \<Rightarrow> HeaderPair list" where
  "closingHeaders response =
     filter (\<lambda>(name, value). toLowerCase name \<noteq> toLowerCase CONNECTION_HEADER_NAME) (headers response) @
     [(CONNECTION_HEADER_NAME, ''close'')]"

definition closingResponseHead :: "HttpHead \<Rightarrow> string" where
  "closingResponseHead response = serialise (requestLine response) (closingHeaders response)"

section \<open>The invariant of a head\<close>

definition oneLine :: "string \<Rightarrow> bool" where
  "oneLine s \<longleftrightarrow> CR \<notin> set s \<and> LF \<notin> set s"

definition wf_pair :: "HeaderPair \<Rightarrow> bool" where
  "wf_pair p \<longleftrightarrow> fst p \<noteq> [] \<and> list_all isTchar (fst p) \<and> oneLine (snd p) \<and> trimmed isOws (snd p)"

definition wf_head :: "HttpHead \<Rightarrow> bool" where
  "wf_head h \<longleftrightarrow> requestLine h \<noteq> [] \<and> oneLine (requestLine h) \<and> list_all wf_pair (headers h)"

definition wf_target :: "RewriteTarget \<Rightarrow> bool" where
  "wf_target t \<longleftrightarrow> oneLine (endpoint t) \<and> trimmed isOws (endpoint t) \<and>
     oneLine (jwe t) \<and> trimmed isOws (jwe t)"

text \<open>The cookies that a \<open>Cookie\<close> value lists.\<close>

definition cookiesOf :: "string \<Rightarrow> string list" where
  "cookiesOf v = filter (\<lambda>cookie. cookie \<noteq> []) (map trimOws (splitOn CHR '';'' v))"

text \<open>A request that tries to smuggle a proxy port, for the examples below.\<close>

definition sampleRaw :: string where
  "sampleRaw = ''GET / HTTP/1.1'' @ CRLF @ ''x-AWS-proxy-port: 1'' @ CRLF @ ''Connection: keep-alive'' @
     CRLF @ ''Cookie: rayito_dashboard_1=s; a=b'' @ CRLF @ CRLF"

definition sampleHead :: HttpHead where
  "sampleHead = \<lparr>requestLine = ''GET / HTTP/1.1'', headers = [(''x-AWS-proxy-port'', ''1''),
     (''Connection'', ''keep-alive''), (''Cookie'', ''rayito_dashboard_1=s; a=b'')]\<rparr>"

definition sampleTarget :: RewriteTarget where
  "sampleTarget = \<lparr>endpoint = ''vm.example'', jwe = ''token'', port = 8080\<rparr>"

lemma isTchar_excludes:
  "isTchar c \<Longrightarrow> c \<noteq> CHR '':'' \<and> c \<noteq> CHR '' '' \<and> c \<noteq> TAB \<and> c \<noteq> CR \<and> c \<noteq> LF"
  by (auto simp: isTchar_def isDigit_def inRange_def)

lemma isTchar_not_in:
  "list_all isTchar s \<Longrightarrow>
     CHR '':'' \<notin> set s \<and> CHR '' '' \<notin> set s \<and> TAB \<notin> set s \<and> CR \<notin> set s \<and> LF \<notin> set s"
  using isTchar_excludes by (auto simp: list_all_iff)

lemma oneLine_subset: "oneLine s \<Longrightarrow> set t \<subseteq> set s \<Longrightarrow> oneLine t"
  by (auto simp: oneLine_def)

lemma oneLine_append [simp]: "oneLine (s @ t) \<longleftrightarrow> oneLine s \<and> oneLine t"
  by (auto simp: oneLine_def)

lemma list_all2_set2: "list_all2 P xs ys \<Longrightarrow> y \<in> set ys \<Longrightarrow> \<exists>x \<in> set xs. P x y"
  by (induction rule: list_all2_induct) auto

lemma parseHeaderLine_wf:
  assumes "parseHeaderLine line = Inr p" "oneLine line"
  shows "wf_pair p"
proof -
  from assms(1) obtain n where n: "indexOf CHR '':'' line = Some n"
    and p: "p = (take n line, trimOws (drop (Suc n) line))"
    and name: "take n line \<noteq> []" "list_all isTchar (take n line)"
    by (auto simp: parseHeaderLine_def Let_def split: if_splits option.splits)
  have "oneLine (trimOws (drop (Suc n) line))"
    using assms(2) trimOws_set [of "drop (Suc n) line"] set_drop_subset [of "Suc n" line]
    by (blast intro: oneLine_subset)
  then show ?thesis using p name by (simp add: wf_pair_def trimOws_def)
qed

lemma parseHeaderLine_print:
  assumes "wf_pair p"
  shows "parseHeaderLine (fst p @ '': '' @ snd p) = Inr p"
proof -
  let ?n = "fst p" and ?v = "snd p"
  have n: "?n \<noteq> []" "list_all isTchar ?n" and v: "trimmed isOws ?v"
    using assms by (auto simp: wf_pair_def)
  note nin = isTchar_not_in [OF n(2)]
  have "hd ?n \<in> set ?n" using n(1) by simp
  then have "hd ?n \<noteq> CHR '' '' \<and> hd ?n \<noteq> TAB" using nin by metis
  moreover have "indexOf CHR '':'' (?n @ '': '' @ ?v) = Some (length ?n)"
    using nin indexOf_append [of "CHR '':''" ?n "CHR '' '' # ?v"] by simp
  moreover have "trimOws (CHR '' '' # ?v) = ?v"
    using v by (simp add: trimOws_def isOws_def trimBy_trimmed)
  ultimately show ?thesis
    using n by (simp add: parseHeaderLine_def Let_def)
qed

lemma hd_CRLF [simp]: "hd CRLF = CR"
  by simp

text \<open>The parser establishes the invariant \<open>\<dots>\<close>\<close>

lemma parseHttpHead_wf:
  assumes "parseHttpHead raw = Inr h"
  shows "wf_head h"
proof -
  define ls where "ls = splitStr CRLF (take (length raw - 4) raw)"
  from assms obtain hs where
        one: "\<not> list_ex (\<lambda>line. CR \<in> set line \<or> LF \<in> set line) ls"
    and ne: "hd ls \<noteq> []"
    and hs: "list_all2 (\<lambda>x y. parseHeaderLine x = Inr y) (filter (\<lambda>line. line \<noteq> []) (tl ls)) hs"
    and h: "h = \<lparr>requestLine = hd ls, headers = hs\<rparr>"
    unfolding parseHttpHead_def Let_def ls_def [symmetric]
    by (auto simp: throw_iff split: if_splits)
  have all: "oneLine l" if "l \<in> set ls" for l
    using one that by (auto simp: list_ex_iff oneLine_def)
  have ls: "ls \<noteq> []" by (simp add: ls_def)
  have "wf_pair p" if "p \<in> set hs" for p
  proof -
    from list_all2_set2 [OF hs that] obtain l where "l \<in> set (tl ls)" "parseHeaderLine l = Inr p"
      by auto
    then show ?thesis
      using all [of l] list.set_sel(2) [OF ls] parseHeaderLine_wf by blast
  qed
  with ne all ls h show ?thesis by (simp add: wf_head_def list_all_iff)
qed

text \<open>\<open>\<dots>\<close> and reads back what \<open>serialise\<close> writes from a head that satisfies it.\<close>

lemma parseHttpHead_serialise:
  assumes "wf_head h"
  shows "parseHttpHead (serialise (requestLine h) (headers h)) = Inr h"
proof -
  define lines where "lines = map (\<lambda>p. fst p @ '': '' @ snd p) (headers h)"
  have ser: "serialise (requestLine h) (headers h) =
      joinWith CRLF (requestLine h # lines) @ CRLF @ CRLF"
    using joinWith_snoc [of "requestLine h # lines @ [[]]" CRLF "[]"]
      joinWith_snoc [of "requestLine h # lines" CRLF "[]"]
    by (simp add: serialise_def lines_def case_prod_unfold)
  have wf: "wf_pair p" if "p \<in> set (headers h)" for p
    using assms that by (auto simp: wf_head_def list_all_iff)
  have one: "oneLine l" if "l \<in> set (requestLine h # lines)" for l
    using assms that wf isTchar_not_in
    by (fastforce simp: lines_def wf_head_def wf_pair_def oneLine_def)
  have split: "splitStr CRLF (joinWith CRLF (requestLine h # lines)) = requestLine h # lines"
    using one by (intro splitStr_joinWith) (auto simp: oneLine_def)
  have "mapThrowing parseHeaderLine lines = Inr (headers h)"
    using mapThrowing_map_Inr [of "headers h" parseHeaderLine "\<lambda>p. fst p @ '': '' @ snd p" id]
      parseHeaderLine_print wf by (simp add: lines_def)
  moreover have "filter (\<lambda>line. line \<noteq> []) lines = lines"
    by (auto simp: lines_def filter_id_conv)
  moreover have "\<not> list_ex (\<lambda>line. CR \<in> set line \<or> LF \<in> set line) (requestLine h # lines)"
    using one by (auto simp: list_ex_iff oneLine_def)
  moreover have "suffix HEADER_TERMINATOR (serialise (requestLine h) (headers h))"
    unfolding ser by (simp add: suffix_def)
  moreover have "take (length (serialise (requestLine h) (headers h)) - 4)
      (serialise (requestLine h) (headers h)) = joinWith CRLF (requestLine h # lines)"
    unfolding ser by simp
  ultimately show ?thesis
    using assms split unfolding parseHttpHead_def Let_def by (simp add: wf_head_def)
qed

section \<open>What the rewriting keeps\<close>

lemma withoutDashboardCookies_wf:
  assumes "withoutDashboardCookies v = Some r" "oneLine v"
  shows "oneLine r \<and> trimmed isOws r"
proof -
  define kept where "kept = filter (\<lambda>cookie. cookie \<noteq> [] \<and> \<not> prefix DASHBOARD_COOKIE_PREFIX cookie)
      (map trimOws (splitOn CHR '';'' v))"
  have r: "r = joinWith ''; '' kept"
    using assms(1) by (auto simp: withoutDashboardCookies_def Let_def kept_def split: if_splits)
  have sub: "set k \<subseteq> set v" if "k \<in> set kept" for k
    using that trimOws_set splitOn_subset [of _ "CHR '';''" v] by (fastforce simp: kept_def)
  have "oneLine r"
    using assms(2) sub joinWith_set [of "''; ''" kept] unfolding r oneLine_def by fastforce
  moreover have "trimmed isOws r"
    unfolding r by (rule trimmed_joinWith) (auto simp: kept_def trimOws_def)
  ultimately show ?thesis ..
qed

lemma withCookiesFiltered_wf:
  "list_all wf_pair hs \<Longrightarrow> list_all wf_pair (withCookiesFiltered hs)"
proof (induction hs rule: withCookiesFiltered.induct)
  case (2 name val hs)
  then show ?case
    using withoutDashboardCookies_wf [of val] by (auto simp: wf_pair_def split: option.splits)
qed simp

lemma withCookiesFiltered_other:
  "toLowerCase n \<noteq> toLowerCase COOKIE_HEADER_NAME \<Longrightarrow>
   filter (\<lambda>(k, v). toLowerCase k = toLowerCase n) (withCookiesFiltered hs) =
   filter (\<lambda>(k, v). toLowerCase k = toLowerCase n) hs"
  by (induction hs rule: withCookiesFiltered.induct) (auto split: option.splits)

lemma isTchar_constants [simp]:
  "HOST_HEADER_NAME \<noteq> [] \<and> list_all isTchar HOST_HEADER_NAME"
  "AUTH_HEADER_NAME \<noteq> [] \<and> list_all isTchar AUTH_HEADER_NAME"
  "PORT_HEADER_NAME \<noteq> [] \<and> list_all isTchar PORT_HEADER_NAME"
  "CONNECTION_HEADER_NAME \<noteq> [] \<and> list_all isTchar CONNECTION_HEADER_NAME"
  by code_simp+

text \<open>The names that the rewriting treats specially are pairwise different in any
  casing, and only the two proxy names have the reserved prefix.\<close>

lemma names_distinct_list:
  "distinct (map toLowerCase [HOST_HEADER_NAME, AUTH_HEADER_NAME, PORT_HEADER_NAME,
     CONNECTION_HEADER_NAME, COOKIE_HEADER_NAME, UPGRADE_HEADER_NAME,
     TRANSFER_ENCODING_HEADER_NAME, CONTENT_LENGTH_HEADER_NAME])"
  by code_simp

lemma names_distinct_rev:
  "distinct (map toLowerCase [CONTENT_LENGTH_HEADER_NAME, TRANSFER_ENCODING_HEADER_NAME,
     UPGRADE_HEADER_NAME, COOKIE_HEADER_NAME, CONNECTION_HEADER_NAME, PORT_HEADER_NAME,
     AUTH_HEADER_NAME, HOST_HEADER_NAME])"
  using names_distinct_list distinct_rev [of "map toLowerCase [HOST_HEADER_NAME, AUTH_HEADER_NAME,
     PORT_HEADER_NAME, CONNECTION_HEADER_NAME, COOKIE_HEADER_NAME, UPGRADE_HEADER_NAME,
     TRANSFER_ENCODING_HEADER_NAME, CONTENT_LENGTH_HEADER_NAME]"]
  by (simp only: rev.simps append.simps list.map)

lemmas names_distinct [simp] =
  names_distinct_list [simplified distinct.simps list.map list.set insert_iff empty_iff
    de_Morgan_disj simp_thms]
  names_distinct_rev [simplified distinct.simps list.map list.set insert_iff empty_iff
    de_Morgan_disj simp_thms]

lemma names_prefix [simp]:
  "prefix PROXY_HEADER_PREFIX (toLowerCase AUTH_HEADER_NAME)"
  "prefix PROXY_HEADER_PREFIX (toLowerCase PORT_HEADER_NAME)"
  "\<not> prefix PROXY_HEADER_PREFIX (toLowerCase HOST_HEADER_NAME)"
  "\<not> prefix PROXY_HEADER_PREFIX (toLowerCase CONNECTION_HEADER_NAME)"
  "\<not> prefix PROXY_HEADER_PREFIX (toLowerCase COOKIE_HEADER_NAME)"
  "\<not> prefix PROXY_HEADER_PREFIX (toLowerCase UPGRADE_HEADER_NAME)"
  "\<not> prefix PROXY_HEADER_PREFIX (toLowerCase TRANSFER_ENCODING_HEADER_NAME)"
  "\<not> prefix PROXY_HEADER_PREFIX (toLowerCase CONTENT_LENGTH_HEADER_NAME)"
  by code_simp+

lemma isDigit_trimmed:
  assumes "list_all isDigit s"
  shows "oneLine s \<and> trimmed isOws s"
proof -
  have "\<not> isDigit CR" "\<not> isDigit LF" "\<And>c. isDigit c \<Longrightarrow> \<not> isOws c"
    by (auto simp: isDigit_def inRange_def isOws_def)
  then show ?thesis
    using assms unfolding trimmed_def oneLine_def
    by (metis last_in_set list.set_sel(1) list_all_iff)
qed

lemma rewrittenHeaders_wf:
  assumes "wf_head h" "wf_target t"
  shows "list_all wf_pair (rewrittenHeaders h t)"
proof -
  have "list_all wf_pair (withCookiesFiltered (headers h))"
    using assms(1) by (auto simp: wf_head_def intro: withCookiesFiltered_wf)
  moreover have "oneLine (showDigits 10 (port t)) \<and> trimmed isOws (showDigits 10 (port t))"
    by (rule isDigit_trimmed) (simp add: list_all_iff showDigits_dec)
  moreover have "oneLine ''close'' \<and> trimmed isOws ''close''"
    by (simp add: oneLine_def trimmed_def isOws_def)
  ultimately show ?thesis
    using assms(2) isTchar_constants
    by (auto simp: rewrittenHeaders_def wf_pair_def wf_target_def list_all_iff)
qed

lemma parse_rewriteHead:
  assumes "parseHttpHead raw = Inr h" "wf_target t"
  shows "parseHttpHead (rewriteHead h t) =
    Inr \<lparr>requestLine = requestLine h, headers = rewrittenHeaders h t\<rparr>"
proof -
  have "wf_head h" using assms(1) by (rule parseHttpHead_wf)
  then have "wf_head \<lparr>requestLine = requestLine h, headers = rewrittenHeaders h t\<rparr>"
    using rewrittenHeaders_wf assms(2) by (simp add: wf_head_def)
  from parseHttpHead_serialise [OF this] show ?thesis by (simp add: rewriteHead_def)
qed


lemma headerValues_append [simp]:
  "headerValues \<lparr>requestLine = r, headers = xs @ ys\<rparr> n =
   headerValues \<lparr>requestLine = r, headers = xs\<rparr> n @ headerValues \<lparr>requestLine = r, headers = ys\<rparr> n"
  by (simp add: headerValues_def)

lemma headerValues_filter:
  assumes "\<And>k v. toLowerCase k = toLowerCase n \<Longrightarrow> P k = b"
  shows "headerValues \<lparr>requestLine = r, headers = filter (\<lambda>(k, v). P k) hs\<rparr> n =
    (if b then headerValues \<lparr>requestLine = r, headers = hs\<rparr> n else [])"
  using assms by (induction hs) (auto simp: headerValues_def)

lemma headerValues_cookies:
  "toLowerCase n \<noteq> toLowerCase COOKIE_HEADER_NAME \<Longrightarrow>
   headerValues \<lparr>requestLine = r, headers = withCookiesFiltered hs\<rparr> n =
   headerValues \<lparr>requestLine = r, headers = hs\<rparr> n"
  by (simp add: headerValues_def withCookiesFiltered_other)

lemma keepsHeader_cong: "toLowerCase k = toLowerCase n \<Longrightarrow> keepsHeader u k = keepsHeader u n"
  by (simp add: keepsHeader_def)

lemma headerValues_requestLine:
  "headerValues \<lparr>requestLine = r, headers = headers h\<rparr> n = headerValues h n"
  by (simp add: headerValues_def)

text \<open>The values of one name in the rewritten head: what the client sent, if the name
  is kept, followed by what the rewriting adds.\<close>

lemma headerValues_rewritten:
  "headerValues \<lparr>requestLine = r, headers = rewrittenHeaders h t\<rparr> n =
   (if keepsHeader (isUpgrade h) n
    then headerValues \<lparr>requestLine = r, headers = withCookiesFiltered (headers h)\<rparr> n else []) @
   headerValues \<lparr>requestLine = r, headers =
     [(HOST_HEADER_NAME, endpoint t), (AUTH_HEADER_NAME, jwe t),
      (PORT_HEADER_NAME, showDigits 10 (port t))] @
     (if isUpgrade h then [] else [(CONNECTION_HEADER_NAME, ''close'')])\<rparr> n"
  unfolding rewrittenHeaders_def headerValues_append
  by (subst headerValues_filter [OF keepsHeader_cong]) (assumption, rule refl)

lemma rewritten_fixed:
  fixes h :: HttpHead
  defines "h' t \<equiv> \<lparr>requestLine = requestLine h, headers = rewrittenHeaders h t\<rparr>"
  shows "headerValues (h' t) HOST_HEADER_NAME = [endpoint t]"
    and "headerValues (h' t) AUTH_HEADER_NAME = [jwe t]"
    and "headerValues (h' t) PORT_HEADER_NAME = [showDigits 10 (port t)]"
    and "headerValues (h' t) CONNECTION_HEADER_NAME =
      (if isUpgrade h then headerValues h CONNECTION_HEADER_NAME else [''close''])"
proof -
  have cookie: "headerValues \<lparr>requestLine = requestLine h, headers = withCookiesFiltered (headers h)\<rparr>
      CONNECTION_HEADER_NAME = headerValues h CONNECTION_HEADER_NAME"
    by (simp add: headerValues_cookies headerValues_requestLine)
  show "headerValues (h' t) HOST_HEADER_NAME = [endpoint t]"
    "headerValues (h' t) AUTH_HEADER_NAME = [jwe t]"
    "headerValues (h' t) PORT_HEADER_NAME = [showDigits 10 (port t)]"
    unfolding h'_def headerValues_rewritten keepsHeader_def Let_def
    by (simp_all add: headerValues_def)
  show "headerValues (h' t) CONNECTION_HEADER_NAME =
      (if isUpgrade h then headerValues h CONNECTION_HEADER_NAME else [''close''])"
    unfolding h'_def headerValues_rewritten keepsHeader_def Let_def cookie
    by (simp add: headerValues_def)
qed

lemma rewritten_other:
  assumes "\<not> prefix PROXY_HEADER_PREFIX (toLowerCase n)"
    "toLowerCase n \<notin> toLowerCase ` {HOST_HEADER_NAME, COOKIE_HEADER_NAME, CONNECTION_HEADER_NAME}"
  shows "headerValues \<lparr>requestLine = r, headers = rewrittenHeaders h t\<rparr> n = headerValues h n"
proof -
  have "toLowerCase AUTH_HEADER_NAME \<noteq> toLowerCase n" "toLowerCase PORT_HEADER_NAME \<noteq> toLowerCase n"
    using assms(1) names_prefix(1,2) by metis+
  then have "headerValues \<lparr>requestLine = r, headers =
     [(HOST_HEADER_NAME, endpoint t), (AUTH_HEADER_NAME, jwe t),
      (PORT_HEADER_NAME, showDigits 10 (port t))] @
     (if isUpgrade h then [] else [(CONNECTION_HEADER_NAME, ''close'')])\<rparr> n = []"
    using assms(2) by (auto simp: headerValues_def)
  moreover have "keepsHeader (isUpgrade h) n"
    using assms by (auto simp: keepsHeader_def Let_def)
  ultimately show ?thesis
    using assms(2) by (simp add: headerValues_rewritten headerValues_cookies headerValues_requestLine)
qed

lemma rewritten_proxy_names:
  assumes "(n, v) \<in> set (rewrittenHeaders h t)" "prefix PROXY_HEADER_PREFIX (toLowerCase n)"
  shows "(n, v) = (AUTH_HEADER_NAME, jwe t) \<or> (n, v) = (PORT_HEADER_NAME, showDigits 10 (port t))"
  using assms by (auto simp: rewrittenHeaders_def keepsHeader_def Let_def split: if_splits)


lemma cookiesOf_joined:
  assumes "kept \<noteq> []" "\<And>k. k \<in> set kept \<Longrightarrow> k \<noteq> [] \<and> trimmed isOws k \<and> CHR '';'' \<notin> set k"
  shows "cookiesOf (joinWith ''; '' kept) = kept"
proof -
  have "filter (\<lambda>c. c \<noteq> []) (map trimOws (splitOn CHR '';'' (joinWith ''; '' kept))) = kept"
    using assms
  proof (induction kept)
    case (Cons k ks)
    have k: "k \<noteq> []" "trimOws k = k" "CHR '';'' \<notin> set k"
      using Cons.prems(2) [of k] by (auto simp: trimOws_def trimBy_trimmed)
    have sp: "trimOws (CHR '' '' # x) = trimOws x" for x by (simp add: trimOws_def isOws_def)
    show ?case
    proof (cases "ks = []")
      case True
      then show ?thesis using k by (simp add: splitOn_no_sep)
    next
      case False
      define rest where "rest = joinWith ''; '' ks"
      obtain x xs where x: "splitOn CHR '';'' rest = x # xs" by (metis splitOn_not_Nil list.exhaust)
      have "splitOn CHR '';'' (CHR '' '' # rest) = (CHR '' '' # x) # xs"
        by (simp add: x)
      moreover have "filter (\<lambda>c. c \<noteq> []) (map trimOws (x # xs)) = ks"
        using Cons.IH [OF False] Cons.prems(2) unfolding x [symmetric] rest_def by simp
      ultimately show ?thesis
        using k False splitOn_append_sep [of "CHR '';''" k "CHR '' '' # rest"]
        by (simp add: joinWith_Cons sp rest_def [symmetric])
    qed
  qed simp
  then show ?thesis by (simp add: cookiesOf_def)
qed

lemma cookiesOf_withoutDashboard:
  "concat (map cookiesOf (case withoutDashboardCookies v of None \<Rightarrow> [] | Some r \<Rightarrow> [r])) =
   filter (\<lambda>c. \<not> prefix DASHBOARD_COOKIE_PREFIX c) (cookiesOf v)"
proof -
  define kept where "kept = filter (\<lambda>c. \<not> prefix DASHBOARD_COOKIE_PREFIX c) (cookiesOf v)"
  have r: "withoutDashboardCookies v = (if kept = [] then None else Some (joinWith ''; '' kept))"
    by (simp add: withoutDashboardCookies_def kept_def cookiesOf_def conj_commute)
  have "CHR '';'' \<notin> set (trimOws x)" if "x \<in> set (splitOn CHR '';'' v)" for x
    using splitOn_elems [OF that] trimOws_set [of x] by blast
  then have "k \<noteq> [] \<and> trimmed isOws k \<and> CHR '';'' \<notin> set k" if "k \<in> set kept" for k
    using that by (auto simp: kept_def cookiesOf_def trimOws_def)
  then have "cookiesOf (joinWith ''; '' kept) = kept" if "kept \<noteq> []"
    using that cookiesOf_joined by blast
  then show ?thesis by (simp add: r kept_def [symmetric])
qed

lemma cookies_filtered:
  "concat (map cookiesOf (headerValues \<lparr>requestLine = r, headers = withCookiesFiltered hs\<rparr> COOKIE_HEADER_NAME)) =
   filter (\<lambda>c. \<not> prefix DASHBOARD_COOKIE_PREFIX c)
     (concat (map cookiesOf (headerValues \<lparr>requestLine = r, headers = hs\<rparr> COOKIE_HEADER_NAME)))"
proof (induction hs rule: withCookiesFiltered.induct)
  case (2 name val hs)
  then show ?case
    using cookiesOf_withoutDashboard [of val] by (simp add: headerValues_def split: option.splits)
qed (simp add: headerValues_def)


lemma wf_closing:
  assumes "wf_head h"
  shows "wf_head \<lparr>requestLine = requestLine h, headers = closingHeaders h\<rparr>"
proof -
  have "wf_pair (CONNECTION_HEADER_NAME, ''close'')"
    by (simp add: wf_pair_def oneLine_def trimmed_def isOws_def)
  then show ?thesis using assms by (auto simp: wf_head_def closingHeaders_def list_all_iff)
qed

lemma closing_values:
  "headerValues \<lparr>requestLine = r, headers = closingHeaders h\<rparr> n =
   (if toLowerCase n = toLowerCase CONNECTION_HEADER_NAME then [''close''] else headerValues h n)"
proof -
  have "headerValues \<lparr>requestLine = r, headers = filter (\<lambda>(k, v). toLowerCase k \<noteq> toLowerCase CONNECTION_HEADER_NAME)
      (headers h)\<rparr> n =
    (if toLowerCase n \<noteq> toLowerCase CONNECTION_HEADER_NAME
     then headerValues \<lparr>requestLine = r, headers = headers h\<rparr> n else [])"
    by (rule headerValues_filter) simp
  then show ?thesis
    unfolding closingHeaders_def headerValues_append
    by (auto simp: headerValues_requestLine) (simp_all add: headerValues_def)
qed

lemma sample_ok: "parseHttpHead sampleRaw = Inr sampleHead" "wf_target sampleTarget"
  by code_simp+

section \<open>Properties\<close>

text \<open>C1: no header smuggling through the proxy.  Whatever request the parser accepts,
  the head that is sent on reads back, with the same strict parser, as a head
  with exactly one proxy port, one proxy token and one host, all three chosen
  by the proxy, and no other header with the reserved prefix in any casing.\<close>

theorem rewriteHead_no_smuggling:
  assumes "parseHttpHead raw = Inr h" "wf_target t"
  shows "\<exists>h'. parseHttpHead (rewriteHead h t) = Inr h' \<and>
    headerValues h' PORT_HEADER_NAME = [showDigits 10 (port t)] \<and>
    headerValues h' AUTH_HEADER_NAME = [jwe t] \<and>
    headerValues h' HOST_HEADER_NAME = [endpoint t] \<and>
    (\<forall>(n, v) \<in> set (headers h'). prefix PROXY_HEADER_PREFIX (toLowerCase n) \<longrightarrow>
       (n, v) = (AUTH_HEADER_NAME, jwe t) \<or> (n, v) = (PORT_HEADER_NAME, showDigits 10 (port t)))"
  using parse_rewriteHead [OF assms] rewritten_fixed(1-3) [of h t] rewritten_proxy_names [of _ _ h t]
  by auto

theorem rewriteHead_no_smuggling_witness:
  "\<exists>h'. parseHttpHead (rewriteHead sampleHead sampleTarget) = Inr h' \<and>
    headerValues h' PORT_HEADER_NAME = [''8080'']"
proof -
  have "showDigits 10 (port sampleTarget) = ''8080''"
    by (simp add: sampleTarget_def showDigits.simps)
  then show ?thesis using rewriteHead_no_smuggling [OF sample_ok] by metis
qed

text \<open>The rewritten head asks the server to close the connection, whatever the
  client asked for, except when the request is an upgrade: then the values of
  \<open>Connection\<close> and \<open>Upgrade\<close> arrive unchanged, and it is still an upgrade.\<close>

theorem rewriteHead_connection:
  assumes "parseHttpHead raw = Inr h" "wf_target t"
  shows "\<exists>h'. parseHttpHead (rewriteHead h t) = Inr h' \<and>
    headerValues h' CONNECTION_HEADER_NAME =
      (if isUpgrade h then headerValues h CONNECTION_HEADER_NAME else [''close'']) \<and>
    headerValues h' UPGRADE_HEADER_NAME = headerValues h UPGRADE_HEADER_NAME \<and>
    isUpgrade h' = isUpgrade h"
proof -
  let ?h' = "\<lparr>requestLine = requestLine h, headers = rewrittenHeaders h t\<rparr>"
  have conn: "headerValues ?h' CONNECTION_HEADER_NAME =
      (if isUpgrade h then headerValues h CONNECTION_HEADER_NAME else [''close''])"
    by (rule rewritten_fixed(4))
  have up: "headerValues ?h' UPGRADE_HEADER_NAME = headerValues h UPGRADE_HEADER_NAME"
    by (rule rewritten_other) simp_all
  have "''upgrade'' \<notin> set (map (\<lambda>token. toLowerCase (trimOws token)) (splitOn CHR '','' ''close''))"
    by code_simp
  then have "isUpgrade ?h' = isUpgrade h"
    using conn up by (auto simp: isUpgrade_def header_def Let_def split: if_splits)
  with conn up parse_rewriteHead [OF assms] show ?thesis by blast
qed

text \<open>The session cookies of the local dashboard never reach the sandbox, and
  every other cookie does, in order: the cookies of the rewritten head are
  those of the request without the ones that start with the dashboard prefix.\<close>

theorem rewriteHead_cookies:
  assumes "parseHttpHead raw = Inr h" "wf_target t"
  shows "\<exists>h'. parseHttpHead (rewriteHead h t) = Inr h' \<and>
    concat (map cookiesOf (headerValues h' COOKIE_HEADER_NAME)) =
    filter (\<lambda>c. \<not> prefix DASHBOARD_COOKIE_PREFIX c)
      (concat (map cookiesOf (headerValues h COOKIE_HEADER_NAME)))"
proof -
  have "headerValues \<lparr>requestLine = requestLine h, headers = rewrittenHeaders h t\<rparr> COOKIE_HEADER_NAME =
      headerValues \<lparr>requestLine = requestLine h, headers = withCookiesFiltered (headers h)\<rparr> COOKIE_HEADER_NAME"
    unfolding headerValues_rewritten keepsHeader_def Let_def
    by (simp add: headerValues_def [of "\<lparr>requestLine = _, headers = Cons _ _\<rparr>"])
  then show ?thesis
    using parse_rewriteHead [OF assms] cookies_filtered [of "requestLine h" "headers h"]
    by (simp add: headerValues_requestLine)
qed

text \<open>The rewriting changes nothing else.  The request line, the method, the
  framing of the body and the values of every header that is neither
  \<open>Host\<close>, \<open>Cookie\<close>, \<open>Connection\<close> nor reserved are those of the request.\<close>

theorem rewriteHead_preserves:
  assumes "parseHttpHead raw = Inr h" "wf_target t"
  shows "\<exists>h'. parseHttpHead (rewriteHead h t) = Inr h' \<and>
    requestLine h' = requestLine h \<and> head_method h' = head_method h \<and> bodyFraming h' = bodyFraming h \<and>
    (\<forall>n. \<not> prefix PROXY_HEADER_PREFIX (toLowerCase n) \<and>
       toLowerCase n \<notin> toLowerCase ` {HOST_HEADER_NAME, COOKIE_HEADER_NAME, CONNECTION_HEADER_NAME} \<longrightarrow>
       headerValues h' n = headerValues h n)"
proof -
  let ?h' = "\<lparr>requestLine = requestLine h, headers = rewrittenHeaders h t\<rparr>"
  have "bodyFraming ?h' = bodyFraming h"
    by (simp add: bodyFraming_def rewritten_other)
  moreover have "head_method ?h' = head_method h" by (simp add: head_method_def)
  ultimately show ?thesis
    using parse_rewriteHead [OF assms] rewritten_other [where r = "requestLine h" and h = h and t = t]
    by (intro exI [of _ ?h'] conjI) simp_all
qed

text \<open>The head of a relayed response reads back with \<open>Connection: close\<close> as its
  only \<open>Connection\<close> value, and every other header and the status line as the
  server sent them.\<close>

theorem closingResponseHead_closes:
  assumes "parseHttpHead raw = Inr h"
  shows "\<exists>h'. parseHttpHead (closingResponseHead h) = Inr h' \<and> requestLine h' = requestLine h \<and>
    (\<forall>n. headerValues h' n =
       (if toLowerCase n = toLowerCase CONNECTION_HEADER_NAME then [''close''] else headerValues h n))"
  using parseHttpHead_serialise [OF wf_closing [OF parseHttpHead_wf [OF assms]]] closing_values
  by (auto simp: closingResponseHead_def)

end
