(* ===== verification/Sse.thy ===== *)
theory Sse
  imports Prelude
begin

text \<open>
  \<open>agent/sse.ts\<close>: the incremental reader of server-sent events.  Bytes and UTF-16
  code units are naturals.  The \<open>TextDecoder\<close> of the runtime is the parameter
  \<open>dec\<close>, about which nothing is assumed.  \<open>sseByte\<close> is the reference: one byte at
  a time, with no notion of a chunk.  The reader is shown to implement it for
  every chunking in which no chunk is a lone line feed, and the theorem after
  that shows that the exception is a real one.
\<close>

section \<open>The reader\<close>

record SseMessage =
  msgEvent :: "nat list"
  msgData :: "nat list"

record SseParser =
  ssePartial :: "nat list"
  sseEvent :: "nat list"
  sseData :: "nat list list"
  sseAfterCr :: bool

abbreviation LF_BYTE :: nat where "LF_BYTE \<equiv> 10"
abbreviation CR_BYTE :: nat where "CR_BYTE \<equiv> 13"

definition DEFAULT_SSE_EVENT :: "nat list" where
  "DEFAULT_SSE_EVENT = units ''message''"

definition newSseParser :: SseParser where
  "newSseParser = \<lparr>ssePartial = [], sseEvent = [], sseData = [], sseAfterCr = False\<rparr>"

definition sseDispatch :: "SseParser \<Rightarrow> SseParser \<times> SseMessage option" where
  "sseDispatch st =
     (if sseData st = [] then (st\<lparr>sseEvent := []\<rparr>, None)
      else (st\<lparr>sseEvent := [], sseData := []\<rparr>,
        Some \<lparr>msgEvent = (if sseEvent st = [] then DEFAULT_SSE_EVENT else sseEvent st),
              msgData = joinWith [LF_BYTE] (sseData st)\<rparr>))"

definition fieldName :: "nat list \<Rightarrow> nat list" where
  "fieldName line = (case indexOf 58 line of None \<Rightarrow> line | Some separator \<Rightarrow> take separator line)"

definition fieldValue :: "nat list \<Rightarrow> nat list" where
  "fieldValue line =
     (let val = (case indexOf 58 line of None \<Rightarrow> [] | Some separator \<Rightarrow> drop (Suc separator) line)
      in if prefix [32] val then tl val else val)"

definition sseLine :: "SseParser \<Rightarrow> nat list \<Rightarrow> SseParser \<times> SseMessage option" where
  "sseLine st line =
     (if line = [] then sseDispatch st
      else if prefix [58] line then (st, None)
      else if fieldName line = units ''event'' then (st\<lparr>sseEvent := fieldValue line\<rparr>, None)
      else if fieldName line = units ''data'' then (st\<lparr>sseData := sseData st @ [fieldValue line]\<rparr>, None)
      else (st, None))"

text \<open>The loop of \<open>feed\<close>: \<open>cur\<close> is \<open>joined.subarray(start, index)\<close>.\<close>

function scanLines :: "(nat list \<Rightarrow> nat list) \<Rightarrow> SseParser \<Rightarrow> nat list \<Rightarrow> nat list \<Rightarrow> SseParser \<times> SseMessage list" where
  "scanLines dec st cur [] = (st\<lparr>ssePartial := cur\<rparr>, [])"
| "scanLines dec st cur (b # bs) =
     (if b \<noteq> LF_BYTE \<and> b \<noteq> CR_BYTE then scanLines dec st (cur @ [b]) bs
      else let (st', message) = sseLine st (dec cur);
               (st'', messages) = scanLines dec st' []
                 (if b = CR_BYTE \<and> prefix [LF_BYTE] bs then tl bs else bs)
           in (st'', (case message of None \<Rightarrow> messages | Some m \<Rightarrow> m # messages)))"
  by pat_completeness auto
termination
  by (relation "measure (\<lambda>(dec, st, cur, bs). length bs)") auto

definition feed :: "(nat list \<Rightarrow> nat list) \<Rightarrow> SseParser \<Rightarrow> nat list \<Rightarrow> SseParser \<times> SseMessage list" where
  "feed dec st chunk =
     (let chunkData = (if sseAfterCr st \<and> prefix [LF_BYTE] chunk then tl chunk else chunk);
          st1 = (if chunkData \<noteq> [] then st\<lparr>sseAfterCr := last chunkData = CR_BYTE\<rparr> else st)
      in scanLines dec st1 [] (ssePartial st @ chunkData))"

fun feedAll :: "(nat list \<Rightarrow> nat list) \<Rightarrow> SseParser \<Rightarrow> nat list list \<Rightarrow> SseParser \<times> SseMessage list" where
  "feedAll dec st [] = (st, [])"
| "feedAll dec st (c # cs) =
     (let (st', ms) = feed dec st c; (st'', ms') = feedAll dec st' cs in (st'', ms @ ms'))"

section \<open>The reference: one byte at a time\<close>

definition sseByte :: "(nat list \<Rightarrow> nat list) \<Rightarrow> SseParser \<Rightarrow> nat \<Rightarrow> SseParser \<times> SseMessage list" where
  "sseByte dec st b =
     (if b = LF_BYTE \<and> sseAfterCr st then (st\<lparr>sseAfterCr := False\<rparr>, [])
      else if b = LF_BYTE \<or> b = CR_BYTE then
        let (st', message) = sseLine st (dec (ssePartial st))
        in (st'\<lparr>ssePartial := [], sseAfterCr := (b = CR_BYTE)\<rparr>, case message of None \<Rightarrow> [] | Some m \<Rightarrow> [m])
      else (st\<lparr>ssePartial := ssePartial st @ [b], sseAfterCr := False\<rparr>, []))"

fun sseBytes :: "(nat list \<Rightarrow> nat list) \<Rightarrow> SseParser \<Rightarrow> nat list \<Rightarrow> SseParser \<times> SseMessage list" where
  "sseBytes dec st [] = (st, [])"
| "sseBytes dec st (b # bs) =
     (let (st', ms) = sseByte dec st b; (st'', ms') = sseBytes dec st' bs in (st'', ms @ ms'))"

text \<open>The lines of a stream whose terminators have been removed.\<close>

fun sseLines :: "(nat list \<Rightarrow> nat list) \<Rightarrow> SseParser \<Rightarrow> nat list list \<Rightarrow> SseParser \<times> SseMessage list" where
  "sseLines dec st [] = (st, [])"
| "sseLines dec st (l # ls) =
     (let (st', message) = sseLine st (dec l); (st'', messages) = sseLines dec st' ls
      in (st'', (case message of None \<Rightarrow> messages | Some m \<Rightarrow> m # messages)))"

definition noBreak :: "nat list \<Rightarrow> bool" where
  "noBreak xs \<longleftrightarrow> LF_BYTE \<notin> set xs \<and> CR_BYTE \<notin> set xs"

definition withAfterCr :: "bool \<Rightarrow> SseParser \<times> 'm \<Rightarrow> SseParser \<times> 'm" where
  "withAfterCr a = (\<lambda>(st, ms). (st\<lparr>sseAfterCr := a\<rparr>, ms))"

section \<open>Lemmas\<close>

lemma sseLine_frame:
  "sseLine (st\<lparr>ssePartial := p, sseAfterCr := a\<rparr>) l =
   (let (st', m) = sseLine st l in (st'\<lparr>ssePartial := p, sseAfterCr := a\<rparr>, m))"
  by (simp add: sseLine_def sseDispatch_def)

lemma sseLine_frame_partial:
  "sseLine (st\<lparr>ssePartial := p\<rparr>) l = (let (st', m) = sseLine st l in (st'\<lparr>ssePartial := p\<rparr>, m))"
  by (simp add: sseLine_def sseDispatch_def)

lemma sseLine_keeps:
  "ssePartial (fst (sseLine st l)) = ssePartial st \<and> sseAfterCr (fst (sseLine st l)) = sseAfterCr st"
  by (simp add: sseLine_def sseDispatch_def)

lemma scanLines_noBreak:
  "noBreak xs \<Longrightarrow> scanLines dec st cur (xs @ ys) = scanLines dec st (cur @ xs) ys"
  by (induction xs arbitrary: cur) (auto simp: noBreak_def)

lemma sseBytes_noBreak:
  "noBreak xs \<Longrightarrow> sseBytes dec st (xs @ ys) =
     sseBytes dec (if xs = [] then st else st\<lparr>ssePartial := ssePartial st @ xs, sseAfterCr := False\<rparr>) ys"
  by (induction xs arbitrary: st) (auto simp: noBreak_def sseByte_def)

lemma sseBytes_append:
  "sseBytes dec st (xs @ ys) =
     (let (st', ms) = sseBytes dec st xs; (st'', ms') = sseBytes dec st' ys in (st'', ms @ ms'))"
  by (induction xs arbitrary: st) (simp_all add: case_prod_unfold Let_def)

text \<open>Whether a carriage return came before only matters to a line feed.\<close>

lemma sseByte_afterCr:
  "b \<noteq> LF_BYTE \<Longrightarrow> sseByte dec (st\<lparr>sseAfterCr := a\<rparr>) b = sseByte dec (st\<lparr>sseAfterCr := False\<rparr>) b"
  by (simp add: sseByte_def sseLine_def sseDispatch_def)

lemma sseBytes_afterCr:
  assumes "\<not> prefix [LF_BYTE] bs"
  shows "withAfterCr x (sseBytes dec (st\<lparr>sseAfterCr := a\<rparr>) bs) =
    withAfterCr x (sseBytes dec (st\<lparr>sseAfterCr := False\<rparr>) bs)"
proof (cases bs)
  case (Cons b cs)
  with assms have "b \<noteq> LF_BYTE" by auto
  with Cons show ?thesis by (simp add: sseByte_afterCr [where a = a])
qed (simp add: withAfterCr_def)

lemma sseBytes_last:
  "sseAfterCr (fst (sseBytes dec st bs)) = (if bs = [] then sseAfterCr st else last bs = CR_BYTE)"
proof (induction bs arbitrary: st)
  case (Cons b bs)
  have "sseAfterCr (fst (sseByte dec st b)) = (b = CR_BYTE)"
    by (simp add: sseByte_def case_prod_unfold Let_def)
  with Cons show ?case by (simp add: case_prod_unfold Let_def)
qed simp

text \<open>The loop is the reference, started at the line that is being read.\<close>

lemma scanLines_sseBytes:
  "scanLines dec st cur bs =
   withAfterCr (sseAfterCr st) (sseBytes dec (st\<lparr>ssePartial := cur, sseAfterCr := False\<rparr>) bs)"
proof (induction dec st cur bs rule: scanLines.induct)
  case (2 dec st cur b bs)
  show ?case
  proof (cases "b = LF_BYTE \<or> b = CR_BYTE")
    case False
    with "2.IH"(1) show ?thesis by (simp add: sseByte_def)
  next
    case True
    obtain st' m where l: "sseLine st (dec cur) = (st', m)" by (cases "sseLine st (dec cur)")
    have keep: "sseAfterCr st' = sseAfterCr st" using sseLine_keeps [of st "dec cur"] l by simp
    define s0 where "s0 = st'\<lparr>ssePartial := []\<rparr>"
    define rest where "rest = (if b = CR_BYTE \<and> prefix [LF_BYTE] bs then tl bs else bs)"
    define M where "M = (case m of None \<Rightarrow> [] | Some m \<Rightarrow> [m])"
    have IH: "scanLines dec st' [] rest =
        withAfterCr (sseAfterCr st) (sseBytes dec (s0\<lparr>sseAfterCr := False\<rparr>) rest)"
      using "2.IH"(2) [OF _ l [symmetric] refl] True keep by (simp add: rest_def s0_def)
    have byte: "sseByte dec (st\<lparr>ssePartial := cur, sseAfterCr := False\<rparr>) b =
        (s0\<lparr>sseAfterCr := (b = CR_BYTE)\<rparr>, M)"
      using True l by (auto simp: sseByte_def sseLine_frame s0_def M_def)
    have "withAfterCr x (sseBytes dec (s0\<lparr>sseAfterCr := (b = CR_BYTE)\<rparr>) bs) =
        withAfterCr x (sseBytes dec (s0\<lparr>sseAfterCr := False\<rparr>) rest)" for x
    proof (cases "b = CR_BYTE \<and> prefix [LF_BYTE] bs")
      case lf: True
      then obtain r where "bs = LF_BYTE # r" by (cases bs) auto
      then show ?thesis using lf by (simp add: rest_def sseByte_def)
    next
      case False
      then show ?thesis using sseBytes_afterCr [where bs = bs and x = x and st = s0 and a = True] True by (auto simp: rest_def)
    qed
    note step = this
    show ?thesis
      using True l IH step [of "sseAfterCr st"]
      by (auto simp: byte rest_def [symmetric] M_def withAfterCr_def case_prod_unfold Let_def
          split: option.splits)
  qed
qed (simp add: withAfterCr_def)


lemma withAfterCr_id: "a = sseAfterCr (fst r) \<Longrightarrow> withAfterCr a r = r"
  by (cases r) (simp add: withAfterCr_def)

lemma feed_scan:
  assumes "noBreak (ssePartial st)"
  shows "scanLines dec st1 [] (ssePartial st @ bs) =
    withAfterCr (sseAfterCr st1) (sseBytes dec (st1\<lparr>ssePartial := ssePartial st, sseAfterCr := False\<rparr>) bs)"
  using sseBytes_noBreak [OF assms] by (simp add: scanLines_sseBytes)

lemma feed_sseBytes:
  assumes "noBreak (ssePartial st)" "sseAfterCr st \<Longrightarrow> chunk \<noteq> [LF_BYTE]"
  shows "feed dec st chunk = sseBytes dec st chunk"
proof (cases "sseAfterCr st \<and> prefix [LF_BYTE] chunk")
  case True
  then obtain bs where bs: "chunk = LF_BYTE # bs" "bs \<noteq> []" using assms(2) by (cases chunk) auto
  have "feed dec st chunk = withAfterCr (last bs = CR_BYTE) (sseBytes dec (st\<lparr>sseAfterCr := False\<rparr>) bs)"
    using True bs feed_scan [OF assms(1)] by (simp add: feed_def)
  also have "\<dots> = sseBytes dec (st\<lparr>sseAfterCr := False\<rparr>) bs"
    using bs(2) by (intro withAfterCr_id) (simp add: sseBytes_last)
  also have "\<dots> = sseBytes dec st chunk" using True bs(1) by (simp add: sseByte_def)
  finally show ?thesis .
next
  case False
  let ?a = "if chunk = [] then sseAfterCr st else last chunk = CR_BYTE"
  have "feed dec st chunk = withAfterCr ?a (sseBytes dec (st\<lparr>sseAfterCr := False\<rparr>) chunk)"
    using False feed_scan [OF assms(1)] by (auto simp: feed_def Let_def)
  also have "\<dots> = withAfterCr ?a (sseBytes dec st chunk)"
  proof (cases "sseAfterCr st")
    case True
    then have "\<not> prefix [LF_BYTE] chunk" "st\<lparr>sseAfterCr := True\<rparr> = st" using False by simp_all
    then show ?thesis using sseBytes_afterCr [where st = st and bs = chunk and a = True and x = ?a] by simp
  next
    case no: False
    then have "st\<lparr>sseAfterCr := False\<rparr> = st" by simp
    then show ?thesis by simp
  qed
  also have "\<dots> = sseBytes dec st chunk" by (intro withAfterCr_id) (simp add: sseBytes_last)
  finally show ?thesis .
qed

lemma sseBytes_partial: "noBreak (ssePartial st) \<Longrightarrow> noBreak (ssePartial (fst (sseBytes dec st bs)))"
proof (induction bs arbitrary: st)
  case (Cons b bs)
  have "noBreak (ssePartial (fst (sseByte dec st b)))"
    using Cons.prems by (auto simp: sseByte_def noBreak_def case_prod_unfold Let_def)
  with Cons.IH show ?case by (simp add: case_prod_unfold Let_def)
qed simp

lemma feedAll_sseBytes:
  assumes "noBreak (ssePartial st)" "[LF_BYTE] \<notin> set chunks"
  shows "feedAll dec st chunks = sseBytes dec st (concat chunks)"
  using assms
proof (induction chunks arbitrary: st)
  case (Cons c cs)
  have "feed dec st c = sseBytes dec st c" using Cons.prems by (intro feed_sseBytes) auto
  moreover have "noBreak (ssePartial (fst (sseBytes dec st c)))" using Cons.prems by (intro sseBytes_partial)
  ultimately show ?case
    using Cons by (simp add: sseBytes_append case_prod_unfold Let_def)
qed simp

lemma scanLines_terminated:
  assumes "t \<in> {[LF_BYTE], [CR_BYTE], [CR_BYTE, LF_BYTE]}" "list_all noBreak ls"
  shows "scanLines dec st [] (concat (map (\<lambda>l. l @ t) ls)) =
    (let (st', ms) = sseLines dec st ls in (st'\<lparr>ssePartial := []\<rparr>, ms))"
  using assms(2)
proof (induction ls arbitrary: st)
  case (Cons l ls)
  define rest where "rest = concat (map (\<lambda>l. l @ t) ls)"
  have rest: "\<not> prefix [LF_BYTE] rest" if "t = [CR_BYTE]"
    using that Cons.prems by (cases ls) (auto simp: rest_def noBreak_def prefix_def append_eq_Cons_conv)
  have "scanLines dec st [] ((l @ t) @ rest) = scanLines dec st l (t @ rest)"
    using Cons.prems scanLines_noBreak [of l dec st "[]" "t @ rest"] by simp
  also have "\<dots> = (let (st', m) = sseLine st (dec l); (st'', ms) = scanLines dec st' [] rest
      in (st'', case m of None \<Rightarrow> ms | Some m \<Rightarrow> m # ms))"
    using assms(1) rest by auto
  finally show ?case
    using Cons by (simp add: rest_def case_prod_unfold Let_def split: option.split)
qed simp

lemma sseLines_frame:
  "sseLines dec (st\<lparr>sseAfterCr := a\<rparr>) ls = withAfterCr a (sseLines dec st ls)"
proof (induction ls arbitrary: st)
  case (Cons l ls)
  have "sseLine (st\<lparr>sseAfterCr := a\<rparr>) (dec l) = withAfterCr a (sseLine st (dec l))"
    by (simp add: sseLine_def sseDispatch_def withAfterCr_def)
  with Cons show ?case by (simp add: withAfterCr_def case_prod_unfold Let_def split: option.split)
qed (simp add: withAfterCr_def)

section \<open>Properties\<close>

text \<open>C37: the reader does not depend on how the network cuts the stream.  However the
  bytes are cut into chunks, as long as no chunk is a lone line feed, the
  reader ends in the state and with the messages of the byte-at-a-time
  reference on the whole stream; in particular a character or a carriage
  return and line feed pair may be cut in two.\<close>

theorem feedAll_chunk_independent:
  assumes "[LF_BYTE] \<notin> set chunks" "[LF_BYTE] \<notin> set chunks'" "concat chunks = concat chunks'"
  shows "feedAll dec newSseParser chunks = feedAll dec newSseParser chunks' \<and>
    feedAll dec newSseParser chunks = sseBytes dec newSseParser (concat chunks)"
  using assms feedAll_sseBytes [of newSseParser] by (simp add: newSseParser_def noBreak_def)

theorem feedAll_chunk_independent_witness:
  "feedAll (\<lambda>bs. bs) newSseParser [[100, 97], [116, 97, 58, 120, 13], [10, 13, 10]] =
   feedAll (\<lambda>bs. bs) newSseParser [[100, 97, 116, 97, 58, 120, 13, 10, 13, 10]]"
  using feedAll_chunk_independent [of "[[100, 97], [116, 97, 58, 120, 13], [10, 13, 10]]"
      "[[100, 97, 116, 97, 58, 120, 13, 10, 13, 10]]" "\<lambda>bs. bs"] by simp

text \<open>After a chunk that ends in a carriage return, every following chunk that is a
  lone line feed is dropped, not only the first.  A blank line that closes a
  message is lost that way.\<close>

theorem feed_lone_line_feeds_dropped:
  assumes "sseAfterCr st" "ssePartial st = []"
  shows "feedAll dec st (replicate n [LF_BYTE] @ chunks) = feedAll dec st chunks"
proof (induction n)
  case (Suc n)
  have "feed dec st [LF_BYTE] = (st, [])" using assms by (simp add: feed_def)
  with Suc show ?case by simp
qed simp

text \<open>The three line terminators are equivalent.  A stream of lines that end in a
  line feed, in a carriage return or in both, fed as one chunk, has the
  messages of its lines, whatever the terminator.\<close>

theorem feed_line_terminators:
  assumes "t \<in> {[LF_BYTE], [CR_BYTE], [CR_BYTE, LF_BYTE]}" "list_all noBreak ls"
  shows "snd (feed dec newSseParser (concat (map (\<lambda>l. l @ t) ls))) = snd (sseLines dec newSseParser ls)"
proof -
  define bs where "bs = concat (map (\<lambda>l. l @ t) ls)"
  have "feed dec newSseParser bs =
      scanLines dec (newSseParser\<lparr>sseAfterCr := bs \<noteq> [] \<and> last bs = CR_BYTE\<rparr>) [] bs"
    by (simp add: feed_def newSseParser_def)
  then show ?thesis
    unfolding bs_def scanLines_terminated [OF assms] sseLines_frame
    by (simp add: withAfterCr_def case_prod_unfold Let_def)
qed

end
