(* ===== verification/Dockerignore.thy ===== *)
theory Dockerignore
  imports Prelude
begin

text \<open>
  \<open>templates/dockerignore.ts\<close>: \<open>.dockerignore\<close> patterns and their matcher.  Text is
  a list of code points, as \<open>Array.from\<close> gives it.  Where the source walks an
  array with indices that only grow, the model walks its suffixes.  \<open>glob\<close> and
  \<open>pathGlob\<close> are the declarative meaning of a segment and of a pattern; the
  greedy matcher with one backtracking point and the reachable-positions
  matcher are shown equivalent to them.
\<close>

section \<open>Data\<close>

record CharClass =
  ranges :: "(nat \<times> nat) list"
  classNegated :: bool

datatype Token = Literal nat | WILDCARD_STAR | WILDCARD_ANY | Class CharClass

text \<open>\<open>None\<close> stands where the source has \<open>null\<close>: a \<open>**\<close> segment.\<close>

record Pattern =
  segments :: "Token list option list"
  patternNegated :: bool

abbreviation HASH :: nat where "HASH \<equiv> 35"
abbreviation BANG :: nat where "BANG \<equiv> 33"
abbreviation CARET :: nat where "CARET \<equiv> 94"
abbreviation ASTERISK :: nat where "ASTERISK \<equiv> 42"
abbreviation QUESTION :: nat where "QUESTION \<equiv> 63"
abbreviation BACKSLASH :: nat where "BACKSLASH \<equiv> 92"
abbreviation OPEN_BRACKET :: nat where "OPEN_BRACKET \<equiv> 91"
abbreviation CLOSE_BRACKET :: nat where "CLOSE_BRACKET \<equiv> 93"
abbreviation HYPHEN :: nat where "HYPHEN \<equiv> 45"
abbreviation NEWLINE :: nat where "NEWLINE \<equiv> 10"
abbreviation BOM :: nat where "BOM \<equiv> 65279"
abbreviation GLOBSTAR :: codepoints where "GLOBSTAR \<equiv> [ASTERISK, ASTERISK]"

text \<open>The white space of \<open>String.prototype.trim\<close>.\<close>

definition isJsSpace :: "nat \<Rightarrow> bool" where
  "isJsSpace c \<longleftrightarrow> 9 \<le> c \<and> c \<le> 13 \<or> c = 32 \<or> c = 160 \<or> c = 5760 \<or> 8192 \<le> c \<and> c \<le> 8202 \<or>
     c = 8232 \<or> c = 8233 \<or> c = 8239 \<or> c = 8287 \<or> c = 12288 \<or> c = BOM"

section \<open>Compilation of a pattern\<close>

definition cleanStep :: "codepoints list \<Rightarrow> codepoints \<Rightarrow> codepoints list" where
  "cleanStep segs segment =
     (if segment = [] \<or> segment = [DOT] then segs
      else if segment = [DOT, DOT] \<and> segs \<noteq> [] \<and> last segs \<noteq> [DOT, DOT] then butlast segs
      else segs @ [segment])"

definition cleanPattern :: "codepoints \<Rightarrow> codepoints" where
  "cleanPattern pattern = joinWith [SLASH] (foldl cleanStep [] (splitOn SLASH pattern))"

fun escapedChar :: "codepoints \<Rightarrow> nat \<times> codepoints" where
  "escapedChar [] = (0, [])"
| "escapedChar [c] = (c, [])"
| "escapedChar (c # d # cs) = (if c = BACKSLASH then (d, cs) else (c, d # cs))"

text \<open>One turn of the loop of \<open>readClass\<close>: a range and what follows it.\<close>

definition readRange :: "codepoints \<Rightarrow> (nat \<times> nat) \<times> codepoints" where
  "readRange cs =
     (let (low, afterLow) = escapedChar cs in
      case afterLow of
        d # e # es \<Rightarrow>
          if d = HYPHEN \<and> e \<noteq> CLOSE_BRACKET
          then let (high, afterHigh) = escapedChar (e # es) in ((low, high), afterHigh)
          else ((low, low), afterLow)
      | _ \<Rightarrow> ((low, low), afterLow))"

lemma escapedChar_shorter: "length (snd (escapedChar (c # cs))) \<le> length cs"
  by (cases "c # cs" rule: escapedChar.cases) auto

lemma readRange_shorter: "length (snd (readRange (c # cs))) \<le> length cs"
proof (cases "snd (escapedChar (c # cs))" rule: escapedChar.cases)
  case (3 d e es)
  then show ?thesis
    using escapedChar_shorter [of c cs] escapedChar_shorter [of e es]
    by (simp add: readRange_def case_prod_unfold Let_def)
qed (use escapedChar_shorter [of c cs] in \<open>simp_all add: readRange_def case_prod_unfold Let_def\<close>)

function readRanges :: "(nat \<times> nat) list \<Rightarrow> codepoints \<Rightarrow> ((nat \<times> nat) list \<times> codepoints) option" where
  "readRanges rs [] = None"
| "readRanges rs (c # cs) =
     (if c = CLOSE_BRACKET \<and> rs \<noteq> [] then Some (rs, cs)
      else let (r, rest) = readRange (c # cs) in readRanges (rs @ [r]) rest)"
  by pat_completeness auto
termination
  by (relation "measure (\<lambda>(rs, cs). length cs)")
    (simp, simp add: less_Suc_eq_le, metis readRange_shorter snd_conv)

text \<open>\<open>readClass\<close> on what follows the opening bracket.\<close>

definition readClass :: "codepoints \<Rightarrow> (CharClass \<times> codepoints) option" where
  "readClass cs =
     (let neg = (cs \<noteq> [] \<and> (hd cs = BANG \<or> hd cs = CARET)) in
      map_option (\<lambda>(rs, rest). (\<lparr>ranges = rs, classNegated = neg\<rparr>, rest))
        (readRanges [] (if neg then tl cs else cs)))"

text \<open>The token at the front of a segment, and what follows it.\<close>

definition readToken :: "codepoints \<Rightarrow> Token \<times> codepoints" where
  "readToken cs =
     (case (if hd cs = OPEN_BRACKET then readClass (tl cs) else None) of
        Some (class, rest) \<Rightarrow> (Class class, rest)
      | None \<Rightarrow>
          if hd cs = ASTERISK then (WILDCARD_STAR, tl cs)
          else if hd cs = QUESTION then (WILDCARD_ANY, tl cs)
          else let (literal, rest) = escapedChar cs in (Literal literal, rest))"

lemma readRanges_shorter: "readRanges rs cs = Some x \<Longrightarrow> length (snd x) \<le> length cs"
proof (induction rs cs arbitrary: x rule: readRanges.induct)
  case (2 rs c cs)
  show ?case
  proof (cases "c = CLOSE_BRACKET \<and> rs \<noteq> []")
    case False
    obtain r rest where r: "readRange (c # cs) = (r, rest)" by (cases "readRange (c # cs)")
    with False "2.prems" have "readRanges (rs @ [r]) rest = Some x" by (simp split: if_splits)
    from "2.IH" [OF False r [symmetric] refl this] show ?thesis
      using readRange_shorter [of c cs] r by simp
  qed (use "2.prems" in auto)
qed simp

lemma readToken_shorter: "length (snd (readToken (c # cs))) \<le> length cs"
proof (cases "if c = OPEN_BRACKET then readClass cs else None")
  case None
  then show ?thesis using escapedChar_shorter [of c cs]
    by (auto simp: readToken_def case_prod_unfold Let_def)
next
  case (Some x)
  then obtain cs' rs where "cs' = cs \<or> cs' = tl cs" "readRanges [] cs' = Some (rs, snd x)"
    by (cases x) (auto simp: readClass_def Let_def split: if_splits)
  then have "length (snd x) \<le> length cs" using readRanges_shorter by fastforce
  then show ?thesis using Some by (auto simp: readToken_def case_prod_unfold split: if_splits)
qed

function tokenizeFrom :: "Token list \<Rightarrow> codepoints \<Rightarrow> Token list" where
  "tokenizeFrom tokens [] = tokens"
| "tokenizeFrom tokens (c # cs) =
     (let (token, rest) = readToken (c # cs) in
      if token = WILDCARD_STAR \<and> tokens \<noteq> [] \<and> last tokens = WILDCARD_STAR then tokenizeFrom tokens rest
      else tokenizeFrom (tokens @ [token]) rest)"
  by pat_completeness auto
termination
  by (relation "measure (\<lambda>(ts, cs). length cs)")
    (simp, (simp add: less_Suc_eq_le, metis readToken_shorter snd_conv)+)

definition tokenize :: "codepoints \<Rightarrow> Token list" where
  "tokenize segment = tokenizeFrom [] segment"

section \<open>Matching\<close>

fun tokenAdmits :: "Token \<Rightarrow> nat \<Rightarrow> bool" where
  "tokenAdmits (Class class) point =
     (list_ex (\<lambda>(low, high). low \<le> point \<and> point \<le> high) (ranges class) \<noteq> classNegated class)"
| "tokenAdmits WILDCARD_ANY point = True"
| "tokenAdmits WILDCARD_STAR point = False"
| "tokenAdmits (Literal c) point = (c = point)"

text \<open>The loop of \<open>segmentMatches\<close>.  \<open>star\<close> holds the tokens after \<open>starToken\<close> and
  the name from \<open>starName\<close> on; \<open>None\<close> is \<open>starToken = -1\<close>.\<close>

function greedy :: "(Token list \<times> codepoints) option \<Rightarrow> Token list \<Rightarrow> codepoints \<Rightarrow> bool" where
  "greedy star tokens [] = list_all (\<lambda>t. t = WILDCARD_STAR) tokens"
| "greedy star tokens (c # cs) =
     (if tokens \<noteq> [] \<and> hd tokens = WILDCARD_STAR then greedy (Some (tl tokens, c # cs)) (tl tokens) (c # cs)
      else if tokens \<noteq> [] \<and> tokenAdmits (hd tokens) c then greedy star (tl tokens) cs
      else case star of
        Some (starTokens, s # starName) \<Rightarrow> greedy (Some (starTokens, starName)) starTokens starName
      | _ \<Rightarrow> False)"
  by pat_completeness auto
termination
  by (relation "inv_image (less_than <*lex*> less_than <*lex*> less_than)
      (\<lambda>(star, tokens, name).
        (max (length tokens) (case star of None \<Rightarrow> 0 | Some s \<Rightarrow> length (fst s)),
         (case star of None \<Rightarrow> 0 | Some s \<Rightarrow> length (snd s)), length name))")
    (auto simp: max_def neq_Nil_conv split: option.splits)

definition segmentMatches :: "Token list \<Rightarrow> codepoints \<Rightarrow> bool" where
  "segmentMatches tokens name = greedy None tokens name"

definition collapseStep :: "codepoints list \<Rightarrow> codepoints \<Rightarrow> codepoints list" where
  "collapseStep collapsed segment =
     (if segment = GLOBSTAR \<and> collapsed \<noteq> [] \<and> last collapsed = GLOBSTAR then collapsed
      else collapsed @ [segment])"

definition collapseGlobstars :: "codepoints list \<Rightarrow> codepoints list" where
  "collapseGlobstars segs = foldl collapseStep [] segs"

definition compileSegment :: "codepoints \<Rightarrow> Token list option" where
  "compileSegment segment = (if segment = GLOBSTAR then None else Some (tokenize segment))"

definition compile :: "codepoints \<Rightarrow> bool \<Rightarrow> Pattern" where
  "compile cleaned neg =
     \<lparr>segments = map compileSegment (collapseGlobstars (splitOn SLASH cleaned)), patternNegated = neg\<rparr>"

text \<open>\<open>None\<close> is \<open>Number.POSITIVE_INFINITY\<close>.\<close>

definition smallest :: "nat list \<Rightarrow> nat option" where
  "smallest xs = foldl (\<lambda>least v. case least of None \<Rightarrow> Some v | Some l \<Rightarrow> Some (min l v)) None xs"

text \<open>The body of the loop of \<open>matchEnds\<close>; a position is added once, so that the
  \<open>Set\<close> of the source is a list of distinct positions.\<close>

definition nextPositions :: "codepoints list \<Rightarrow> nat list \<Rightarrow> Token list option \<Rightarrow> bool \<Rightarrow> nat list" where
  "nextPositions path reachable seg isLast =
     (case seg of
        None \<Rightarrow> (case smallest reachable of None \<Rightarrow> []
                | Some least \<Rightarrow> [least + (if isLast then 1 else 0) ..< length path + 1])
      | Some tokens \<Rightarrow>
          map Suc (filter (\<lambda>position. position < length path \<and> segmentMatches tokens (path ! position)) reachable))"

fun matchEndsFrom :: "codepoints list \<Rightarrow> nat list \<Rightarrow> Token list option list \<Rightarrow> nat list" where
  "matchEndsFrom path reachable [] = reachable"
| "matchEndsFrom path reachable (seg # segs) =
     (let next = nextPositions path reachable seg (segs = [])
      in if next = [] then [] else matchEndsFrom path next segs)"

definition matchEnds :: "Pattern \<Rightarrow> codepoints list \<Rightarrow> nat list" where
  "matchEnds pattern path = matchEndsFrom path [0] (segments pattern)"

definition matchesOrParent :: "Pattern \<Rightarrow> codepoints list \<Rightarrow> bool" where
  "matchesOrParent pattern path = list_ex (\<lambda>e. 0 < e) (matchEnds pattern path)"

text \<open>\<open>DockerIgnore.fromText\<close>, one line at a time.\<close>

definition patternOfLine :: "codepoints \<Rightarrow> Pattern option" where
  "patternOfLine rawLine =
     (let line = trimBy isJsSpace rawLine in
      if line = [] \<or> prefix [HASH] line then None
      else let neg = prefix [BANG] line;
               cleaned = cleanPattern (trimBy isJsSpace (if neg then tl line else line))
           in if cleaned = [] then None else Some (compile cleaned neg))"

definition fromText :: "codepoints \<Rightarrow> Pattern list" where
  "fromText txt =
     (let body = (if prefix [BOM] txt then tl txt else txt)
      in List.map_filter patternOfLine (splitOn NEWLINE body))"

definition excludeStep :: "codepoints list \<Rightarrow> bool \<Rightarrow> Pattern \<Rightarrow> bool" where
  "excludeStep path excluded pattern =
     (if patternNegated pattern \<noteq> excluded then excluded
      else if matchesOrParent pattern path then \<not> patternNegated pattern else excluded)"

definition dockerMatches :: "Pattern list \<Rightarrow> codepoints \<Rightarrow> bool" where
  "dockerMatches patterns relpath =
     foldl (excludeStep (filter (\<lambda>segment. segment \<noteq> []) (splitOn SLASH relpath))) False patterns"

section \<open>What patterns mean\<close>

text \<open>A segment pattern against a name, and a pattern against a whole path.\<close>

fun glob :: "Token list \<Rightarrow> codepoints \<Rightarrow> bool" where
  "glob [] name = (name = [])"
| "glob (WILDCARD_STAR # ts) name = (\<exists>k \<le> length name. glob ts (drop k name))"
| "glob (t # ts) name = (case name of [] \<Rightarrow> False | c # cs \<Rightarrow> tokenAdmits t c \<and> glob ts cs)"

fun pathGlob :: "Token list option list \<Rightarrow> codepoints list \<Rightarrow> bool" where
  "pathGlob [] path = (path = [])"
| "pathGlob (Some ts # segs) path = (case path of [] \<Rightarrow> False | s # path' \<Rightarrow> glob ts s \<and> pathGlob segs path')"
| "pathGlob (None # segs) path =
     (if segs = [] then path \<noteq> [] else \<exists>k \<le> length path. pathGlob segs (drop k path))"

text \<open>A pattern applies to a path when it matches the path or a directory above it.\<close>

definition applies :: "Pattern \<Rightarrow> codepoints list \<Rightarrow> bool" where
  "applies pattern path \<longleftrightarrow> (\<exists>n. 0 < n \<and> n \<le> length path \<and> pathGlob (segments pattern) (take n path))"

text \<open>The segments of a cleaned pattern: parent steps, then proper names.\<close>

definition canonicalSegments :: "codepoints list \<Rightarrow> bool" where
  "canonicalSegments segs \<longleftrightarrow> (\<exists>n rest. segs = replicate n [DOT, DOT] @ rest \<and> list_all plainSegment rest)"

text \<open>The other positions at which the last star may still stop, and what a state
  of the greedy loop satisfies: between the last star and the current token
  there is no star, and as many characters were consumed as tokens.\<close>

fun alternatives :: "(Token list \<times> codepoints) option \<Rightarrow> bool" where
  "alternatives None = False"
| "alternatives (Some (st, sn)) = (\<exists>k. 0 < k \<and> k \<le> length sn \<and> glob st (drop k sn))"

fun greedyInv :: "(Token list \<times> codepoints) option \<Rightarrow> Token list \<Rightarrow> codepoints \<Rightarrow> bool" where
  "greedyInv None tokens name = True"
| "greedyInv (Some (st, sn)) tokens name =
     (\<exists>pre m. st = pre @ tokens \<and> WILDCARD_STAR \<notin> set pre \<and> sn = m @ name \<and> length m = length pre)"

section \<open>The greedy matcher\<close>

lemma glob_star_free:
  "WILDCARD_STAR \<notin> set pre \<Longrightarrow> glob (pre @ ts) s \<Longrightarrow> length pre \<le> length s \<and> glob ts (drop (length pre) s)"
proof (induction pre arbitrary: s)
  case (Cons t pre)
  then show ?case by (cases t; cases s) auto
qed simp

lemma glob_star_suffix: "glob (WILDCARD_STAR # ts) (drop k s) \<Longrightarrow> glob (WILDCARD_STAR # ts) s"
proof -
  assume "glob (WILDCARD_STAR # ts) (drop k s)"
  then obtain j where j: "j \<le> length s - k" "glob ts (drop (j + k) s)" by auto
  show ?thesis
  proof (cases "j + k \<le> length s")
    case True
    with j(2) show ?thesis by auto
  next
    case False
    with j(2) have "glob ts (drop (length s) s)" by simp
    then show ?thesis by auto
  qed
qed

lemma glob_only_stars: "glob ts [] = list_all (\<lambda>t. t = WILDCARD_STAR) ts"
proof (induction ts)
  case (Cons t ts)
  then show ?case by (cases t) auto
qed simp

lemma glob_Cons:
  "t \<noteq> WILDCARD_STAR \<Longrightarrow> glob (t # ts) (c # cs) = (tokenAdmits t c \<and> glob ts cs)"
  by (cases t) auto

lemma alternatives_no_room:
  assumes "greedyInv star tokens []" shows "\<not> alternatives star"
proof (cases star)
  case (Some p)
  then obtain st sn where p: "star = Some (st, sn)" by (cases p) auto
  with assms obtain pre where "st = pre @ tokens" "WILDCARD_STAR \<notin> set pre" "length sn = length pre" by auto
  then show ?thesis using p glob_star_free [of pre tokens] by fastforce
qed simp

lemma alternatives_star:
  assumes "greedyInv star (WILDCARD_STAR # ts) name" "alternatives star"
  shows "glob (WILDCARD_STAR # ts) name"
proof -
  from assms obtain st sn k where star: "star = Some (st, sn)"
    and k: "0 < k" "k \<le> length sn" "glob st (drop k sn)" by (cases star rule: alternatives.cases) auto
  with assms(1) obtain pre m where pre: "st = pre @ WILDCARD_STAR # ts" "WILDCARD_STAR \<notin> set pre"
    "sn = m @ name" "length m = length pre" by auto
  from glob_star_free [OF pre(2)] k(3) pre(1)
  have "glob (WILDCARD_STAR # ts) (drop (length pre) (drop k sn))" by blast
  moreover have "drop (length pre) (drop k sn) = drop k name"
  proof -
    have "drop (length pre) (drop k sn) = drop k (drop (length pre) sn)" by (simp add: add.commute)
    then show ?thesis using pre(3,4) by simp
  qed
  ultimately have "glob (WILDCARD_STAR # ts) (drop k name)" by (simp only:)
  then show ?thesis by (rule glob_star_suffix)
qed

lemma alternatives_step:
  "alternatives (Some (st, c # sn)) \<longleftrightarrow> glob st sn \<or> alternatives (Some (st, sn))"
proof -
  have "(\<exists>k. 0 < k \<and> k \<le> Suc (length sn) \<and> glob st (drop k (c # sn))) \<longleftrightarrow>
      (\<exists>k. k \<le> length sn \<and> glob st (drop k sn))"
    by (metis (no_types, opaque_lifting) Suc_le_mono Suc_pred drop_Suc_Cons zero_less_Suc)
  also have "\<dots> \<longleftrightarrow> glob st sn \<or> (\<exists>k. 0 < k \<and> k \<le> length sn \<and> glob st (drop k sn))"
    by (metis drop0 neq0_conv zero_le)
  finally show ?thesis by simp
qed

lemma greedy_correct:
  "greedyInv star tokens name \<Longrightarrow> greedy star tokens name \<longleftrightarrow> glob tokens name \<or> alternatives star"
proof (induction star tokens name rule: greedy.induct)
  case (1 star tokens)
  then show ?case using alternatives_no_room by (auto simp: glob_only_stars)
next
  case (2 star tokens c cs)
  consider (star) ts where "tokens = WILDCARD_STAR # ts"
    | (admits) t ts where "tokens = t # ts" "t \<noteq> WILDCARD_STAR" "tokenAdmits t c"
    | (stuck) "\<not> (tokens \<noteq> [] \<and> hd tokens = WILDCARD_STAR)" "\<not> (tokens \<noteq> [] \<and> tokenAdmits (hd tokens) c)"
    by (cases tokens) auto
  then show ?case
  proof cases
    case (star ts)
    have "glob tokens (c # cs) \<longleftrightarrow> glob ts (c # cs) \<or> alternatives (Some (ts, c # cs))"
      unfolding star glob.simps alternatives.simps by (metis drop0 gr0I zero_le)
    then show ?thesis
      using "2.IH"(1) "2.prems" star alternatives_star [of star ts "c # cs"] by auto
  next
    case (admits t ts)
    have "greedyInv star ts cs"
    proof (cases star rule: alternatives.cases)
      case (2 st sn)
      with "2.prems" admits obtain pre m where "st = (pre @ [t]) @ ts" "WILDCARD_STAR \<notin> set (pre @ [t])"
        "sn = (m @ [c]) @ cs" "length (m @ [c]) = length (pre @ [t])" by auto
      then show ?thesis unfolding 2 greedyInv.simps by blast
    qed simp
    with "2.IH"(2) admits show ?thesis by (simp add: glob_Cons)
  next
    case stuck
    then have no: "\<not> glob tokens (c # cs)" by (cases tokens) (auto simp: glob_Cons)
    show ?thesis
    proof (cases star rule: alternatives.cases)
      case (2 st sn)
      with "2.prems" obtain s sn' where sn: "sn = s # sn'" by (cases sn) auto
      have "greedyInv (Some (st, sn')) st sn'" by (auto intro: exI [of _ "[]"])
      from "2.IH"(3) [OF stuck _ _ _ this] 2 sn
      have "greedy (Some (st, sn')) st sn' \<longleftrightarrow> glob st sn' \<or> alternatives (Some (st, sn'))" by blast
      moreover have "greedy star tokens (c # cs) = greedy (Some (st, sn')) st sn'"
        unfolding greedy.simps(2) [of star] using stuck 2 sn by (simp only: if_False option.case prod.case list.case)
      ultimately have "greedy star tokens (c # cs) \<longleftrightarrow> glob st sn' \<or> alternatives (Some (st, sn'))"
        by (simp only:)
      then show ?thesis using no alternatives_step [of st s sn'] unfolding 2 sn by blast
    next
      case 1
      have "\<not> greedy star tokens (c # cs)"
        unfolding greedy.simps(2) [of star] using stuck 1 by (simp only: if_False option.case) simp
      then show ?thesis using no 1 by simp
    qed
  qed
qed


lemma segmentMatches_glob: "segmentMatches tokens name \<longleftrightarrow> glob tokens name"
  using greedy_correct [of None tokens name] by (simp add: segmentMatches_def)

section \<open>The reachable positions\<close>

lemma smallest_Min: "xs \<noteq> [] \<Longrightarrow> smallest xs = Some (Min (set xs))"
proof -
  have "foldl (\<lambda>least v. case least of None \<Rightarrow> Some v | Some l \<Rightarrow> Some (min l v)) (Some a) ys =
      Some (Min (insert a (set ys)))" for a :: nat and ys
  proof (induction ys arbitrary: a)
    case (Cons y ys)
    have "Min (insert (min a y) (set ys)) = Min (insert a (insert y (set ys)))"
      by (cases "ys = []") (simp_all add: min.assoc)
    with Cons show ?case by simp
  qed simp
  then show "xs \<noteq> [] \<Longrightarrow> ?thesis" by (cases xs) (simp_all add: smallest_def)
qed

lemma nextPositions_iff:
  "q \<in> set (nextPositions path R seg isLast) \<longleftrightarrow>
   (\<exists>r \<in> set R. r \<le> q \<and> q \<le> length path \<and>
      (case seg of None \<Rightarrow> isLast \<longrightarrow> r < q | Some ts \<Rightarrow> q = Suc r \<and> glob ts (path ! r)))"
proof (cases seg)
  case None
  show ?thesis
  proof (cases "R = []")
    case False
    have "Min (set R) + (if isLast then 1 else 0) \<le> q \<longleftrightarrow> (\<exists>r \<in> set R. r \<le> q \<and> (isLast \<longrightarrow> r < q))"
      using False Min_le_iff [of "set R" q] Min_less_iff [of "set R" q] by (auto simp: Suc_le_eq)
    then show ?thesis using None False by (auto simp: nextPositions_def smallest_Min)
  qed (use None in \<open>simp add: nextPositions_def smallest_def\<close>)
next
  case (Some ts)
  then show ?thesis by (auto simp: nextPositions_def segmentMatches_glob)
qed

lemma pathGlob_from:
  assumes "r \<le> length path"
  shows "(\<exists>q. r \<le> q \<and> q \<le> n \<and> n \<le> length path \<and>
      (case seg of None \<Rightarrow> segs = [] \<longrightarrow> r < q | Some ts \<Rightarrow> q = Suc r \<and> glob ts (path ! r)) \<and>
      pathGlob segs (take (n - q) (drop q path))) \<longleftrightarrow>
    r \<le> n \<and> n \<le> length path \<and> pathGlob (seg # segs) (take (n - r) (drop r path))"
proof (cases seg)
  case (Some ts)
  have "take (n - r) (drop r path) = path ! r # take (n - Suc r) (drop (Suc r) path)"
    if "r < n" "n \<le> length path"
  proof -
    have "drop r path = path ! r # drop (Suc r) path" using that by (simp add: Cons_nth_drop_Suc)
    moreover have "n - r = Suc (n - Suc r)" using that by simp
    ultimately show ?thesis by (simp only: take_Suc_Cons)
  qed
  then show ?thesis using Some assms by (cases "r < n") (auto simp: Suc_le_eq)
next
  case None
  have drop: "drop k (take (n - r) (drop r path)) = take (n - (r + k)) (drop (r + k) path)" for k
    by (simp add: drop_take add.commute diff_diff_left)
  show ?thesis
  proof (cases "segs = []")
    case True
    then show ?thesis using None assms by auto
  next
    case False
    have "(\<exists>k \<le> length (take (n - r) (drop r path)). pathGlob segs (drop k (take (n - r) (drop r path)))) \<longleftrightarrow>
        (\<exists>q. r \<le> q \<and> q \<le> n \<and> pathGlob segs (take (n - q) (drop q path)))" if "r \<le> n" "n \<le> length path"
    proof -
      have "length (take (n - r) (drop r path)) = n - r" using that by simp
      moreover have "(\<exists>k \<le> n - r. P (r + k)) \<longleftrightarrow> (\<exists>q. r \<le> q \<and> q \<le> n \<and> P q)" for P
        using that by (metis le_add1 le_add_diff_inverse le_diff_conv2 add.commute)
      ultimately show ?thesis unfolding drop by simp
    qed
    then show ?thesis
      using False unfolding None pathGlob.simps by (simp only: if_False option.case simp_thms) (blast intro: le_trans)
  qed
qed

lemma matchEndsFrom_iff:
  "\<forall>r \<in> set R. r \<le> length path \<Longrightarrow> n \<in> set (matchEndsFrom path R segs) \<longleftrightarrow>
   (\<exists>r \<in> set R. r \<le> n \<and> n \<le> length path \<and> pathGlob segs (take (n - r) (drop r path)))"
proof (induction segs arbitrary: R)
  case Nil
  then show ?case by auto
next
  case (Cons seg segs)
  define nxt where "nxt = nextPositions path R seg (segs = [])"
  have "\<forall>q \<in> set nxt. q \<le> length path" by (auto simp: nxt_def nextPositions_iff)
  from Cons.IH [OF this] have "n \<in> set (matchEndsFrom path R (seg # segs)) \<longleftrightarrow>
      (\<exists>q \<in> set nxt. q \<le> n \<and> n \<le> length path \<and> pathGlob segs (take (n - q) (drop q path)))"
    by (simp add: nxt_def [symmetric])
  also have "\<dots> \<longleftrightarrow> (\<exists>r \<in> set R. \<exists>q. r \<le> q \<and> q \<le> n \<and> n \<le> length path \<and>
      (case seg of None \<Rightarrow> segs = [] \<longrightarrow> r < q | Some ts \<Rightarrow> q = Suc r \<and> glob ts (path ! r)) \<and>
      pathGlob segs (take (n - q) (drop q path)))"
    unfolding nxt_def Bex_def nextPositions_iff by (blast intro: le_trans)
  also have "\<dots> \<longleftrightarrow> (\<exists>r \<in> set R. r \<le> n \<and> n \<le> length path \<and> pathGlob (seg # segs) (take (n - r) (drop r path)))"
    using Cons.prems pathGlob_from by (intro bex_cong) blast+
  finally show ?case .
qed

lemma matchEnds_iff:
  "n \<in> set (matchEnds pattern path) \<longleftrightarrow> n \<le> length path \<and> pathGlob (segments pattern) (take n path)"
  using matchEndsFrom_iff [of "[0]" path n "segments pattern"] by (simp add: matchEnds_def)

lemma matchesOrParent_iff:
  "matchesOrParent pattern path \<longleftrightarrow>
   (\<exists>n. 0 < n \<and> n \<le> length path \<and> pathGlob (segments pattern) (take n path))"
  by (auto simp: matchesOrParent_def list_ex_iff matchEnds_iff)


section \<open>Cleaning and compiling\<close>

lemma cleanStep_canonical:
  assumes "canonicalSegments segs" "SLASH \<notin> set segment"
  shows "canonicalSegments (cleanStep segs segment)"
proof -
  from assms(1) obtain n rest where segs: "segs = replicate n [DOT, DOT] @ rest" "list_all plainSegment rest"
    by (auto simp: canonicalSegments_def)
  consider (skip) "segment = [] \<or> segment = [DOT]" | (up) "segment = [DOT, DOT]" | (plain) "plainSegment segment"
    using assms(2) by (auto simp: plainSegment_def)
  then show ?thesis
  proof cases
    case skip
    then show ?thesis using assms(1) by (auto simp: cleanStep_def)
  next
    case up
    show ?thesis
    proof (cases rest rule: rev_cases)
      case Nil
      then have "cleanStep segs segment = replicate (Suc n) [DOT, DOT] @ []"
        using up segs(1) by (cases n) (auto simp: cleanStep_def replicate_append_same last_replicate)
      then show ?thesis unfolding canonicalSegments_def by (metis list.pred_inject(1))
    next
      case (snoc ys y)
      then have "y \<noteq> [DOT, DOT]" using segs(2) by (simp add: plainSegment_def)
      with snoc have "cleanStep segs segment = replicate n [DOT, DOT] @ ys"
        using up segs(1) by (simp add: cleanStep_def butlast_append)
      then show ?thesis using segs(2) snoc by (auto simp: canonicalSegments_def)
    qed
  next
    case plain
    then have "cleanStep segs segment = replicate n [DOT, DOT] @ (rest @ [segment])"
      using segs(1) by (auto simp: cleanStep_def plainSegment_def)
    moreover have "list_all plainSegment (rest @ [segment])" using segs(2) plain by simp
    ultimately show ?thesis unfolding canonicalSegments_def by blast
  qed
qed

lemma foldl_cleanStep_canonical:
  "canonicalSegments acc \<Longrightarrow> \<forall>s \<in> set segs. SLASH \<notin> set s \<Longrightarrow> canonicalSegments (foldl cleanStep acc segs)"
  by (induction segs arbitrary: acc) (auto simp: cleanStep_canonical)

lemma foldl_cleanStep_fixed:
  assumes "canonicalSegments segs"
  shows "foldl cleanStep [] segs = segs"
proof -
  from assms obtain n rest where segs: "segs = replicate n [DOT, DOT] @ rest" "list_all plainSegment rest"
    by (auto simp: canonicalSegments_def)
  have "foldl cleanStep (replicate m [DOT, DOT]) (replicate n [DOT, DOT]) = replicate (m + n) [DOT, DOT]" for m
  proof (induction n arbitrary: m)
    case (Suc n)
    have "cleanStep (replicate m [DOT, DOT]) [DOT, DOT] = replicate (Suc m) [DOT, DOT]"
      by (cases m) (simp_all add: cleanStep_def replicate_append_same last_replicate)
    with Suc [of "Suc m"] show ?case by simp
  qed simp
  from this [of 0] have "foldl cleanStep [] (replicate n [DOT, DOT]) = replicate n [DOT, DOT]" by simp
  moreover have "foldl cleanStep acc rest = acc @ rest" for acc
    using segs(2) by (induction rest arbitrary: acc) (auto simp: cleanStep_def plainSegment_def)
  ultimately show ?thesis using segs(1) by simp
qed

lemma cleanPattern_segments:
  obtains segs where "canonicalSegments segs" "cleanPattern pattern = joinWith [SLASH] segs"
proof
  have "canonicalSegments []" by (auto simp: canonicalSegments_def)
  then show "canonicalSegments (foldl cleanStep [] (splitOn SLASH pattern))"
    by (rule foldl_cleanStep_canonical) (auto dest: splitOn_elems)
qed (simp add: cleanPattern_def)

lemma cleanPattern_fixed:
  assumes "canonicalSegments segs"
  shows "cleanPattern (joinWith [SLASH] segs) = joinWith [SLASH] segs"
proof (cases "segs = []")
  case True
  then show ?thesis by (simp add: cleanPattern_def cleanStep_def)
next
  case False
  from assms obtain n rest where segs: "segs = replicate n [DOT, DOT] @ rest" "list_all plainSegment rest"
    by (auto simp: canonicalSegments_def)
  then have "s = [DOT, DOT] \<or> plainSegment s" if "s \<in> set segs" for s
    using that by (auto simp: list_all_iff split: if_splits)
  then have "\<forall>s \<in> set segs. SLASH \<notin> set s" by (fastforce simp: plainSegment_def)
  then have "splitOn SLASH (joinWith [SLASH] segs) = segs" using False by (intro splitOn_joinWith) auto
  then show ?thesis using foldl_cleanStep_fixed [OF assms] by (simp add: cleanPattern_def)
qed

lemma pathGlob_globstars: "pathGlob (None # None # ys) path = pathGlob (None # ys) path"
proof (cases "ys = []")
  case True
  then show ?thesis by (auto intro: exI [of _ 0])
next
  case False
  have "(\<exists>k \<le> length path. \<exists>j \<le> length (drop k path). pathGlob ys (drop j (drop k path))) \<longleftrightarrow>
      (\<exists>k \<le> length path. pathGlob ys (drop k path))" (is "?l \<longleftrightarrow> ?r")
  proof
    assume ?l
    then obtain k j where "k \<le> length path" "j \<le> length path - k" "pathGlob ys (drop (j + k) path)" by auto
    then show ?r by (intro exI [of _ "j + k"]) simp
  next
    assume ?r
    then show ?l by (metis drop0 zero_le)
  qed
  then show ?thesis using False by simp
qed

lemma pathGlob_globstars_inside: "pathGlob (xs @ None # None # ys) path = pathGlob (xs @ None # ys) path"
proof (induction xs arbitrary: path)
  case Nil
  show ?case by (simp only: append_Nil pathGlob_globstars)
next
  case (Cons x xs)
  then show ?case by (cases x) (simp_all split: list.split)
qed

lemma pathGlob_collapse:
  "pathGlob (map compileSegment (foldl collapseStep acc segs)) path =
   pathGlob (map compileSegment (acc @ segs)) path"
proof (induction segs arbitrary: acc)
  case (Cons seg segs)
  show ?case
  proof (cases "seg = GLOBSTAR \<and> acc \<noteq> [] \<and> last acc = GLOBSTAR")
    case True
    then obtain acc' where acc: "acc = acc' @ [GLOBSTAR]" by (metis append_butlast_last_id)
    have "pathGlob (map compileSegment (acc @ seg # segs)) path = pathGlob (map compileSegment (acc @ segs)) path"
      using True pathGlob_globstars_inside [of "map compileSegment acc'" "map compileSegment segs" path]
      by (simp add: acc compileSegment_def)
    then show ?thesis using Cons True by (simp add: collapseStep_def)
  next
    case False
    then show ?thesis using Cons [of "acc @ [seg]"] by (simp only: collapseStep_def foldl.simps if_False) simp
  qed
qed simp

lemma excluded_last:
  "foldl (excludeStep path) False patterns =
   (let ms = filter (\<lambda>p. applies p path) patterns in ms \<noteq> [] \<and> \<not> patternNegated (last ms))"
proof (induction patterns rule: rev_induct)
  case (snoc p ps)
  then show ?case by (auto simp: excludeStep_def matchesOrParent_iff applies_def [symmetric])
qed simp

lemma applies_below:
  assumes "applies p path" shows "applies p (path @ deeper)"
proof -
  from assms obtain n where "0 < n" "n \<le> length path" "pathGlob (segments p) (take n path)"
    by (auto simp: applies_def)
  then show ?thesis unfolding applies_def by (intro exI [of _ n]) simp
qed

section \<open>Properties\<close>

text \<open>C32: the greedy matcher of one segment, which keeps a single backtracking point,
  accepts exactly the names that the glob denotes: every earlier star can be
  forgotten.\<close>

theorem segmentMatches_correct: "segmentMatches tokens name \<longleftrightarrow> glob tokens name"
  by (rule segmentMatches_glob)

text \<open>C33: the positions that a pattern reaches are the lengths of the prefixes of the path
  that the pattern denotes, where \<open>**\<close> stands for any number of segments and for
  at least one at the end.  A position only depends on the prefix before it.\<close>

theorem matchEnds_correct:
  "n \<in> set (matchEnds pattern path) \<longleftrightarrow> n \<le> length path \<and> pathGlob (segments pattern) (take n path)"
  by (rule matchEnds_iff)

text \<open>The last pattern that matches the path or a directory above it decides, and
  without one the path is kept, although the loop skips the patterns that
  could not change the verdict.\<close>

theorem dockerMatches_last_wins:
  "dockerMatches patterns relpath =
   (let ms = filter (\<lambda>p. applies p (filter (\<lambda>s. s \<noteq> []) (splitOn SLASH relpath))) patterns
    in ms \<noteq> [] \<and> \<not> patternNegated (last ms))"
  unfolding dockerMatches_def by (rule excluded_last)

text \<open>Collapsing runs of \<open>**\<close> does not change what a pattern matches.\<close>

theorem collapseGlobstars_equivalent:
  "pathGlob (map compileSegment (collapseGlobstars segs)) path = pathGlob (map compileSegment segs) path"
  unfolding collapseGlobstars_def pathGlob_collapse by simp

text \<open>A cleaned pattern has no empty and no \<open>.\<close> segment and keeps \<open>..\<close> only in front,
  and cleaning it again changes nothing.\<close>

theorem cleanPattern_canonical:
  "(\<exists>segs. canonicalSegments segs \<and> cleanPattern pattern = joinWith [SLASH] segs) \<and>
   cleanPattern (cleanPattern pattern) = cleanPattern pattern"
proof -
  obtain segs where "canonicalSegments segs" "cleanPattern pattern = joinWith [SLASH] segs"
    by (rule cleanPattern_segments)
  then show ?thesis using cleanPattern_fixed by auto
qed

text \<open>With no negated pattern, whatever is below an excluded directory is excluded.\<close>

theorem dockerMatches_below:
  assumes "\<forall>p \<in> set patterns. \<not> patternNegated p" "dockerMatches patterns dir"
  shows "dockerMatches patterns (dir @ SLASH # relpath)"
proof -
  let ?path = "\<lambda>s. filter (\<lambda>s. s \<noteq> []) (splitOn SLASH s)"
  have split: "splitOn SLASH (x @ SLASH # y) = splitOn SLASH x @ splitOn SLASH y" for x y :: codepoints
    by (induction x) auto
  from assms(2) obtain p where "p \<in> set patterns" "applies p (?path dir)"
    by (auto simp: dockerMatches_def excluded_last Let_def filter_empty_conv)
  then have "p \<in> set (filter (\<lambda>p. applies p (?path (dir @ SLASH # relpath))) patterns)"
    using applies_below by (simp add: split)
  then have ne: "filter (\<lambda>p. applies p (?path (dir @ SLASH # relpath))) patterns \<noteq> []" by force
  from last_in_set [OF this] assms(1) show ?thesis
    using ne by (auto simp: dockerMatches_def excluded_last Let_def)
qed

end
