(* ===== verification/Mount_Path.thy ===== *)
theory Mount_Path
  imports Prelude
begin

text \<open>
  \<open>mount-path.ts\<close>: the rule that mount points and volumes share.  \<open>mountable\<close> and
  \<open>disjointPaths\<close> say on path segments what the source checks on strings; the
  validation is shown to accept exactly that.
\<close>

section \<open>The validation\<close>

datatype mount_error = TooManyMounts | NotAbsolute | NotCanonical | OutsideRoots | Overlapping

definition MAX_MOUNTS :: nat where "MAX_MOUNTS = 4"

definition ALLOWED_ROOTS :: "codepoints list" where
  "ALLOWED_ROOTS = [units ''/mnt/'', units ''/home/user/'']"

definition normalizeStep :: "codepoints list \<Rightarrow> codepoints \<Rightarrow> codepoints list" where
  "normalizeStep segs segment =
     (if segment = [] \<or> segment = [DOT] then segs
      else if segment = [DOT, DOT] then butlast segs
      else segs @ [segment])"

definition normalize :: "codepoints \<Rightarrow> codepoints" where
  "normalize path = SLASH # joinWith [SLASH] (foldl normalizeStep [] (splitOn SLASH path))"

definition validateOne :: "codepoints \<Rightarrow> mount_error + unit" where
  "validateOne path =
     andThen (throwUnless (prefix [SLASH] path) NotAbsolute) (\<lambda>_.
     andThen (throwUnless (normalize path = path) NotCanonical) (\<lambda>_.
     throwUnless (list_ex (\<lambda>root. prefix root path \<and> path \<noteq> butlast root) ALLOWED_ROOTS) OutsideRoots))"

definition overlaps :: "codepoints \<Rightarrow> codepoints \<Rightarrow> bool" where
  "overlaps first second \<longleftrightarrow> first = second \<or> prefix (second @ [SLASH]) (first @ [SLASH]) \<or>
     prefix (first @ [SLASH]) (second @ [SLASH])"

fun validateFrom :: "codepoints list \<Rightarrow> codepoints list \<Rightarrow> mount_error + codepoints list" where
  "validateFrom validated [] = Inr validated"
| "validateFrom validated (path # paths) =
     andThen (validateOne path) (\<lambda>_.
     andThen (throwUnless (\<not> list_ex (overlaps path) validated) Overlapping) (\<lambda>_.
     validateFrom (validated @ [path]) paths))"

definition validateMountPaths :: "codepoints list \<Rightarrow> mount_error + codepoints list" where
  "validateMountPaths paths =
     andThen (throwUnless (length paths \<le> MAX_MOUNTS) TooManyMounts) (\<lambda>_.
     andThen (validateFrom [] paths) (\<lambda>_. Inr paths))"

section \<open>The rule on segments\<close>

definition absolute :: "codepoints list \<Rightarrow> codepoints" where
  "absolute segs = SLASH # joinWith [SLASH] segs"

text \<open>Strictly below \<open>/mnt\<close> or \<open>/home/user\<close>.\<close>

definition mountable :: "codepoints list \<Rightarrow> bool" where
  "mountable segs \<longleftrightarrow> list_all plainSegment segs \<and>
     (strict_prefix [units ''mnt''] segs \<or> strict_prefix [units ''home'', units ''user''] segs)"

section \<open>Lemmas\<close>

lemma normalize_plain: "list_all plainSegment (foldl normalizeStep [] (splitOn SLASH path))"
proof -
  have "list_all plainSegment (foldl normalizeStep acc segs)"
    if "list_all plainSegment acc" "\<forall>s \<in> set segs. SLASH \<notin> set s" for acc segs
    using that
  proof (induction segs arbitrary: acc)
    case (Cons s segs)
    have "list_all plainSegment (normalizeStep acc s)"
      using Cons.prems by (auto simp: normalizeStep_def plainSegment_def list_all_iff dest: in_set_butlastD)
    with Cons show ?case by simp
  qed simp
  from this [of "[]"] show ?thesis by (auto dest: splitOn_elems)
qed

lemma foldl_normalize_fixed:
  "list_all plainSegment segs \<Longrightarrow> foldl normalizeStep acc segs = acc @ segs"
  by (induction segs arbitrary: acc) (auto simp: normalizeStep_def plainSegment_def)

lemma split_absolute:
  assumes "list_all plainSegment segs"
  shows "splitOn SLASH (absolute segs) = [] # (if segs = [] then [[]] else segs)"
  using assms splitOn_joinWith [of segs SLASH]
  by (auto simp: absolute_def list_all_iff plainSegment_def)

lemma normalize_absolute:
  assumes "list_all plainSegment segs"
  shows "normalize (absolute segs) = absolute segs"
  using foldl_normalize_fixed [OF assms, of "[]"] split_absolute [OF assms]
  by (auto simp: normalize_def absolute_def normalizeStep_def)

lemma normalize_fixed_iff:
  "normalize path = path \<longleftrightarrow> (\<exists>segs. list_all plainSegment segs \<and> path = absolute segs)"
  using normalize_plain normalize_absolute unfolding normalize_def absolute_def by metis

lemma absolute_inj:
  assumes "list_all plainSegment xs" "list_all plainSegment ys" "absolute xs = absolute ys"
  shows "xs = ys"
proof -
  have "(if xs = [] then [[]] else xs) = (if ys = [] then [[]] else ys)"
    using split_absolute [OF assms(1)] split_absolute [OF assms(2)] assms(3) by simp
  then show ?thesis using assms(1,2) by (auto simp: plainSegment_def split: if_splits)
qed

lemma plain_no_slash: "list_all plainSegment segs \<Longrightarrow> \<forall>s \<in> set segs. SLASH \<notin> set s"
  by (auto simp: list_all_iff plainSegment_def)

lemma root_prefix:
  assumes "list_all plainSegment segs" "root \<noteq> []" "\<forall>s \<in> set root. SLASH \<notin> set s"
  shows "prefix (absolute root @ [SLASH]) (absolute segs) \<longleftrightarrow> strict_prefix root segs"
  using prefix_joinWith_strict [OF assms(2,3) plain_no_slash [OF assms(1)]] by (simp add: absolute_def)

lemma roots_absolute:
  "ALLOWED_ROOTS = map (\<lambda>r. absolute r @ [SLASH]) [[units ''mnt''], [units ''home'', units ''user'']]"
  by (simp add: ALLOWED_ROOTS_def absolute_def units_def)

lemma validateOne_iff:
  "validateOne path = Inr () \<longleftrightarrow> (\<exists>segs. mountable segs \<and> path = absolute segs)"
proof -
  have "list_ex (\<lambda>root. prefix root (absolute segs) \<and> absolute segs \<noteq> butlast root) ALLOWED_ROOTS \<longleftrightarrow>
      strict_prefix [units ''mnt''] segs \<or> strict_prefix [units ''home'', units ''user''] segs"
    if plain: "list_all plainSegment segs" for segs
  proof -
    have drop: "prefix (r @ [SLASH]) (absolute segs) \<and> absolute segs \<noteq> butlast (r @ [SLASH]) \<longleftrightarrow>
        prefix (r @ [SLASH]) (absolute segs)" for r
      by (auto dest: prefix_length_le)
    have "SLASH \<notin> set (units ''mnt'') \<union> set (units ''home'') \<union> set (units ''user'')" by (simp add: units_def)
    then show ?thesis
      unfolding roots_absolute list_ex_iff set_map bex_simps drop by (simp add: root_prefix [OF plain])
  qed
  moreover have "prefix [SLASH] (absolute segs)" for segs by (simp add: absolute_def)
  ultimately show ?thesis
    by (auto simp: validateOne_def throw_iff normalize_fixed_iff mountable_def)
qed

lemma mountable_not_Nil: "mountable segs \<Longrightarrow> segs \<noteq> []"
  by (auto simp: mountable_def)

lemma overlaps_absolute:
  assumes "mountable xs" "mountable ys"
  shows "overlaps (absolute xs) (absolute ys) \<longleftrightarrow> prefix xs ys \<or> prefix ys xs"
proof -
  have p: "list_all plainSegment xs" "list_all plainSegment ys" using assms by (auto simp: mountable_def)
  note n = mountable_not_Nil [OF assms(1)] mountable_not_Nil [OF assms(2)]
  have "prefix (absolute xs @ [SLASH]) (absolute ys @ [SLASH]) \<longleftrightarrow> prefix xs ys"
    "prefix (absolute ys @ [SLASH]) (absolute xs @ [SLASH]) \<longleftrightarrow> prefix ys xs"
    using prefix_joinWith n p [THEN plain_no_slash] by (simp_all add: absolute_def)
  then show ?thesis using absolute_inj [OF p] by (auto simp: overlaps_def)
qed

lemma validateFrom_iff:
  "validateFrom validated paths = Inr r \<longleftrightarrow> r = validated @ paths \<and>
   (\<forall>p \<in> set paths. validateOne p = Inr ()) \<and>
   (\<forall>p \<in> set paths. \<forall>v \<in> set validated. \<not> overlaps p v) \<and>
   sorted_wrt (\<lambda>v p. \<not> overlaps p v) paths"
  by (induction paths arbitrary: validated) (auto simp: throw_iff list_ex_iff)

section \<open>Properties\<close>

text \<open>C39: the validation of mount points accepts a list exactly when it has at most four
  paths, each is an absolute path of proper segments strictly below \<open>/mnt\<close> or
  \<open>/home/user\<close>, and no one is the other or a directory above it, compared
  segment by segment; it then returns the list unchanged.\<close>

theorem validateMountPaths_iff:
  "validateMountPaths paths = Inr r \<longleftrightarrow> r = paths \<and> length paths \<le> MAX_MOUNTS \<and>
   (\<exists>segss. paths = map absolute segss \<and> list_all mountable segss \<and>
      sorted_wrt (\<lambda>xs ys. \<not> prefix xs ys \<and> \<not> prefix ys xs) segss)"
proof -
  have "(\<forall>p \<in> set paths. validateOne p = Inr ()) \<longleftrightarrow> (\<exists>segss. paths = map absolute segss \<and> list_all mountable segss)"
    unfolding validateOne_iff
  proof (induction paths)
    case (Cons p paths)
    have "(\<exists>segss. p # paths = map absolute segss \<and> list_all mountable segss) \<longleftrightarrow>
        (\<exists>segs. mountable segs \<and> p = absolute segs) \<and>
        (\<exists>segss. paths = map absolute segss \<and> list_all mountable segss)"
      unfolding Cons_eq_map_conv by (metis list.pred_inject(2))
    with Cons show ?case by simp
  qed simp
  moreover have "sorted_wrt (\<lambda>v p. \<not> overlaps p v) (map absolute segss) \<longleftrightarrow>
      sorted_wrt (\<lambda>xs ys. \<not> prefix xs ys \<and> \<not> prefix ys xs) segss" if "list_all mountable segss" for segss
    using that unfolding sorted_wrt_map
    by (induction segss) (auto simp: overlaps_absolute list_all_iff)
  ultimately show ?thesis
    by (auto simp: validateMountPaths_def throw_iff validateFrom_iff)
qed

text \<open>Normalising a path gives an absolute path without empty, \<open>.\<close> or \<open>..\<close>
  segments, and normalising twice changes nothing.\<close>

theorem normalize_canonical:
  "normalize (normalize path) = normalize path \<and>
   (\<exists>segs. list_all plainSegment segs \<and> normalize path = absolute segs)"
  using normalize_plain [of path] normalize_absolute
  by (auto simp: normalize_def [of path] absolute_def [symmetric])

end
