(* ===== verification/Lifecycle.thy ===== *)
theory Lifecycle
  imports Prelude Complex_Main
begin

text \<open>
  \<open>sandbox/lifecycle.ts\<close>, the idle policy of \<open>models.ts\<close> and the limits they use:
  what \<open>create()\<close> asks of the platform for the life of a sandbox, what
  \<open>connect()\<close> extends, and when the pause trigger fires.  Values of type
  \<open>unknown\<close> that the source only tests with \<open>Number.isInteger\<close> are integers or
  \<open>JsOther\<close>; the clock is a rational number of milliseconds, because the source
  rounds it down itself.
\<close>

section \<open>Limits\<close>

definition MAX_DURATION_SECONDS :: int where "MAX_DURATION_SECONDS = 28800"
definition IDLE_MAX_IDLE_MIN_SECONDS :: int where "IDLE_MAX_IDLE_MIN_SECONDS = 60"
definition IDLE_SUSPENDED_MIN_SECONDS :: int where "IDLE_SUSPENDED_MIN_SECONDS = 0"
definition LIFECYCLE_AUTO_RESUME_MIN_SECONDS :: int where "LIFECYCLE_AUTO_RESUME_MIN_SECONDS = 300"
definition LIFECYCLE_CAP_MARGIN_SECONDS :: int where "LIFECYCLE_CAP_MARGIN_SECONDS = 60"
definition LIFECYCLE_MIN_MAX_LIFETIME_SECONDS :: int where "LIFECYCLE_MIN_MAX_LIFETIME_SECONDS = 120"
definition LIFECYCLE_MIN_TIMEOUT_SECONDS :: int where "LIFECYCLE_MIN_TIMEOUT_SECONDS = 1"
definition DEFAULT_MAX_IDLE_SECONDS :: int where "DEFAULT_MAX_IDLE_SECONDS = 300"
definition MAX_LIFETIME_MS :: int where "MAX_LIFETIME_MS = MAX_DURATION_SECONDS * 1000"
definition MIN_MAX_LIFETIME_MS :: int where "MIN_MAX_LIFETIME_MS = LIFECYCLE_MIN_MAX_LIFETIME_SECONDS * 1000"
definition CAP_MARGIN_MS :: int where "CAP_MARGIN_MS = LIFECYCLE_CAP_MARGIN_SECONDS * 1000"
definition MIN_SET_TIMEOUT_MS :: int where "MIN_SET_TIMEOUT_MS = LIFECYCLE_MIN_TIMEOUT_SECONDS * 1000"
definition PAUSE_TRIGGER_SLACK_MS :: int where "PAUSE_TRIGGER_SLACK_MS = 1000"
definition REOPEN_CAP_SLACK_MS :: int where "REOPEN_CAP_SLACK_MS = 5000"
definition PAUSE_DEFAULT_IDLE_FALLBACK_SECONDS :: int where
  "PAUSE_DEFAULT_IDLE_FALLBACK_SECONDS = IDLE_MAX_IDLE_MIN_SECONDS"

lemmas limits =
  MAX_DURATION_SECONDS_def IDLE_MAX_IDLE_MIN_SECONDS_def IDLE_SUSPENDED_MIN_SECONDS_def
  LIFECYCLE_AUTO_RESUME_MIN_SECONDS_def LIFECYCLE_CAP_MARGIN_SECONDS_def
  LIFECYCLE_MIN_MAX_LIFETIME_SECONDS_def LIFECYCLE_MIN_TIMEOUT_SECONDS_def DEFAULT_MAX_IDLE_SECONDS_def
  MAX_LIFETIME_MS_def MIN_MAX_LIFETIME_MS_def CAP_MARGIN_MS_def MIN_SET_TIMEOUT_MS_def
  PAUSE_TRIGGER_SLACK_MS_def REOPEN_CAP_SLACK_MS_def PAUSE_DEFAULT_IDLE_FALLBACK_SECONDS_def

section \<open>Data\<close>

datatype lifecycle_error =
    BadMaxIdle | BadSuspended | IdleNotBelowDuration
  | BadOnTimeout
  | LifetimeNotInteger | LifetimeAbovePlatform | LifetimeTooShort | LifetimeNotSeconds
  | TimeoutAboveLifetime
  | PauseNeedsIdle | PauseSuspendedGiven | PauseIdleNotBelowCap
  | TimeoutNotInteger | TimeoutTooShort | BeyondCap int
  | LifecycleUnsupported | UnmanagedLifecycle | NoLifeLeft

datatype JsInput = JsInteger int | JsOther

datatype OnTimeout = Kill | Pause

text \<open>An \<open>unknown\<close> that should be an \<open>OnTimeout\<close>.\<close>

datatype OnTimeoutInput = OnTimeoutUndefined | OnTimeoutNull | OnTimeoutIs OnTimeout | OnTimeoutOther

record IdlePolicyInput =
  maxIdleInput :: "JsInput option"
  suspendedInput :: "JsInput option"
  autoResumeInput :: "bool option"

datatype IdleInput = IdleUndefined | IdleNull | IdleGiven IdlePolicyInput

record IdlePolicy =
  maxIdleSeconds :: int
  suspendedDurationSeconds :: "int option"
  idleAutoResume :: bool

record LifecycleBlock =
  timeoutS :: int
  capS :: int
  blockOnTimeout :: OnTimeout
  blockAutoResume :: bool

record LifecyclePlan =
  planBlock :: "LifecycleBlock option"
  platformDurationSeconds :: int
  planIdle :: "IdlePolicy option"

record LifecycleInput =
  timeoutSeconds :: int
  maxLifetimeMs :: "JsInput option"
  onTimeoutInput :: OnTimeoutInput
  idleInput :: IdleInput

section \<open>The plan of a new sandbox\<close>

definition emptyIdleInput :: IdlePolicyInput where
  "emptyIdleInput = \<lparr>maxIdleInput = None, suspendedInput = None, autoResumeInput = None\<rparr>"

definition validateIdlePolicy :: "IdlePolicyInput \<Rightarrow> lifecycle_error + IdlePolicy" where
  "validateIdlePolicy input =
     (case (case maxIdleInput input of None \<Rightarrow> JsInteger DEFAULT_MAX_IDLE_SECONDS | Some v \<Rightarrow> v) of
        JsOther \<Rightarrow> Inl BadMaxIdle
      | JsInteger maxIdle \<Rightarrow>
          if maxIdle < IDLE_MAX_IDLE_MIN_SECONDS then Inl BadMaxIdle
          else andThen
            (case suspendedInput input of
               None \<Rightarrow> Inr None
             | Some JsOther \<Rightarrow> Inl BadSuspended
             | Some (JsInteger s) \<Rightarrow> if s < IDLE_SUSPENDED_MIN_SECONDS then Inl BadSuspended else Inr (Some s))
            (\<lambda>suspended. Inr \<lparr>maxIdleSeconds = maxIdle, suspendedDurationSeconds = suspended,
               idleAutoResume = (case autoResumeInput input of None \<Rightarrow> True | Some b \<Rightarrow> b)\<rparr>))"

definition givenIdle :: "IdleInput \<Rightarrow> IdlePolicyInput" where
  "givenIdle idle = (case idle of IdleGiven input \<Rightarrow> input | _ \<Rightarrow> emptyIdleInput)"

definition resolveIdlePolicy :: "IdleInput \<Rightarrow> int \<Rightarrow> lifecycle_error + IdlePolicy option" where
  "resolveIdlePolicy idle durationSeconds =
     (if idle = IdleNull then Inr None
      else andThen (validateIdlePolicy (givenIdle idle)) (\<lambda>validated.
        if maxIdleSeconds validated \<ge> durationSeconds then Inl IdleNotBelowDuration
        else if suspendedDurationSeconds validated \<noteq> None then Inr (Some validated)
        else Inr (Some \<lparr>maxIdleSeconds = maxIdleSeconds validated,
               suspendedDurationSeconds = Some (durationSeconds - maxIdleSeconds validated),
               idleAutoResume = idleAutoResume validated\<rparr>)))"

definition fitDefaultIdle :: "IdleInput \<Rightarrow> int \<Rightarrow> IdleInput" where
  "fitDefaultIdle idle boundSeconds =
     (if idle = IdleUndefined \<and> DEFAULT_MAX_IDLE_SECONDS \<ge> boundSeconds then IdleNull else idle)"

definition fitDefaultPauseIdle :: "IdleInput \<Rightarrow> int \<Rightarrow> IdleInput" where
  "fitDefaultPauseIdle idle cap =
     (if idle = IdleUndefined \<and> DEFAULT_MAX_IDLE_SECONDS \<ge> cap
      then IdleGiven (emptyIdleInput\<lparr>maxIdleInput := Some (JsInteger PAUSE_DEFAULT_IDLE_FALLBACK_SECONDS)\<rparr>)
      else idle)"

definition validateOnTimeout :: "OnTimeoutInput \<Rightarrow> lifecycle_error + OnTimeout" where
  "validateOnTimeout v = (case v of OnTimeoutIs action \<Rightarrow> Inr action | _ \<Rightarrow> Inl BadOnTimeout)"

definition defaultMaxLifetimeMs :: "int \<Rightarrow> int" where
  "defaultMaxLifetimeMs seconds =
     min (max (seconds * 1000 + CAP_MARGIN_MS) MIN_MAX_LIFETIME_MS) MAX_LIFETIME_MS"

definition validateMaxLifetimeMs :: "JsInput \<Rightarrow> lifecycle_error + int" where
  "validateMaxLifetimeMs v =
     (case v of
        JsOther \<Rightarrow> Inl LifetimeNotInteger
      | JsInteger ms \<Rightarrow>
          if ms > MAX_LIFETIME_MS then Inl LifetimeAbovePlatform
          else if ms < MIN_MAX_LIFETIME_MS then Inl LifetimeTooShort
          else if ms mod 1000 \<noteq> 0 then Inl LifetimeNotSeconds
          else Inr ms)"

definition resolveMaxLifetimeSeconds :: "LifecycleInput \<Rightarrow> lifecycle_error + int" where
  "resolveMaxLifetimeSeconds input =
     andThen (validateMaxLifetimeMs
       (case maxLifetimeMs input of None \<Rightarrow> JsInteger (defaultMaxLifetimeMs (timeoutSeconds input)) | Some v \<Rightarrow> v))
     (\<lambda>ms. if timeoutSeconds input * 1000 > ms then Inl TimeoutAboveLifetime else Inr (ms div 1000))"

definition pausePlan :: "int \<Rightarrow> int \<Rightarrow> IdleInput \<Rightarrow> lifecycle_error + LifecyclePlan" where
  "pausePlan seconds cap idle =
     (if idle = IdleNull then Inl PauseNeedsIdle
      else andThen (validateIdlePolicy (givenIdle idle)) (\<lambda>validated.
        if suspendedDurationSeconds validated \<noteq> None then Inl PauseSuspendedGiven
        else if maxIdleSeconds validated \<ge> cap then Inl PauseIdleNotBelowCap
        else Inr \<lparr>planBlock = Some \<lparr>timeoutS = seconds, capS = cap, blockOnTimeout = Pause,
                      blockAutoResume = idleAutoResume validated\<rparr>,
                   platformDurationSeconds = cap,
                   planIdle = Some \<lparr>maxIdleSeconds = maxIdleSeconds validated,
                      suspendedDurationSeconds = Some (cap - maxIdleSeconds validated),
                      idleAutoResume = True\<rparr>\<rparr>))"

definition resolveLifecycle :: "LifecycleInput \<Rightarrow> lifecycle_error + LifecyclePlan" where
  "resolveLifecycle input =
     (if maxLifetimeMs input = None \<and> onTimeoutInput input = OnTimeoutUndefined then
        andThen (resolveIdlePolicy (fitDefaultIdle (idleInput input) (timeoutSeconds input)) (timeoutSeconds input))
          (\<lambda>idle. Inr \<lparr>planBlock = None, platformDurationSeconds = timeoutSeconds input, planIdle = idle\<rparr>)
      else
        andThen (validateOnTimeout
          (if onTimeoutInput input \<in> {OnTimeoutUndefined, OnTimeoutNull} then OnTimeoutIs Kill
           else onTimeoutInput input)) (\<lambda>action.
        andThen (resolveMaxLifetimeSeconds input) (\<lambda>cap.
        if action = Pause then pausePlan (timeoutSeconds input) cap (fitDefaultPauseIdle (idleInput input) cap)
        else andThen (resolveIdlePolicy (fitDefaultIdle (idleInput input) cap) cap)
          (\<lambda>idle. Inr \<lparr>planBlock = Some \<lparr>timeoutS = timeoutSeconds input, capS = cap,
                         blockOnTimeout = action, blockAutoResume = False\<rparr>,
                       platformDurationSeconds = cap, planIdle = idle\<rparr>))))"

section \<open>Reading and moving the deadline\<close>

text \<open>The enumerations of the protocol; every other number is \<open>PbOther\<dots>\<close>.\<close>

datatype PbPhase = PbActive | PbResumeGrace | PbExpired | PbOtherPhase
datatype PbAction = PbKill | PbPause | PbOtherAction

record LifecycleState =
  pbPhase :: PbPhase
  pbDeadlineUnixMs :: int
  pbCapUnixMs :: int
  pbTimeoutMs :: int
  pbOnTimeout :: PbAction
  pbAutoResume :: bool
  pbExtensions :: nat

datatype LifecyclePhaseName = Unmanaged | Active | ResumeGrace | Expired

record SandboxLifecycle =
  lifePhase :: LifecyclePhaseName
  lifeDeadline :: "int option"
  lifeCap :: "int option"
  lifeTimeoutMs :: int
  lifeOnTimeout :: "OnTimeout option"
  lifeAutoResume :: bool
  lifeExtensions :: nat

definition phaseName :: "PbPhase \<Rightarrow> LifecyclePhaseName" where
  "phaseName p = (case p of PbActive \<Rightarrow> Active | PbResumeGrace \<Rightarrow> ResumeGrace | PbExpired \<Rightarrow> Expired
     | PbOtherPhase \<Rightarrow> Unmanaged)"

definition onTimeoutName :: "PbAction \<Rightarrow> OnTimeout option" where
  "onTimeoutName a = (case a of PbKill \<Rightarrow> Some Kill | PbPause \<Rightarrow> Some Pause | PbOtherAction \<Rightarrow> None)"

definition wallInstant :: "int \<Rightarrow> int option" where
  "wallInstant unixMs = (if unixMs > 0 then Some unixMs else None)"

definition lifecycleFromProto :: "LifecycleState option \<Rightarrow> SandboxLifecycle option" where
  "lifecycleFromProto st =
     (case st of None \<Rightarrow> None
      | Some s \<Rightarrow> Some \<lparr>lifePhase = phaseName (pbPhase s), lifeDeadline = wallInstant (pbDeadlineUnixMs s),
          lifeCap = wallInstant (pbCapUnixMs s), lifeTimeoutMs = pbTimeoutMs s,
          lifeOnTimeout = onTimeoutName (pbOnTimeout s), lifeAutoResume = pbAutoResume s,
          lifeExtensions = pbExtensions s\<rparr>)"

definition validateSetTimeoutMs :: "JsInput \<Rightarrow> lifecycle_error + int" where
  "validateSetTimeoutMs v =
     (case v of
        JsOther \<Rightarrow> Inl TimeoutNotInteger
      | JsInteger ms \<Rightarrow>
          if ms < MIN_SET_TIMEOUT_MS then Inl TimeoutTooShort
          else if ms > MAX_LIFETIME_MS then Inl (BeyondCap ms)
          else Inr ms)"

definition optionalSetTimeoutMs :: "JsInput option \<Rightarrow> lifecycle_error + int option" where
  "optionalSetTimeoutMs v =
     (case v of None \<Rightarrow> Inr None | Some ms \<Rightarrow> andThen (validateSetTimeoutMs ms) (\<lambda>ms. Inr (Some ms)))"

text \<open>\<open>lifecycle.cap?.getTime() ?? 0\<close>.\<close>

definition capMs :: "SandboxLifecycle \<Rightarrow> rat" where
  "capMs l = of_int (case lifeCap l of None \<Rightarrow> 0 | Some c \<Rightarrow> c)"

definition reopenTimeoutMs :: "SandboxLifecycle \<Rightarrow> rat \<Rightarrow> lifecycle_error + int" where
  "reopenTimeoutMs l now =
     (let ms = floor (min (of_int (lifeTimeoutMs l)) (capMs l - now - of_int REOPEN_CAP_SLACK_MS))
      in if ms < MIN_SET_TIMEOUT_MS then Inl NoLifeLeft else Inr ms)"

definition connectExtension ::
  "SandboxLifecycle option \<Rightarrow> JsInput option \<Rightarrow> rat \<Rightarrow> lifecycle_error + int option" where
  "connectExtension life requestedMs now =
     andThen (optionalSetTimeoutMs requestedMs) (\<lambda>requested.
       case life of
         None \<Rightarrow> if requested \<noteq> None then Inl LifecycleUnsupported else Inr None
       | Some l \<Rightarrow>
           if lifePhase l = Unmanaged then (if requested \<noteq> None then Inl UnmanagedLifecycle else Inr None)
           else if requested \<noteq> None then Inr requested
           else if lifePhase l = Active then Inr None
           else andThen (reopenTimeoutMs l now) (\<lambda>ms. Inr (Some ms)))"

datatype TimeoutMode = AtLeast | Exact
datatype LifecycleFeature = FeatureConnect | FeatureCreate | FeatureSetTimeout

definition setTimeoutFeature :: "TimeoutMode \<Rightarrow> LifecycleFeature" where
  "setTimeoutFeature mode = (if mode = AtLeast then FeatureConnect else FeatureSetTimeout)"

definition deadlineMayHaveMoved :: "string \<Rightarrow> SandboxLifecycle option \<Rightarrow> bool" where
  "deadlineMayHaveMoved vmState life \<longleftrightarrow> vmState = ''RUNNING'' \<and>
     (case life of None \<Rightarrow> False | Some l \<Rightarrow> lifePhase l \<noteq> Unmanaged)"

definition pauseTriggerDelayMs :: "SandboxLifecycle option \<Rightarrow> rat \<Rightarrow> rat option" where
  "pauseTriggerDelayMs life now =
     (case life of
        None \<Rightarrow> None
      | Some l \<Rightarrow>
          if lifeOnTimeout l \<noteq> Some Pause then None
          else if lifePhase l = Expired then Some 0
          else if lifePhase l \<noteq> Active then None
          else case lifeDeadline l of
            None \<Rightarrow> None
          | Some d \<Rightarrow> Some (max 0 (of_int d - now) + of_int PAUSE_TRIGGER_SLACK_MS))"

record DeadlinePauseResume =
  pausedGeneration :: "nat option"
  generation :: nat
  resumeNowUnixMs :: rat

definition autoResumeReopenMs :: "SandboxLifecycle option \<Rightarrow> DeadlinePauseResume \<Rightarrow> int option" where
  "autoResumeReopenMs life resume =
     (case pausedGeneration resume of
        None \<Rightarrow> None
      | Some paused \<Rightarrow>
          if generation resume \<le> paused then None
          else case life of
            None \<Rightarrow> None
          | Some l \<Rightarrow>
              if lifePhase l \<noteq> Expired then None
              else if lifeOnTimeout l \<noteq> Some Pause \<or> \<not> lifeAutoResume l then None
              else let ms = floor (min (max (of_int (lifeTimeoutMs l)) (of_int (LIFECYCLE_AUTO_RESUME_MIN_SECONDS * 1000)))
                       (capMs l - resumeNowUnixMs resume - of_int REOPEN_CAP_SLACK_MS))
                   in if ms < MIN_SET_TIMEOUT_MS then None else Some ms)"

text \<open>The number after \<open>cap_unix_ms=\<close>: an optional sign and one digit or more.\<close>

definition signedDigits :: "string \<Rightarrow> int option" where
  "signedDigits s =
     (let neg = prefix ''-'' s; digits = takeWhile isDigit (if neg then tl s else s)
      in if digits = [] then None
         else Some ((if neg then -1 else 1) * int (parseDigits 10 digits)))"

fun capFromDetail :: "string \<Rightarrow> int option" where
  "capFromDetail [] = None"
| "capFromDetail (c # cs) =
     (case (if prefix ''cap_unix_ms='' (c # cs) then signedDigits (drop 12 (c # cs)) else None) of
        Some n \<Rightarrow> Some n
      | None \<Rightarrow> capFromDetail cs)"

text \<open>What \<open>run-microvm\<close> accepts of a plan: a duration within the platform limit, a
  logical timeout below the cap, and an idle window that ends before the sandbox
  does.\<close>

definition wf_plan :: "LifecycleInput \<Rightarrow> LifecyclePlan \<Rightarrow> bool" where
  "wf_plan input plan \<longleftrightarrow>
     platformDurationSeconds plan \<le> MAX_DURATION_SECONDS \<and>
     timeoutSeconds input \<le> platformDurationSeconds plan \<and>
     (case planBlock plan of None \<Rightarrow> True
      | Some b \<Rightarrow> timeoutS b = timeoutSeconds input \<and> capS b = platformDurationSeconds plan \<and>
          LIFECYCLE_MIN_MAX_LIFETIME_SECONDS \<le> capS b) \<and>
     (case planIdle plan of None \<Rightarrow> True
      | Some p \<Rightarrow> IDLE_MAX_IDLE_MIN_SECONDS \<le> maxIdleSeconds p \<and>
          maxIdleSeconds p < platformDurationSeconds plan \<and>
          (\<exists>s. suspendedDurationSeconds p = Some s \<and> 0 \<le> s \<and>
            (suspendedInput (givenIdle (idleInput input)) = None \<longrightarrow>
               maxIdleSeconds p + s = platformDurationSeconds plan)))"

section \<open>Lemmas\<close>

lemma validateIdlePolicy_Inr:
  "validateIdlePolicy input = Inr p \<Longrightarrow>
   maxIdleSeconds p \<ge> IDLE_MAX_IDLE_MIN_SECONDS \<and>
   (suspendedInput input = None \<longleftrightarrow> suspendedDurationSeconds p = None) \<and>
   (\<forall>s. suspendedDurationSeconds p = Some s \<longrightarrow> 0 \<le> s)"
  by (auto simp: validateIdlePolicy_def throw_iff limits split: option.splits JsInput.splits if_splits)

lemma resolveIdlePolicy_Inr:
  assumes "resolveIdlePolicy idle d = Inr (Some p)"
  shows "IDLE_MAX_IDLE_MIN_SECONDS \<le> maxIdleSeconds p \<and> maxIdleSeconds p < d \<and>
    (\<exists>s. suspendedDurationSeconds p = Some s \<and> 0 \<le> s \<and>
      (suspendedInput (givenIdle idle) = None \<longrightarrow> maxIdleSeconds p + s = d))"
  using assms validateIdlePolicy_Inr [of "givenIdle idle"]
  by (auto simp: resolveIdlePolicy_def throw_iff split: if_splits)

lemma resolveMaxLifetimeSeconds_Inr:
  assumes "resolveMaxLifetimeSeconds input = Inr cap"
  shows "timeoutSeconds input \<le> cap \<and> LIFECYCLE_MIN_MAX_LIFETIME_SECONDS \<le> cap \<and> cap \<le> MAX_DURATION_SECONDS"
  using assms
  by (auto simp: resolveMaxLifetimeSeconds_def validateMaxLifetimeMs_def throw_iff limits
      split: option.splits JsInput.splits if_splits)

lemma pausePlan_Inr:
  assumes "pausePlan seconds cap idle = Inr plan"
  shows "\<exists>b p. plan = \<lparr>planBlock = Some b, platformDurationSeconds = cap, planIdle = Some p\<rparr> \<and>
    timeoutS b = seconds \<and> capS b = cap \<and> blockOnTimeout b = Pause \<and> idleAutoResume p \<and>
    IDLE_MAX_IDLE_MIN_SECONDS \<le> maxIdleSeconds p \<and> maxIdleSeconds p < cap \<and>
    suspendedDurationSeconds p = Some (cap - maxIdleSeconds p)"
  using assms validateIdlePolicy_Inr [of "givenIdle idle"]
  by (auto simp: pausePlan_def throw_iff split: if_splits)


lemma fitDefaultIdle_given:
  "suspendedInput (givenIdle (fitDefaultIdle idle d)) = suspendedInput (givenIdle idle)"
  by (simp add: fitDefaultIdle_def givenIdle_def emptyIdleInput_def)

lemma resolveIdlePolicy_wf:
  assumes "resolveIdlePolicy (fitDefaultIdle (idleInput input) d) d = Inr idle"
    "d \<le> MAX_DURATION_SECONDS" "timeoutSeconds input \<le> d"
    "\<And>b. block = Some b \<Longrightarrow> timeoutS b = timeoutSeconds input \<and> capS b = d \<and> LIFECYCLE_MIN_MAX_LIFETIME_SECONDS \<le> d"
  shows "wf_plan input \<lparr>planBlock = block, platformDurationSeconds = d, planIdle = idle\<rparr>"
proof (cases idle)
  case None
  with assms show ?thesis by (auto simp: wf_plan_def split: option.split)
next
  case (Some p)
  from resolveIdlePolicy_Inr [of "fitDefaultIdle (idleInput input) d" d p] assms(1) Some assms(2-4)
  show ?thesis by (auto simp: wf_plan_def fitDefaultIdle_given split: option.split)
qed

lemma resolveLifecycle_wf:
  assumes "resolveLifecycle input = Inr plan" "timeoutSeconds input \<le> MAX_DURATION_SECONDS"
  shows "wf_plan input plan"
proof (cases "maxLifetimeMs input = None \<and> onTimeoutInput input = OnTimeoutUndefined")
  case True
  with assms show ?thesis
    by (auto simp: resolveLifecycle_def throw_iff intro!: resolveIdlePolicy_wf)
next
  case False
  then obtain action cap where cap: "resolveMaxLifetimeSeconds input = Inr cap"
    and plan: "(if action = Pause then pausePlan (timeoutSeconds input) cap (fitDefaultPauseIdle (idleInput input) cap)
        else andThen (resolveIdlePolicy (fitDefaultIdle (idleInput input) cap) cap)
          (\<lambda>idle. Inr \<lparr>planBlock = Some \<lparr>timeoutS = timeoutSeconds input, capS = cap,
             blockOnTimeout = action, blockAutoResume = False\<rparr>,
             platformDurationSeconds = cap, planIdle = idle\<rparr>)) = Inr plan"
    using assms(1) unfolding resolveLifecycle_def if_not_P [OF False] by (auto simp: throw_iff)
  note bounds = resolveMaxLifetimeSeconds_Inr [OF cap]
  show ?thesis
  proof (cases "action = Pause")
    case True
    with plan pausePlan_Inr [of "timeoutSeconds input" cap "fitDefaultPauseIdle (idleInput input) cap" plan] bounds
    show ?thesis by (auto simp: wf_plan_def)
  next
    case False
    with plan bounds show ?thesis by (auto simp: throw_iff intro!: resolveIdlePolicy_wf)
  qed
qed

lemma defaultMaxLifetime_ok:
  assumes "1 \<le> s" "s \<le> MAX_DURATION_SECONDS"
  shows "validateMaxLifetimeMs (JsInteger (defaultMaxLifetimeMs s)) = Inr (defaultMaxLifetimeMs s) \<and>
    s * 1000 \<le> defaultMaxLifetimeMs s"
proof -
  have "defaultMaxLifetimeMs s mod 1000 = 0"
    by (simp add: defaultMaxLifetimeMs_def limits min_def max_def)
  then show ?thesis
    using assms by (auto simp: validateMaxLifetimeMs_def defaultMaxLifetimeMs_def limits min_def max_def)
qed

lemma default_idle_resolves: "\<exists>idle. resolveIdlePolicy (fitDefaultIdle IdleUndefined d) d = Inr idle"
  by (auto simp: fitDefaultIdle_def resolveIdlePolicy_def givenIdle_def emptyIdleInput_def
      validateIdlePolicy_def limits)

lemma default_pause_resolves:
  "LIFECYCLE_MIN_MAX_LIFETIME_SECONDS \<le> cap \<Longrightarrow>
   \<exists>plan. pausePlan s cap (fitDefaultPauseIdle IdleUndefined cap) = Inr plan"
  by (auto simp: fitDefaultPauseIdle_def pausePlan_def givenIdle_def emptyIdleInput_def
      validateIdlePolicy_def limits)

lemma floor_min_le: "floor (min a (b :: rat)) = m \<Longrightarrow> of_int m \<le> a \<and> of_int m \<le> b"
  by (metis min.boundedE of_int_floor_le)

lemma signedDigits_show:
  assumes "rest = [] \<or> \<not> isDigit (hd rest)"
  shows "signedDigits (showDigits 10 n @ rest) = Some (int n)"
proof -
  have "takeWhile isDigit (showDigits 10 n @ rest) = showDigits 10 n"
    using assms showDigits_dec by (cases rest) (auto simp: takeWhile_append)
  moreover have "\<not> prefix ''-'' (showDigits 10 n @ rest)"
  proof -
    obtain d ds where d: "showDigits 10 n = d # ds" by (cases "showDigits 10 n") auto
    then have "isDigit d" using showDigits_dec [of d n] by simp
    moreover have "\<not> isDigit CHR ''-''" by (simp add: isDigit_def inRange_def)
    ultimately show ?thesis using d by auto
  qed
  ultimately show ?thesis by (simp add: signedDigits_def parseDigits_showDigits)
qed

section \<open>Properties\<close>

text \<open>Every plan that \<open>create()\<close> sends is one the platform accepts: the duration is
  within the eight hours and not below the timeout, the lifecycle block agrees
  with it, and the idle window lies strictly inside the life of the sandbox and,
  unless the caller fixed the suspended time, fills it exactly.\<close>

theorem resolveLifecycle_sound:
  assumes "resolveLifecycle input = Inr plan" "timeoutSeconds input \<le> MAX_DURATION_SECONDS"
  shows "wf_plan input plan"
  using assms by (rule resolveLifecycle_wf)

text \<open>A caller who gives no idle policy and no lifetime always gets a plan, for every
  timeout from one second to the platform limit and every action.\<close>

theorem resolveLifecycle_defaults:
  assumes "1 \<le> s" "s \<le> MAX_DURATION_SECONDS" "action \<noteq> OnTimeoutOther"
  shows "\<exists>plan. resolveLifecycle \<lparr>timeoutSeconds = s, maxLifetimeMs = None, onTimeoutInput = action,
    idleInput = IdleUndefined\<rparr> = Inr plan"
proof -
  let ?i = "\<lparr>timeoutSeconds = s, maxLifetimeMs = None, onTimeoutInput = action, idleInput = IdleUndefined\<rparr>"
  from defaultMaxLifetime_ok [OF assms(1,2)] obtain cap where cap: "resolveMaxLifetimeSeconds ?i = Inr cap"
    by (auto simp: resolveMaxLifetimeSeconds_def)
  then have "LIFECYCLE_MIN_MAX_LIFETIME_SECONDS \<le> cap" using resolveMaxLifetimeSeconds_Inr by blast
  then obtain pp where "pausePlan s cap (fitDefaultPauseIdle IdleUndefined cap) = Inr pp"
    using default_pause_resolves by blast
  moreover obtain i1 where "resolveIdlePolicy (fitDefaultIdle IdleUndefined cap) cap = Inr i1"
    using default_idle_resolves by blast
  moreover obtain i2 where "resolveIdlePolicy (fitDefaultIdle IdleUndefined s) s = Inr i2"
    using default_idle_resolves by blast
  ultimately show ?thesis
    using assms(3) cap
    by (cases action; cases "action = OnTimeoutIs Pause") (auto simp: resolveLifecycle_def validateOnTimeout_def)
qed


text \<open>What \<open>connect()\<close> sends.  A timeout that it asks for is at least a second; it is
  either the one the caller requested, within the platform limit, on a managed
  sandbox, or, without a request, the reopening of an expired or just resumed
  sandbox, not longer than its own timeout and ending five seconds before its
  cap.\<close>

theorem connectExtension_bounds:
  assumes "connectExtension life requested now = Inr (Some ms)"
  shows "\<exists>l. life = Some l \<and> lifePhase l \<noteq> Unmanaged \<and> MIN_SET_TIMEOUT_MS \<le> ms \<and>
    (requested = Some (JsInteger ms) \<and> ms \<le> MAX_LIFETIME_MS \<or>
     requested = None \<and> lifePhase l \<in> {ResumeGrace, Expired} \<and> ms \<le> lifeTimeoutMs l \<and>
     now + of_int ms + of_int REOPEN_CAP_SLACK_MS \<le> capMs l)"
proof -
  from assms obtain l req where life: "life = Some l" and req: "optionalSetTimeoutMs requested = Inr req"
    and ph: "lifePhase l \<noteq> Unmanaged"
    and rest: "(if req \<noteq> None then Inr req else if lifePhase l = Active then Inr None
      else andThen (reopenTimeoutMs l now) (\<lambda>ms. Inr (Some ms))) = (Inr (Some ms) :: lifecycle_error + int option)"
    by (auto simp: connectExtension_def throw_iff split: option.splits if_splits)
  show ?thesis
  proof (cases req)
    case None
    then have "requested = None" using req by (auto simp: optionalSetTimeoutMs_def throw_iff split: option.splits)
    moreover have re: "reopenTimeoutMs l now = Inr ms" "lifePhase l \<noteq> Active"
      using rest None by (auto simp: throw_iff split: if_splits)
    moreover have ms: "floor (min (of_int (lifeTimeoutMs l)) (capMs l - now - of_int REOPEN_CAP_SLACK_MS)) = ms"
      "MIN_SET_TIMEOUT_MS \<le> ms"
      using re(1) by (auto simp: reopenTimeoutMs_def Let_def split: if_splits)
    moreover have "of_int ms \<le> (of_int (lifeTimeoutMs l) :: rat)"
      "of_int ms \<le> capMs l - now - of_int REOPEN_CAP_SLACK_MS"
      using floor_min_le [OF ms(1)] by blast+
    ultimately show ?thesis using life ph by (cases "lifePhase l") auto
  next
    case (Some r)
    with rest req show ?thesis using life ph
      by (auto simp: optionalSetTimeoutMs_def validateSetTimeoutMs_def throw_iff
          split: option.splits JsInput.splits if_splits)
  qed
qed

text \<open>A client only reopens a paused sandbox by itself after it paused that sandbox at
  its deadline and the sandbox was resumed since, in pause mode with automatic
  resume; the new timeout ends five seconds before the cap, and is the longer
  of the sandbox's timeout and five minutes unless the cap cuts it.\<close>

theorem autoResumeReopen_guarded:
  assumes "autoResumeReopenMs life resume = Some ms"
  shows "\<exists>l g. life = Some l \<and> pausedGeneration resume = Some g \<and> g < generation resume \<and>
    lifePhase l = Expired \<and> lifeOnTimeout l = Some Pause \<and> lifeAutoResume l \<and>
    MIN_SET_TIMEOUT_MS \<le> ms \<and> resumeNowUnixMs resume + of_int ms + of_int REOPEN_CAP_SLACK_MS \<le> capMs l \<and>
    ms \<le> max (lifeTimeoutMs l) (LIFECYCLE_AUTO_RESUME_MIN_SECONDS * 1000) \<and>
    (ms = max (lifeTimeoutMs l) (LIFECYCLE_AUTO_RESUME_MIN_SECONDS * 1000) \<or>
     capMs l - resumeNowUnixMs resume - of_int REOPEN_CAP_SLACK_MS < of_int ms + 1)"
proof -
  from assms obtain l g where g: "life = Some l" "pausedGeneration resume = Some g" "g < generation resume"
    "lifePhase l = Expired" "lifeOnTimeout l = Some Pause" "lifeAutoResume l" "MIN_SET_TIMEOUT_MS \<le> ms"
    and ms: "ms = floor (min (max (of_int (lifeTimeoutMs l)) (of_int (LIFECYCLE_AUTO_RESUME_MIN_SECONDS * 1000)))
       (capMs l - resumeNowUnixMs resume - of_int REOPEN_CAP_SLACK_MS))"
    by (auto simp: autoResumeReopenMs_def Let_def split: option.splits if_splits)
  define t where "t = max (lifeTimeoutMs l) (LIFECYCLE_AUTO_RESUME_MIN_SECONDS * 1000)"
  define room where "room = capMs l - resumeNowUnixMs resume - of_int REOPEN_CAP_SLACK_MS"
  have m: "ms = floor (min (of_int t) room)" by (simp add: ms t_def room_def max_def)
  then have "of_int ms \<le> (of_int t :: rat)" "of_int ms \<le> room" using floor_min_le by blast+
  moreover have "ms = t \<or> room < of_int ms + 1"
    using m floor_correct [of room] by (cases "of_int t \<le> room") (auto simp: min_def)
  ultimately show ?thesis using g by (auto simp: t_def room_def)
qed

text \<open>The pause trigger is only armed in pause mode on an active or expired sandbox;
  on an active one it never fires before the deadline that the agent reported,
  but at least a second after it.\<close>

theorem pauseTrigger_after_deadline:
  assumes "pauseTriggerDelayMs life now = Some d"
  shows "\<exists>l. life = Some l \<and> lifeOnTimeout l = Some Pause \<and> 0 \<le> d \<and>
    (lifePhase l = Expired \<and> d = 0 \<or>
     lifePhase l = Active \<and> (\<exists>t. lifeDeadline l = Some t \<and> of_int t + of_int PAUSE_TRIGGER_SLACK_MS \<le> now + d))"
  using assms by (auto simp: pauseTriggerDelayMs_def limits max_def split: option.splits if_splits)

text \<open>The cap is read back from the detail with which the agent rejects a timeout,
  whatever follows the number.\<close>

theorem capFromDetail_roundtrip:
  assumes "rest = [] \<or> \<not> isDigit (hd rest)"
  shows "capFromDetail (''timeout beyond cap; cap_unix_ms='' @ showDigits 10 n @ rest) = Some (int n)"
  using signedDigits_show [OF assms] by simp

end
