(* ===== verification/Sandbox_Info.thy ===== *)
theory Sandbox_Info
  imports Lifecycle
begin

text \<open>
  The \<open>SandboxInfo\<close> of \<open>models.ts\<close>: what \<open>get-microvm\<close> says of a sandbox, with its
  derived fields.  Moments are milliseconds.
\<close>

record SandboxInfoFields =
  infoSandboxId :: string
  infoState :: string
  infoEndpoint :: string
  infoTemplate :: string
  infoTemplateVersion :: string
  infoStartedAt :: int
  infoMaximumDurationSeconds :: int
  infoTerminatedAt :: "int option"
  infoStateReason :: "string option"
  infoIdle :: "IdlePolicy option"
  infoExecutionRoleArn :: "string option"
  infoIngress :: "string list option"
  infoEgress :: "string list option"
  infoLifecycle :: "SandboxLifecycle option"
  infoAgentVersion :: "string option"
  infoCpuCount :: "int option"
  infoMemoryMb :: "int option"
  infoMetadata :: "(string \<times> string) list option"
  infoSize :: "string option"
  infoBaselineMemoryMib :: "int option"
  infoBaselineCpu :: "rat option"

text \<open>The fields that \<open>sandboxInfo\<close> adds; \<open>ingress\<close> and \<open>egress\<close> are present there.\<close>

record SandboxInfo = SandboxInfoFields +
  endpointUrl :: string
  infoExpiresAt :: int
  platformExpiresAt :: int
  timedOut :: bool
  templateName :: string

definition TIMED_OUT_STATE_REASON :: string where
  "TIMED_OUT_STATE_REASON = ''Container Stopped with Exit Code: 124''"

definition templateNameFromArn :: "string \<Rightarrow> string" where
  "templateNameFromArn arn = last (splitOn CHR '':'' arn)"

definition logicalDeadline :: "SandboxLifecycle option \<Rightarrow> int option" where
  "logicalDeadline life =
     (case life of None \<Rightarrow> None | Some l \<Rightarrow> if lifePhase l = Unmanaged then None else lifeDeadline l)"

definition platformEnd :: "SandboxInfoFields \<Rightarrow> int" where
  "platformEnd f = infoStartedAt f + infoMaximumDurationSeconds f * 1000"

definition sandboxInfo :: "SandboxInfoFields \<Rightarrow> SandboxInfo" where
  "sandboxInfo f = SandboxInfoFields.extend
     (f\<lparr>infoIngress := Some (case infoIngress f of None \<Rightarrow> [] | Some xs \<Rightarrow> xs),
        infoEgress := Some (case infoEgress f of None \<Rightarrow> [] | Some xs \<Rightarrow> xs)\<rparr>)
     \<lparr>endpointUrl = ''https://'' @ infoEndpoint f,
      infoExpiresAt = (case logicalDeadline (infoLifecycle f) of None \<Rightarrow> platformEnd f | Some d \<Rightarrow> d),
      platformExpiresAt = platformEnd f,
      timedOut = (infoStateReason f = Some TIMED_OUT_STATE_REASON),
      templateName = templateNameFromArn (infoTemplate f)\<rparr>"

definition remainingSeconds :: "SandboxInfo \<Rightarrow> int \<Rightarrow> rat" where
  "remainingSeconds info now = max 0 (of_int (infoExpiresAt info - now) / 1000)"

definition withLifecycle :: "SandboxInfo \<Rightarrow> SandboxLifecycle option \<Rightarrow> SandboxInfo" where
  "withLifecycle info life = sandboxInfo ((SandboxInfoFields.truncate info)\<lparr>infoLifecycle := life\<rparr>)"

end
