(* ===== verification/Iso_Date.thy ===== *)
theory Iso_Date
  imports Prelude
begin

text \<open>
  The part of the language's \<open>Date\<close> that the pool state uses: \<open>toISOString\<close> of a
  moment from 1970 to 9999 and the reading of that format.  A moment is a number
  of milliseconds.  The year and the month are found by counting days forward,
  so that the round trip is a matter of the two counts agreeing.
\<close>

section \<open>Days\<close>

definition leapYear :: "nat \<Rightarrow> bool" where
  "leapYear y \<longleftrightarrow> y mod 4 = 0 \<and> (y mod 100 \<noteq> 0 \<or> y mod 400 = 0)"

definition yearLength :: "nat \<Rightarrow> nat" where
  "yearLength y = (if leapYear y then 366 else 365)"

definition monthLengths :: "nat \<Rightarrow> nat list" where
  "monthLengths y = [31, if leapYear y then 29 else 28, 31, 30, 31, 30, 31, 31, 30, 31, 30, 31]"

text \<open>The year that contains day \<open>d\<close>, counted from the start of year \<open>y\<close>, and the day
  within it.\<close>

function findYear :: "nat \<Rightarrow> nat \<Rightarrow> nat \<times> nat" where
  "findYear y d = (if d < yearLength y then (y, d) else findYear (Suc y) (d - yearLength y))"
  by auto
termination
  by (relation "measure snd") (auto simp: yearLength_def)

declare findYear.simps [simp del]

fun findMonth :: "nat list \<Rightarrow> nat \<Rightarrow> nat \<Rightarrow> nat \<times> nat" where
  "findMonth [] m d = (m, d)"
| "findMonth (l # ls) m d = (if d < l then (m, d) else findMonth ls (Suc m) (d - l))"

fun daysBeforeYear :: "nat \<Rightarrow> nat" where
  "daysBeforeYear 0 = 0"
| "daysBeforeYear (Suc n) = daysBeforeYear n + yearLength (1970 + n)"

section \<open>The format\<close>

text \<open>A number in a fixed number of decimal digits.\<close>

fun fixedDigits :: "nat \<Rightarrow> nat \<Rightarrow> string" where
  "fixedDigits 0 n = []"
| "fixedDigits (Suc w) n = fixedDigits w (n div 10) @ [digitChar (n mod 10)]"

definition toISOString :: "nat \<Rightarrow> string" where
  "toISOString t =
     (let (y, yd) = findYear 1970 (t div 86400000);
          (m, md) = findMonth (monthLengths y) 1 yd;
          ms = t mod 86400000
      in fixedDigits 4 y @ ''-'' @ fixedDigits 2 m @ ''-'' @ fixedDigits 2 (Suc md) @ ''T'' @
         fixedDigits 2 (ms div 3600000) @ '':'' @ fixedDigits 2 (ms div 60000 mod 60) @ '':'' @
         fixedDigits 2 (ms div 1000 mod 60) @ ''.'' @ fixedDigits 3 (ms mod 1000) @ ''Z'')"

text \<open>Reads the format of \<open>toISOString\<close>; \<open>None\<close> is \<open>NaN\<close>.  Other formats that the
  language accepts are not read.\<close>

definition parseIso :: "string \<Rightarrow> nat option" where
  "parseIso s =
     (let num = (\<lambda>i w. parseDigits 10 (take w (drop i s)));
          y = num 0 4; m = num 5 2; d = num 8 2
      in if length s = 24 \<and> list_all isDigit (take 4 s @ take 2 (drop 5 s) @ take 2 (drop 8 s) @
              take 2 (drop 11 s) @ take 2 (drop 14 s) @ take 2 (drop 17 s) @ take 3 (drop 20 s)) \<and>
            s ! 4 = CHR ''-'' \<and> s ! 7 = CHR ''-'' \<and> s ! 10 = CHR ''T'' \<and> s ! 13 = CHR '':'' \<and>
            s ! 16 = CHR '':'' \<and> s ! 19 = CHR ''.'' \<and> s ! 23 = CHR ''Z'' \<and>
            1970 \<le> y \<and> 1 \<le> m \<and> m \<le> 12 \<and> 1 \<le> d \<and> d \<le> monthLengths y ! (m - 1) \<and>
            num 11 2 < 24 \<and> num 14 2 < 60 \<and> num 17 2 < 60
         then Some ((daysBeforeYear (y - 1970) + sum_list (take (m - 1) (monthLengths y)) + (d - 1)) * 86400000 +
           num 11 2 * 3600000 + num 14 2 * 60000 + num 17 2 * 1000 + num 20 3)
         else None)"

section \<open>Round trip\<close>

lemma findYear_spec:
  "findYear (1970 + k) d = (y, r) \<Longrightarrow>
   1970 + k \<le> y \<and> r < yearLength y \<and> daysBeforeYear k + d = daysBeforeYear (y - 1970) + r"
proof (induction "1970 + k" d arbitrary: k rule: findYear.induct)
  case (1 d)
  show ?case
  proof (cases "d < yearLength (1970 + k)")
    case True
    then show ?thesis using "1.prems" by (auto simp: findYear.simps [of "1970 + k"])
  next
    case False
    then have "findYear (1970 + Suc k) (d - yearLength (1970 + k)) = (y, r)"
      using "1.prems" by (simp add: findYear.simps [of "1970 + k"])
    from "1.hyps" [OF False _ this] False show ?thesis by auto
  qed
qed

lemma findMonth_spec:
  "d < sum_list ls \<Longrightarrow> findMonth ls m d = (m', r) \<Longrightarrow>
   m \<le> m' \<and> m' - m < length ls \<and> r < ls ! (m' - m) \<and> d = sum_list (take (m' - m) ls) + r"
proof (induction ls m d rule: findMonth.induct)
  case (2 l ls m d)
  show ?case
  proof (cases "d < l")
    case False
    then have "d - l < sum_list ls" "findMonth ls (Suc m) (d - l) = (m', r)" using "2.prems" by auto
    from "2.IH" [OF False this] have IH: "Suc m \<le> m'" "m' - Suc m < length ls" "r < ls ! (m' - Suc m)"
      "d - l = sum_list (take (m' - Suc m) ls) + r" by auto
    then have "m' - m = Suc (m' - Suc m)" by simp
    with IH False show ?thesis by simp
  qed (use "2.prems" in auto)
qed simp

lemma monthLengths_sum: "sum_list (monthLengths y) = yearLength y"
  by (simp add: monthLengths_def yearLength_def)

lemma length_fixedDigits [simp]: "length (fixedDigits w n) = w"
  by (induction w n rule: fixedDigits.induct) auto

lemma fixedDigits_digit: "list_all isDigit (fixedDigits w n)"
  by (induction w n rule: fixedDigits.induct) (auto simp: isDigit_digitChar)

lemma parseDigits_fixedDigits: "n < 10 ^ w \<Longrightarrow> parseDigits 10 (fixedDigits w n) = n"
proof (induction w n rule: fixedDigits.induct)
  case (2 w n)
  then have "n div 10 < 10 ^ w" by (simp add: less_mult_imp_div_less)
  with 2 show ?case by (simp add: digitValue_digitChar)
qed simp


lemma daysBeforeYear_ge: "365 * k \<le> daysBeforeYear k"
  by (induction k) (auto simp: yearLength_def)

lemma list_of_length_2: "length xs = 2 \<Longrightarrow> \<exists>a b. xs = [a, b]"
  by (auto simp: numeral_eq_Suc length_Suc_conv)

lemma list_of_length_3: "length xs = 3 \<Longrightarrow> \<exists>a b c. xs = [a, b, c]"
  by (auto simp: numeral_eq_Suc length_Suc_conv)

lemma list_of_length_4: "length xs = 4 \<Longrightarrow> \<exists>a b c d. xs = [a, b, c, d]"
  by (auto simp: numeral_eq_Suc length_Suc_conv)

lemma fixedDigits_2: obtains a b where "fixedDigits 2 n = [a, b]" "isDigit a" "isDigit b"
proof -
  obtain a b where "fixedDigits 2 n = [a, b]" using list_of_length_2 [OF length_fixedDigits] by blast
  with that show ?thesis using fixedDigits_digit [of 2 n] by simp
qed

lemma fixedDigits_3: obtains a b c where "fixedDigits 3 n = [a, b, c]" "isDigit a" "isDigit b" "isDigit c"
proof -
  obtain a b c where "fixedDigits 3 n = [a, b, c]" using list_of_length_3 [OF length_fixedDigits] by blast
  with that show ?thesis using fixedDigits_digit [of 3 n] by simp
qed

lemma fixedDigits_4:
  obtains a b c d where "fixedDigits 4 n = [a, b, c, d]" "isDigit a" "isDigit b" "isDigit c" "isDigit d"
proof -
  obtain a b c d where "fixedDigits 4 n = [a, b, c, d]" using list_of_length_4 [OF length_fixedDigits] by blast
  with that show ?thesis using fixedDigits_digit [of 4 n] by simp
qed

text \<open>Reading a date that was written field by field.\<close>

lemma parseIso_fields:
  assumes "1970 \<le> y" "y < 10000" "1 \<le> m" "m \<le> 12" "1 \<le> d" "d \<le> monthLengths y ! (m - 1)" "d < 100"
    "hh < 24" "mi < 60" "se < 60" "ms < 1000"
  shows "parseIso (fixedDigits 4 y @ ''-'' @ fixedDigits 2 m @ ''-'' @ fixedDigits 2 d @ ''T'' @
      fixedDigits 2 hh @ '':'' @ fixedDigits 2 mi @ '':'' @ fixedDigits 2 se @ ''.'' @ fixedDigits 3 ms @ ''Z'') =
    Some ((daysBeforeYear (y - 1970) + sum_list (take (m - 1) (monthLengths y)) + (d - 1)) * 86400000 +
      hh * 3600000 + mi * 60000 + se * 1000 + ms)"
proof -
  obtain a1 a2 a3 a4 where a: "fixedDigits 4 y = [a1, a2, a3, a4]" "isDigit a1" "isDigit a2" "isDigit a3" "isDigit a4"
    by (rule fixedDigits_4)
  obtain b1 b2 where b: "fixedDigits 2 m = [b1, b2]" "isDigit b1" "isDigit b2" by (rule fixedDigits_2)
  obtain c1 c2 where c: "fixedDigits 2 d = [c1, c2]" "isDigit c1" "isDigit c2" by (rule fixedDigits_2)
  obtain d1 d2 where d: "fixedDigits 2 hh = [d1, d2]" "isDigit d1" "isDigit d2" by (rule fixedDigits_2)
  obtain e1 e2 where e: "fixedDigits 2 mi = [e1, e2]" "isDigit e1" "isDigit e2" by (rule fixedDigits_2)
  obtain f1 f2 where f: "fixedDigits 2 se = [f1, f2]" "isDigit f1" "isDigit f2" by (rule fixedDigits_2)
  obtain g1 g2 g3 where g: "fixedDigits 3 ms = [g1, g2, g3]" "isDigit g1" "isDigit g2" "isDigit g3"
    by (rule fixedDigits_3)
  have val: "parseDigits 10 [a1, a2, a3, a4] = y" "parseDigits 10 [b1, b2] = m" "parseDigits 10 [c1, c2] = d"
    "parseDigits 10 [d1, d2] = hh" "parseDigits 10 [e1, e2] = mi" "parseDigits 10 [f1, f2] = se"
    "parseDigits 10 [g1, g2, g3] = ms"
    using assms parseDigits_fixedDigits [of y 4] parseDigits_fixedDigits [of m 2]
      parseDigits_fixedDigits [of d 2] parseDigits_fixedDigits [of hh 2] parseDigits_fixedDigits [of mi 2]
      parseDigits_fixedDigits [of se 2] parseDigits_fixedDigits [of ms 3]
    unfolding a b c d e f g by simp_all
  define s where "s = [a1, a2, a3, a4, CHR ''-'', b1, b2, CHR ''-'', c1, c2, CHR ''T'', d1, d2, CHR '':'', e1, e2,
    CHR '':'', f1, f2, CHR ''.'', g1, g2, g3, CHR ''Z'']"
  have slices: "take 4 (drop 0 s) = [a1, a2, a3, a4]" "take 4 s = [a1, a2, a3, a4]" "take 2 (drop 5 s) = [b1, b2]"
    "take 2 (drop 8 s) = [c1, c2]" "take 2 (drop 11 s) = [d1, d2]" "take 2 (drop 14 s) = [e1, e2]"
    "take 2 (drop 17 s) = [f1, f2]" "take 3 (drop 20 s) = [g1, g2, g3]" "length s = 24"
    "s ! 4 = CHR ''-''" "s ! 7 = CHR ''-''" "s ! 10 = CHR ''T''" "s ! 13 = CHR '':''" "s ! 16 = CHR '':''"
    "s ! 19 = CHR ''.''" "s ! 23 = CHR ''Z''"
    by (simp_all add: s_def)
  have digits: "list_all isDigit ([a1, a2, a3, a4] @ [b1, b2] @ [c1, c2] @ [d1, d2] @ [e1, e2] @ [f1, f2] @ [g1, g2, g3])"
    using a(2-) b(2-) c(2-) d(2-) e(2-) f(2-) g(2-) by simp
  have "parseIso s = Some ((daysBeforeYear (y - 1970) + sum_list (take (m - 1) (monthLengths y)) + (d - 1)) * 86400000 +
      hh * 3600000 + mi * 60000 + se * 1000 + ms)"
    unfolding parseIso_def Let_def slices val by (rule if_P) (intro conjI refl digits assms)
  then show ?thesis unfolding a(1) b(1) c(1) d(1) e(1) f(1) g(1) s_def by (simp only: append.simps)
qed

lemma monthLengths_bound:
  assumes "i < 12" shows "monthLengths y ! i < 100"
proof -
  have "\<forall>l \<in> set (monthLengths y). l < 100" "length (monthLengths y) = 12" by (simp_all add: monthLengths_def)
  then show ?thesis using assms by (metis nth_mem)
qed

lemma parseIso_toISOString:
  assumes "t < 250000000000000"
  shows "parseIso (toISOString t) = Some t"
proof -
  define d where "d = t div 86400000"
  define ms where "ms = t mod 86400000"
  obtain y yd where y: "findYear 1970 d = (y, yd)" by (cases "findYear 1970 d")
  have fy: "1970 \<le> y" "yd < yearLength y" "d = daysBeforeYear (y - 1970) + yd"
    using findYear_spec [of 0 d y yd] y by auto
  have "d < 2893519" using assms unfolding d_def by (simp add: div_less_iff_less_mult)
  then have y4: "y < 10000" using fy(3) daysBeforeYear_ge [of "y - 1970"] by simp
  obtain m md where m: "findMonth (monthLengths y) 1 yd = (m, md)" by (cases "findMonth (monthLengths y) 1 yd")
  have len: "length (monthLengths y) = 12" by (simp add: monthLengths_def)
  have fm: "1 \<le> m" "m \<le> 12" "md < monthLengths y ! (m - 1)" "yd = sum_list (take (m - 1) (monthLengths y)) + md"
    using findMonth_spec [of yd "monthLengths y" 1 m md] m fy(2) by (auto simp: monthLengths_sum len)
  have "monthLengths y ! (m - 1) < 100" using fm(1,2) by (intro monthLengths_bound) simp
  then have md: "Suc md < 100" "Suc md \<le> monthLengths y ! (m - 1)" using fm(3) by simp_all
  have ms: "ms < 86400000" by (simp add: ms_def)
  then have h: "ms div 3600000 < 24" by (simp add: div_less_iff_less_mult)
  have split: "ms div 3600000 * 3600000 + ms div 60000 mod 60 * 60000 + ms div 1000 mod 60 * 1000 + ms mod 1000 = ms"
  proof -
    have "ms div 60000 div 60 = ms div 3600000" "ms div 1000 div 60 = ms div 60000"
      by (simp_all add: div_mult2_eq [symmetric])
    then have "ms div 60000 = 60 * (ms div 3600000) + ms div 60000 mod 60"
      "ms div 1000 = 60 * (ms div 60000) + ms div 1000 mod 60"
      by (metis mult_div_mod_eq)+
    moreover have "ms = 1000 * (ms div 1000) + ms mod 1000" by simp
    ultimately show ?thesis by linarith
  qed
  have "t = d * 86400000 + ms" by (simp add: d_def ms_def)
  moreover have "parseIso (toISOString t) =
      Some ((daysBeforeYear (y - 1970) + sum_list (take (m - 1) (monthLengths y)) + (Suc md - 1)) * 86400000 +
        ms div 3600000 * 3600000 + ms div 60000 mod 60 * 60000 + ms div 1000 mod 60 * 1000 + ms mod 1000)"
    unfolding toISOString_def Let_def d_def [symmetric] ms_def [symmetric] y m prod.case
    by (rule parseIso_fields) (use fy y4 fm md h in auto)
  moreover have "daysBeforeYear (y - 1970) + sum_list (take (m - 1) (monthLengths y)) + (Suc md - 1) = d"
    using fy(3) fm(4) by simp
  ultimately show ?thesis using split by (simp only: add.assoc)
qed

end
