(* ===== verification/Js_Sort.thy ===== *)
theory Js_Sort
  imports Prelude "HOL-Library.Multiset"
begin

text \<open>
  \<open>Array.prototype.sort\<close> with a comparison function, which the language requires to
  be stable, and the loop that keeps the best element seen so far.  The interface
  \<open>js_comparator\<close> says what the language asks of a comparison function; what the
  two loops compute is proved from it once, for every comparison of the SDK.
\<close>

fun jsInsert :: "('a \<Rightarrow> 'a \<Rightarrow> int) \<Rightarrow> 'a \<Rightarrow> 'a list \<Rightarrow> 'a list" where
  "jsInsert cmp x [] = [x]"
| "jsInsert cmp x (y # ys) = (if cmp x y \<le> 0 then x # y # ys else y # jsInsert cmp x ys)"

definition jsSort :: "('a \<Rightarrow> 'a \<Rightarrow> int) \<Rightarrow> 'a list \<Rightarrow> 'a list" where
  "jsSort cmp xs = foldr (jsInsert cmp) xs []"

definition keepBest :: "('a \<Rightarrow> 'a \<Rightarrow> int) \<Rightarrow> 'a option \<Rightarrow> 'a \<Rightarrow> 'a option" where
  "keepBest cmp best x =
     (case best of None \<Rightarrow> Some x | Some b \<Rightarrow> if cmp x b < 0 then Some x else Some b)"

definition pickBest :: "('a \<Rightarrow> 'a \<Rightarrow> int) \<Rightarrow> 'a list \<Rightarrow> 'a option" where
  "pickBest cmp xs = foldl (keepBest cmp) None xs"

lemma jsInsert_mset [simp]: "mset (jsInsert cmp x ys) = add_mset x (mset ys)"
  by (induction ys) auto

lemma jsInsert_set [simp]: "set (jsInsert cmp x ys) = insert x (set ys)"
  by (induction ys) auto

lemma jsSort_mset [simp]: "mset (jsSort cmp xs) = mset xs"
  by (induction xs) (auto simp: jsSort_def)

lemma jsSort_set [simp]: "set (jsSort cmp xs) = set xs"
  by (induction xs) (auto simp: jsSort_def)

lemma jsSort_length [simp]: "length (jsSort cmp xs) = length xs"
  by (simp only: size_mset [symmetric] jsSort_mset)

lemma foldl_keepBest_set: "foldl (keepBest cmp) best xs = Some b \<Longrightarrow> b \<in> set xs \<or> best = Some b"
proof (induction xs arbitrary: best)
  case (Cons x xs)
  have "keepBest cmp best x = Some b \<Longrightarrow> b = x \<or> best = Some b"
    by (auto simp: keepBest_def split: option.splits if_splits)
  with Cons show ?case by auto
qed simp

lemma foldl_keepBest_Some: "\<exists>b. foldl (keepBest cmp) (Some a) xs = Some b"
  by (induction xs arbitrary: a) (auto simp: keepBest_def)

lemma pickBest_None [simp]: "pickBest cmp xs = None \<longleftrightarrow> xs = []"
proof (cases xs)
  case (Cons a ys)
  then show ?thesis using foldl_keepBest_Some [of cmp a ys] by (auto simp: pickBest_def keepBest_def)
qed (simp add: pickBest_def)

lemma pickBest_in_set: "pickBest cmp xs = Some b \<Longrightarrow> b \<in> set xs"
  using foldl_keepBest_set [of cmp None xs b] by (auto simp: pickBest_def)

locale js_comparator =
  fixes cmp :: "'a \<Rightarrow> 'a \<Rightarrow> int"
  assumes cmp_sym: "sgn (cmp x y) = - sgn (cmp y x)"
    and cmp_trans: "cmp x y \<le> 0 \<Longrightarrow> cmp y z \<le> 0 \<Longrightarrow> cmp x z \<le> 0"
begin

lemma cmp_total: "cmp x y \<le> 0 \<or> cmp y x \<le> 0"
  using cmp_sym [of x y] by (auto simp: sgn_if split: if_splits)

lemma cmp_refl [simp]: "cmp x x \<le> 0"
  using cmp_total by blast

lemma cmp_less: "cmp x y < 0 \<longleftrightarrow> \<not> cmp y x \<le> 0"
  using cmp_sym [of x y] by (auto simp: sgn_if split: if_splits)

lemma sorted_jsInsert:
  "sorted_wrt (\<lambda>x y. cmp x y \<le> 0) ys \<Longrightarrow> sorted_wrt (\<lambda>x y. cmp x y \<le> 0) (jsInsert cmp x ys)"
proof (induction ys)
  case (Cons y ys)
  show ?case
  proof (cases "cmp x y \<le> 0")
    case True
    moreover have "cmp x z \<le> 0" if "z \<in> set ys" for z
      using that True Cons.prems cmp_trans [of x y z] by simp
    ultimately show ?thesis using Cons.prems by simp
  next
    case False
    then have "cmp y x \<le> 0" using cmp_total by blast
    then show ?thesis using False Cons by simp
  qed
qed simp

lemma sorted_jsSort: "sorted_wrt (\<lambda>x y. cmp x y \<le> 0) (jsSort cmp xs)"
  by (induction xs) (auto simp: jsSort_def intro: sorted_jsInsert)

lemma foldl_keepBest_least:
  "foldl (keepBest cmp) best xs = Some b \<Longrightarrow>
   (\<forall>x \<in> set xs. cmp b x \<le> 0) \<and> (\<forall>a. best = Some a \<longrightarrow> cmp b a \<le> 0)"
proof (induction xs arbitrary: best)
  case (Cons x xs)
  then have IH: "\<forall>x \<in> set xs. cmp b x \<le> 0" "\<And>a. keepBest cmp best x = Some a \<Longrightarrow> cmp b a \<le> 0" by auto
  obtain a where a: "keepBest cmp best x = Some a" "cmp a x \<le> 0" "\<And>c. best = Some c \<Longrightarrow> cmp a c \<le> 0"
  proof (cases best)
    case (Some c)
    show ?thesis
    proof (cases "cmp x c < 0")
      case True
      then show ?thesis using that [of x] Some by (simp add: keepBest_def)
    next
      case False
      then have "cmp c x \<le> 0" by (simp add: cmp_less)
      then show ?thesis using that [of c] Some False by (simp add: keepBest_def)
    qed
  qed (use that [of x] in \<open>simp add: keepBest_def\<close>)
  have "cmp b a \<le> 0" using IH(2) a(1) .
  then have "cmp b x \<le> 0" "\<And>c. best = Some c \<Longrightarrow> cmp b c \<le> 0" using a(2,3) cmp_trans by blast+
  then show ?case using IH(1) by simp
qed simp

lemma pickBest_least: "pickBest cmp xs = Some b \<Longrightarrow> x \<in> set xs \<Longrightarrow> cmp b x \<le> 0"
  using foldl_keepBest_least [of None xs b] by (auto simp: pickBest_def)

end

end
