(* ===== verification/Pool_Core.thy ===== *)
theory Pool_Core
  imports Sandbox_Info Iso_Date Js_Sort "HOL-Library.List_Lexorder" "HOL-Library.Char_ord"
begin

text \<open>
  \<open>pool/core.ts\<close>: the record of a parked sandbox and its JSON form, the choice of
  the slot to hand out, staleness, reconciliation, the backoff of the filler and
  the statistics.  Moments are milliseconds; strings are Latin-1, in which the
  order of characters is the order of the language.  Numbers in a document are
  integers; where the source would go on with \<open>NaN\<close> the model reports
  \<open>NumberExpected\<close>.
\<close>

section \<open>Slots\<close>

datatype SlotState = Warming | Ready
datatype ReconcileAction = Keep | Repark | Check | Drop

record SlotRecord =
  sandboxId :: string
  accessToken :: string
  slotEndpoint :: string
  slotTemplate :: string
  slotTemplateVersion :: string
  startedAt :: nat
  maximumDurationSeconds :: int
  slotRegion :: string
  slotState :: SlotState
  slotIdle :: "IdlePolicy option"
  slotRole :: "string option"
  slotIngress :: "string list"
  slotEgress :: "string list"
  parkedAt :: "nat option"

definition expiresAt :: "SlotRecord \<Rightarrow> int" where
  "expiresAt r = int (startedAt r) + maximumDurationSeconds r * 1000"

definition remainingMs :: "SlotRecord \<Rightarrow> int \<Rightarrow> int" where
  "remainingMs r now = max 0 (expiresAt r - now)"

definition REDACTED :: string where "REDACTED = ''<redacted>''"

text \<open>The four fields of what is logged of a slot.\<close>

definition describeRecord :: "SlotRecord \<Rightarrow> string \<times> SlotState \<times> string \<times> string" where
  "describeRecord r = (sandboxId r, slotState r, REDACTED, toISOString (nat (expiresAt r)))"

definition recordFromInfo ::
  "SandboxInfo \<Rightarrow> string \<Rightarrow> string \<Rightarrow> SlotState \<Rightarrow> nat option \<Rightarrow> SlotRecord" where
  "recordFromInfo info token region st parked =
     \<lparr>sandboxId = infoSandboxId info, accessToken = token, slotEndpoint = infoEndpoint info,
      slotTemplate = infoTemplate info, slotTemplateVersion = infoTemplateVersion info,
      startedAt = nat (infoStartedAt info), maximumDurationSeconds = infoMaximumDurationSeconds info,
      slotRegion = region, slotState = st, slotIdle = infoIdle info, slotRole = infoExecutionRoleArn info,
      slotIngress = [], slotEgress = [], parkedAt = parked\<rparr>"

definition sandboxInfoFromRecord :: "SlotRecord \<Rightarrow> string \<Rightarrow> SandboxInfo" where
  "sandboxInfoFromRecord r st = sandboxInfo
     \<lparr>infoSandboxId = sandboxId r, infoState = st, infoEndpoint = slotEndpoint r,
      infoTemplate = slotTemplate r, infoTemplateVersion = slotTemplateVersion r,
      infoStartedAt = int (startedAt r), infoMaximumDurationSeconds = maximumDurationSeconds r,
      infoTerminatedAt = None, infoStateReason = None, infoIdle = slotIdle r,
      infoExecutionRoleArn = slotRole r, infoIngress = None, infoEgress = None, infoLifecycle = None,
      infoAgentVersion = None, infoCpuCount = None, infoMemoryMb = None, infoMetadata = None,
      infoSize = None, infoBaselineMemoryMib = None, infoBaselineCpu = None\<rparr>"

section \<open>The JSON form\<close>

datatype json =
    JNull | JBool bool | JNum int | JStr string | JArr "json list" | JObj "(string \<times> json) list"

datatype slot_error =
    MissingField string | NotADate string | NumberExpected | NotAList | NotAnObject | UnknownState string

text \<open>\<open>data[key]\<close>: the last of several equal keys, as \<open>JSON.parse\<close> keeps it.\<close>

definition jsonField :: "(string \<times> json) list \<Rightarrow> string \<Rightarrow> json option" where
  "jsonField kvs key = map_of (rev kvs) key"

text \<open>\<open>String(value)\<close>, \<open>Number(value)\<close> and \<open>Boolean(value)\<close> of a document value.\<close>

definition showInt :: "int \<Rightarrow> string" where
  "showInt n = (if n < 0 then ''-'' else []) @ showDigits 10 (nat \<bar>n\<bar>)"

fun jsString :: "json \<Rightarrow> string" where
  "jsString JNull = ''null''"
| "jsString (JBool b) = (if b then ''true'' else ''false'')"
| "jsString (JNum n) = showInt n"
| "jsString (JStr s) = s"
| "jsString (JArr vs) = joinWith '','' (map (\<lambda>v. if v = JNull then [] else jsString v) vs)"
| "jsString (JObj kvs) = ''[object Object]''"

definition jsNumber :: "json \<Rightarrow> slot_error + int" where
  "jsNumber v = (case v of JNum n \<Rightarrow> Inr n | _ \<Rightarrow> Inl NumberExpected)"

definition jsTruthy :: "json \<Rightarrow> bool" where
  "jsTruthy v = (case v of JNull \<Rightarrow> False | JBool b \<Rightarrow> b | JNum n \<Rightarrow> n \<noteq> 0 | JStr s \<Rightarrow> s \<noteq> [] | _ \<Rightarrow> True)"

definition slotStateName :: "SlotState \<Rightarrow> string" where
  "slotStateName st = (case st of Warming \<Rightarrow> ''warming'' | Ready \<Rightarrow> ''ready'')"

definition jOption :: "('a \<Rightarrow> json) \<Rightarrow> 'a option \<Rightarrow> json" where
  "jOption f x = (case x of None \<Rightarrow> JNull | Some y \<Rightarrow> f y)"

definition idleToJson :: "IdlePolicy \<Rightarrow> json" where
  "idleToJson idle = JObj [(''max_idle_seconds'', JNum (maxIdleSeconds idle)),
     (''suspended_duration_seconds'', jOption JNum (suspendedDurationSeconds idle)),
     (''auto_resume'', JBool (idleAutoResume idle))]"

definition recordToJson :: "SlotRecord \<Rightarrow> json" where
  "recordToJson r = JObj
     [(''sandbox_id'', JStr (sandboxId r)), (''access_token'', JStr (accessToken r)),
      (''endpoint'', JStr (slotEndpoint r)), (''template'', JStr (slotTemplate r)),
      (''template_version'', JStr (slotTemplateVersion r)),
      (''started_at'', JStr (toISOString (startedAt r))),
      (''maximum_duration_seconds'', JNum (maximumDurationSeconds r)),
      (''region'', JStr (slotRegion r)), (''state'', JStr (slotStateName (slotState r))),
      (''idle'', jOption idleToJson (slotIdle r)),
      (''execution_role_arn'', jOption JStr (slotRole r)),
      (''ingress'', JArr (map JStr (slotIngress r))), (''egress'', JArr (map JStr (slotEgress r))),
      (''parked_at'', jOption (\<lambda>t. JStr (toISOString t)) (parkedAt r))]"

definition requiredField :: "(string \<times> json) list \<Rightarrow> string \<Rightarrow> slot_error + json" where
  "requiredField kvs key = (case jsonField kvs key of None \<Rightarrow> Inl (MissingField key) | Some v \<Rightarrow> Inr v)"

definition stringField :: "(string \<times> json) list \<Rightarrow> string \<Rightarrow> slot_error + string" where
  "stringField kvs key = andThen (requiredField kvs key) (\<lambda>v. Inr (jsString v))"

definition dateField :: "(string \<times> json) list \<Rightarrow> string \<Rightarrow> slot_error + nat" where
  "dateField kvs key = andThen (stringField kvs key)
     (\<lambda>s. case parseIso s of None \<Rightarrow> Inl (NotADate key) | Some t \<Rightarrow> Inr t)"

definition idleFromJson :: "json option \<Rightarrow> slot_error + IdlePolicy option" where
  "idleFromJson v =
     (case v of
        Some (JObj kvs) \<Rightarrow>
          andThen (case jsonField kvs ''max_idle_seconds'' of None \<Rightarrow> Inl NumberExpected | Some n \<Rightarrow> jsNumber n) (\<lambda>maxIdle.
          andThen (case jsonField kvs ''suspended_duration_seconds'' of
                     None \<Rightarrow> Inr None | Some JNull \<Rightarrow> Inr None
                   | Some n \<Rightarrow> andThen (jsNumber n) (\<lambda>s. Inr (Some s))) (\<lambda>suspended.
          Inr (Some \<lparr>maxIdleSeconds = maxIdle, suspendedDurationSeconds = suspended,
            idleAutoResume = (case jsonField kvs ''auto_resume'' of None \<Rightarrow> True | Some b \<Rightarrow> jsTruthy b)\<rparr>)))
      | Some (JArr _) \<Rightarrow> Inl NumberExpected
      | _ \<Rightarrow> Inr None)"

definition stringList :: "json option \<Rightarrow> slot_error + string list" where
  "stringList v =
     (case v of None \<Rightarrow> Inr [] | Some JNull \<Rightarrow> Inr []
      | Some (JArr vs) \<Rightarrow> Inr (map jsString vs) | Some _ \<Rightarrow> Inl NotAList)"

definition parseSlotState :: "string \<Rightarrow> slot_error + SlotState" where
  "parseSlotState s =
     (if s = ''warming'' then Inr Warming else if s = ''ready'' then Inr Ready else Inl (UnknownState s))"

definition recordFromJson :: "json \<Rightarrow> slot_error + SlotRecord" where
  "recordFromJson v =
     (case v of
        JObj kvs \<Rightarrow>
          andThen (stringField kvs ''state'') (\<lambda>stName. andThen (parseSlotState stName) (\<lambda>st.
          andThen (stringField kvs ''sandbox_id'') (\<lambda>sid. andThen (stringField kvs ''endpoint'') (\<lambda>ep.
          andThen (stringField kvs ''template'') (\<lambda>tpl. andThen (stringField kvs ''template_version'') (\<lambda>ver.
          andThen (dateField kvs ''started_at'') (\<lambda>started.
          andThen (andThen (requiredField kvs ''maximum_duration_seconds'') jsNumber) (\<lambda>dur.
          andThen (stringField kvs ''region'') (\<lambda>reg.
          andThen (idleFromJson (jsonField kvs ''idle'')) (\<lambda>idle.
          andThen (stringList (jsonField kvs ''ingress'')) (\<lambda>ing. andThen (stringList (jsonField kvs ''egress'')) (\<lambda>eg.
          andThen (case jsonField kvs ''parked_at'' of None \<Rightarrow> Inr None | Some JNull \<Rightarrow> Inr None
                   | Some _ \<Rightarrow> andThen (dateField kvs ''parked_at'') (\<lambda>t. Inr (Some t))) (\<lambda>parked.
          andThen (stringField kvs ''access_token'') (\<lambda>token.
          Inr \<lparr>sandboxId = sid, accessToken = token, slotEndpoint = ep, slotTemplate = tpl,
               slotTemplateVersion = ver, startedAt = started, maximumDurationSeconds = dur, slotRegion = reg,
               slotState = st, slotIdle = idle,
               slotRole = (case jsonField kvs ''execution_role_arn'' of None \<Rightarrow> None | Some JNull \<Rightarrow> None
                           | Some r \<Rightarrow> Some (jsString r)),
               slotIngress = ing, slotEgress = eg, parkedAt = parked\<rparr>))))))))))))))
      | _ \<Rightarrow> Inl NotAnObject)"

section \<open>Choosing and judging slots\<close>

definition compareByExpiry :: "SlotRecord \<Rightarrow> SlotRecord \<Rightarrow> int" where
  "compareByExpiry a b =
     (let delta = expiresAt a - expiresAt b in
      if delta \<noteq> 0 then delta
      else if sandboxId a < sandboxId b then -1 else if sandboxId a > sandboxId b then 1 else 0)"

definition slotIsStale :: "SlotRecord \<Rightarrow> int \<Rightarrow> int \<Rightarrow> bool" where
  "slotIsStale r now minRemaining \<longleftrightarrow> remainingMs r now < minRemaining"

definition pickStep :: "int \<Rightarrow> int \<Rightarrow> SlotRecord option \<Rightarrow> SlotRecord \<Rightarrow> SlotRecord option" where
  "pickStep now minRemaining best r =
     (if slotState r \<noteq> Ready \<or> slotIsStale r now minRemaining then best
      else case best of None \<Rightarrow> Some r | Some b \<Rightarrow> if compareByExpiry r b < 0 then Some r else Some b)"

definition pickReadySlot :: "SlotRecord list \<Rightarrow> int \<Rightarrow> int \<Rightarrow> SlotRecord option" where
  "pickReadySlot records now minRemaining = foldl (pickStep now minRemaining) None records"

definition ownsSlot :: "SlotRecord \<Rightarrow> string option \<Rightarrow> bool" where
  "ownsSlot r imageArn \<longleftrightarrow> Some (slotTemplate r) = imageArn"

definition reconcileAction :: "SlotRecord \<Rightarrow> string option \<Rightarrow> ReconcileAction" where
  "reconcileAction r listed =
     (if slotState r \<noteq> Ready then Keep
      else case listed of
        None \<Rightarrow> Check
      | Some st \<Rightarrow> if st = ''RUNNING'' then Repark
                  else if st \<in> {''TERMINATING'', ''TERMINATED''} then Drop else Keep)"

section \<open>Backoff of the filler\<close>

text \<open>\<open>random\<close> is what \<open>Math.random\<close> returned, from 0 up to 1.\<close>

definition initialDelayMs :: rat where "initialDelayMs = 1000"
definition maxDelayMs :: rat where "maxDelayMs = 60000"
definition backoffJitter :: rat where "backoffJitter = 1 / 4"

definition nextDelayMs :: "rat \<Rightarrow> rat \<Rightarrow> rat \<times> rat" where
  "nextDelayMs delayMs random =
     (max 0 (delayMs * (1 + backoffJitter * (2 * random - 1))), min (delayMs * 2) maxDelayMs)"

fun delaysFrom :: "rat \<Rightarrow> rat list \<Rightarrow> rat list" where
  "delaysFrom delayMs [] = []"
| "delaysFrom delayMs (r # rs) = (let (d, next) = nextDelayMs delayMs r in d # delaysFrom next rs)"

section \<open>Statistics\<close>

record PoolSlotInfo =
  statSandboxId :: string
  statState :: SlotState
  statStartedAt :: nat
  statExpiresAt :: int
  statParkedAt :: "nat option"

record PoolCounters =
  takes :: nat
  hits :: nat
  misses :: nat
  launched :: nat
  recycled :: nat
  lost :: nat
  failed :: nat

record PoolStats =
  statSize :: nat
  statReady :: nat
  statWarming :: nat
  statCounters :: PoolCounters
  statSlots :: "PoolSlotInfo list"

definition newCounters :: PoolCounters where
  "newCounters = \<lparr>takes = 0, hits = 0, misses = 0, launched = 0, recycled = 0, lost = 0, failed = 0\<rparr>"

definition slotInfoFromRecord :: "SlotRecord \<Rightarrow> PoolSlotInfo" where
  "slotInfoFromRecord r = \<lparr>statSandboxId = sandboxId r, statState = slotState r, statStartedAt = startedAt r,
     statExpiresAt = expiresAt r, statParkedAt = parkedAt r\<rparr>"

definition statsFromRecords :: "SlotRecord list \<Rightarrow> nat \<Rightarrow> nat \<Rightarrow> PoolCounters \<Rightarrow> PoolStats" where
  "statsFromRecords records sz warming counters =
     (let ordered = jsSort compareByExpiry records in
      \<lparr>statSize = sz, statReady = length (filter (\<lambda>r. slotState r = Ready) ordered), statWarming = warming,
       statCounters = counters, statSlots = map slotInfoFromRecord ordered\<rparr>)"

definition POOL_REJECTED_OPTIONS :: "string list" where
  "POOL_REJECTED_OPTIONS = [''template'', ''templateVersion'', ''timeoutMs'', ''maxLifetimeMs'', ''onTimeout'',
     ''idle'', ''envs'', ''metadata'', ''cpuTimeLimit'', ''executionRoleArn'', ''allowedPorts'', ''ingress'',
     ''egress'', ''logging'', ''region'', ''client'', ''accessToken'', ''keepOnFailure'', ''controlPlane'',
     ''transport'', ''mounts'', ''volumes'', ''size'', ''events'', ''telemetry'', ''gateways'', ''domain'']"

text \<open>\<open>defined name\<close> says that the option is present and not \<open>undefined\<close>.\<close>

definition rejectedPoolOption :: "(string \<Rightarrow> bool) \<Rightarrow> string option" where
  "rejectedPoolOption defined = List.find defined POOL_REJECTED_OPTIONS"

definition rejectLaunchOptionsWithPool :: "(string \<Rightarrow> bool) \<Rightarrow> string + unit" where
  "rejectLaunchOptionsWithPool defined =
     (case rejectedPoolOption defined of None \<Rightarrow> Inr () | Some offending \<Rightarrow> Inl offending)"

text \<open>A slot that may be handed out.\<close>

definition available :: "int \<Rightarrow> int \<Rightarrow> SlotRecord \<Rightarrow> bool" where
  "available now minRemaining r \<longleftrightarrow> slotState r = Ready \<and> \<not> slotIsStale r now minRemaining"

section \<open>Lemmas\<close>

interpretation expiry: js_comparator compareByExpiry
proof
  fix x y z
  show "sgn (compareByExpiry x y) = - sgn (compareByExpiry y x)"
    by (auto simp: compareByExpiry_def Let_def sgn_if)
  assume "compareByExpiry x y \<le> 0" "compareByExpiry y z \<le> 0"
  then show "compareByExpiry x z \<le> 0"
    by (auto simp: compareByExpiry_def Let_def split: if_splits)
qed

lemma pickReadySlot_pickBest:
  "pickReadySlot records now m = pickBest compareByExpiry (filter (available now m) records)"
proof -
  have "foldl (pickStep now m) best records =
      foldl (keepBest compareByExpiry) best (filter (available now m) records)" for best
    by (induction records arbitrary: best) (auto simp: pickStep_def keepBest_def available_def)
  then show ?thesis by (simp add: pickReadySlot_def pickBest_def)
qed

lemma pickReadySlot_Some:
  assumes "pickReadySlot records now m = Some r"
  shows "r \<in> set records" "available now m r"
    "\<And>r'. r' \<in> set records \<Longrightarrow> available now m r' \<Longrightarrow> compareByExpiry r r' \<le> 0"
  using assms pickBest_in_set [of compareByExpiry "filter (available now m) records" r]
    expiry.pickBest_least [of "filter (available now m) records" r]
  by (auto simp: pickReadySlot_pickBest)

lemma pickReadySlot_None: "pickReadySlot records now m = None \<longleftrightarrow> (\<forall>r \<in> set records. \<not> available now m r)"
  by (auto simp: pickReadySlot_pickBest filter_empty_conv)

lemma compareByExpiry_le: "compareByExpiry a b \<le> 0 \<Longrightarrow> expiresAt a \<le> expiresAt b"
  by (auto simp: compareByExpiry_def Let_def split: if_splits)

lemma nextDelayMs_bounds:
  assumes "0 \<le> random" "random < 1" "initialDelayMs \<le> d" "d \<le> maxDelayMs"
  shows "3 / 4 * d \<le> fst (nextDelayMs d random)" "fst (nextDelayMs d random) < 5 / 4 * d"
    "initialDelayMs \<le> snd (nextDelayMs d random)" "snd (nextDelayMs d random) \<le> maxDelayMs"
proof -
  have d: "0 < d" using assms(3) by (simp add: initialDelayMs_def)
  have eq: "d * (1 + backoffJitter * (2 * random - 1)) = 3 / 4 * d + d * random / 2"
    by (simp add: backoffJitter_def field_simps)
  have r: "0 \<le> d * random" "d * random < d" using assms d by simp_all
  then have "max 0 (d * (1 + backoffJitter * (2 * random - 1))) = 3 / 4 * d + d * random / 2"
    unfolding eq using d by simp
  then show "3 / 4 * d \<le> fst (nextDelayMs d random)" "fst (nextDelayMs d random) < 5 / 4 * d"
    using r by (simp_all add: nextDelayMs_def)
  show "initialDelayMs \<le> snd (nextDelayMs d random)" "snd (nextDelayMs d random) \<le> maxDelayMs"
    using assms by (auto simp: nextDelayMs_def initialDelayMs_def maxDelayMs_def)
qed

lemma jsString_JStr: "map (jsString \<circ> JStr) xs = xs"
  by (simp add: comp_def)

lemma slotState_roundtrip: "parseSlotState (slotStateName st) = Inr st"
  by (cases st) (simp_all add: parseSlotState_def slotStateName_def)

lemma idle_roundtrip: "idleFromJson (Some (jOption idleToJson idle)) = Inr idle"
proof (cases idle)
  case (Some p)
  then show ?thesis
    by (cases "suspendedDurationSeconds p")
      (simp_all add: idleFromJson_def jOption_def idleToJson_def jsonField_def jsNumber_def jsTruthy_def)
qed (simp add: idleFromJson_def jOption_def)


text \<open>What a reader finds in the written object, key by key.\<close>

lemma recordToJson_fields:
  obtains kvs where "recordToJson r = JObj kvs"
    "jsonField kvs ''state'' = Some (JStr (slotStateName (slotState r)))"
    "jsonField kvs ''sandbox_id'' = Some (JStr (sandboxId r))"
    "jsonField kvs ''endpoint'' = Some (JStr (slotEndpoint r))"
    "jsonField kvs ''template'' = Some (JStr (slotTemplate r))"
    "jsonField kvs ''template_version'' = Some (JStr (slotTemplateVersion r))"
    "jsonField kvs ''started_at'' = Some (JStr (toISOString (startedAt r)))"
    "jsonField kvs ''maximum_duration_seconds'' = Some (JNum (maximumDurationSeconds r))"
    "jsonField kvs ''region'' = Some (JStr (slotRegion r))"
    "jsonField kvs ''idle'' = Some (jOption idleToJson (slotIdle r))"
    "jsonField kvs ''execution_role_arn'' = Some (jOption JStr (slotRole r))"
    "jsonField kvs ''ingress'' = Some (JArr (map JStr (slotIngress r)))"
    "jsonField kvs ''egress'' = Some (JArr (map JStr (slotEgress r)))"
    "jsonField kvs ''parked_at'' = Some (jOption (\<lambda>t. JStr (toISOString t)) (parkedAt r))"
    "jsonField kvs ''access_token'' = Some (JStr (accessToken r))"
  by (rule that, simp add: recordToJson_def) (simp_all add: jsonField_def)

lemma recordFromJson_recordToJson:
  assumes "startedAt r < 250000000000000" "\<And>t. parkedAt r = Some t \<Longrightarrow> t < 250000000000000"
  shows "recordFromJson (recordToJson r) = Inr r"
proof -
  obtain kvs where kvs: "recordToJson r = JObj kvs"
    and f: "jsonField kvs ''state'' = Some (JStr (slotStateName (slotState r)))"
    "jsonField kvs ''sandbox_id'' = Some (JStr (sandboxId r))"
    "jsonField kvs ''endpoint'' = Some (JStr (slotEndpoint r))"
    "jsonField kvs ''template'' = Some (JStr (slotTemplate r))"
    "jsonField kvs ''template_version'' = Some (JStr (slotTemplateVersion r))"
    "jsonField kvs ''started_at'' = Some (JStr (toISOString (startedAt r)))"
    "jsonField kvs ''maximum_duration_seconds'' = Some (JNum (maximumDurationSeconds r))"
    "jsonField kvs ''region'' = Some (JStr (slotRegion r))"
    "jsonField kvs ''idle'' = Some (jOption idleToJson (slotIdle r))"
    "jsonField kvs ''execution_role_arn'' = Some (jOption JStr (slotRole r))"
    "jsonField kvs ''ingress'' = Some (JArr (map JStr (slotIngress r)))"
    "jsonField kvs ''egress'' = Some (JArr (map JStr (slotEgress r)))"
    "jsonField kvs ''parked_at'' = Some (jOption (\<lambda>t. JStr (toISOString t)) (parkedAt r))"
    "jsonField kvs ''access_token'' = Some (JStr (accessToken r))"
    by (rule recordToJson_fields)
  have parked: "(case jsonField kvs ''parked_at'' of None \<Rightarrow> Inr None | Some JNull \<Rightarrow> Inr None
      | Some _ \<Rightarrow> andThen (dateField kvs ''parked_at'') (\<lambda>t. Inr (Some t))) = Inr (parkedAt r)"
    using assms(2) by (cases "parkedAt r")
      (simp_all add: f jOption_def dateField_def stringField_def requiredField_def parseIso_toISOString)
  have role: "(case jsonField kvs ''execution_role_arn'' of None \<Rightarrow> None | Some JNull \<Rightarrow> None
      | Some r \<Rightarrow> Some (jsString r)) = slotRole r"
    by (cases "slotRole r") (simp_all add: f jOption_def)
  have started: "dateField kvs ''started_at'' = Inr (startedAt r)"
    using assms(1) by (simp add: f dateField_def stringField_def requiredField_def parseIso_toISOString)
  have str: "stringField kvs ''state'' = Inr (slotStateName (slotState r))"
    "stringField kvs ''sandbox_id'' = Inr (sandboxId r)" "stringField kvs ''endpoint'' = Inr (slotEndpoint r)"
    "stringField kvs ''template'' = Inr (slotTemplate r)"
    "stringField kvs ''template_version'' = Inr (slotTemplateVersion r)"
    "stringField kvs ''region'' = Inr (slotRegion r)" "stringField kvs ''access_token'' = Inr (accessToken r)"
    by (simp_all add: f stringField_def requiredField_def)
  have dur: "andThen (requiredField kvs ''maximum_duration_seconds'') jsNumber = Inr (maximumDurationSeconds r)"
    by (simp add: f requiredField_def jsNumber_def)
  have lists: "stringList (jsonField kvs ''ingress'') = Inr (slotIngress r)"
    "stringList (jsonField kvs ''egress'') = Inr (slotEgress r)"
    by (simp_all add: f stringList_def comp_def)
  show ?thesis
    unfolding recordFromJson_def kvs json.case str started dur lists parked role f(9) idle_roundtrip
      slotState_roundtrip andThen_simps by simp
qed


lemma delaysFrom_bounds:
  "i < length rs \<Longrightarrow> \<forall>r \<in> set rs. 0 \<le> r \<and> r < 1 \<Longrightarrow> initialDelayMs \<le> d \<Longrightarrow> d \<le> maxDelayMs \<Longrightarrow>
   3 / 4 * min (d * 2 ^ i) maxDelayMs \<le> delaysFrom d rs ! i \<and>
   delaysFrom d rs ! i < 5 / 4 * min (d * 2 ^ i) maxDelayMs"
proof (induction rs arbitrary: d i)
  case (Cons r rs)
  note b = nextDelayMs_bounds [of r d]
  show ?case
  proof (cases i)
    case 0
    then show ?thesis using b Cons.prems by (simp add: case_prod_unfold Let_def)
  next
    case (Suc j)
    have "min (min (d * 2) maxDelayMs * 2 ^ j) maxDelayMs = min (d * 2 ^ Suc j) maxDelayMs"
    proof (cases "d * 2 \<le> maxDelayMs")
      case False
      have "maxDelayMs \<le> maxDelayMs * 2 ^ j" by (simp add: maxDelayMs_def)
      moreover have "maxDelayMs * 2 ^ j \<le> d * 2 * 2 ^ j" using False by (intro mult_right_mono) auto
      ultimately have "maxDelayMs \<le> maxDelayMs * 2 ^ j" "maxDelayMs \<le> d * 2 ^ Suc j"
        by (simp_all only: power_Suc mult.assoc)
      then have "min (maxDelayMs * 2 ^ j) maxDelayMs = maxDelayMs" "min (d * 2 ^ Suc j) maxDelayMs = maxDelayMs"
        by (simp_all only: min_absorb2)
      moreover have "min (d * 2) maxDelayMs = maxDelayMs" using False by simp
      ultimately show ?thesis by (simp only:)
    qed (simp add: mult.assoc)
    then show ?thesis
      using Cons.IH [of j "snd (nextDelayMs d r)"] b Cons.prems Suc
      by (simp add: case_prod_unfold Let_def nextDelayMs_def)
  qed
qed simp

section \<open>Properties\<close>

text \<open>C34: the slot that is handed out is a ready one with enough life left, and no other
  such slot expires earlier; nothing is handed out exactly when there is no
  such slot.\<close>

theorem pickReadySlot_oldest:
  "case pickReadySlot records now m of
     None \<Rightarrow> \<forall>r \<in> set records. \<not> available now m r
   | Some r \<Rightarrow> r \<in> set records \<and> available now m r \<and>
       (\<forall>r' \<in> set records. available now m r' \<longrightarrow> expiresAt r \<le> expiresAt r')"
  using pickReadySlot_Some [of records now m] pickReadySlot_None [of records now m] compareByExpiry_le
  by (auto split: option.split)

theorem pickReadySlot_oldest_witness:
  "let r = \<lparr>sandboxId = ''a'', accessToken = ''t'', slotEndpoint = ''e'', slotTemplate = ''i'',
     slotTemplateVersion = ''1'', startedAt = 0, maximumDurationSeconds = 100, slotRegion = ''r'',
     slotState = Ready, slotIdle = None, slotRole = None, slotIngress = [], slotEgress = [], parkedAt = None\<rparr> in
   pickReadySlot [r\<lparr>startedAt := 9\<rparr>, r, r\<lparr>slotState := Warming\<rparr>] 5 1000 = Some r \<and> available 5 1000 r"
proof -
  define r where "r = \<lparr>sandboxId = ''a'', accessToken = ''t'', slotEndpoint = ''e'', slotTemplate = ''i'',
     slotTemplateVersion = ''1'', startedAt = 0, maximumDurationSeconds = 100, slotRegion = ''r'',
     slotState = Ready, slotIdle = None, slotRole = None, slotIngress = [], slotEgress = [], parkedAt = None\<rparr>"
  have p: "pickReadySlot [r\<lparr>startedAt := 9\<rparr>, r, r\<lparr>slotState := Warming\<rparr>] 5 1000 = Some r"
    by (simp add: r_def pickReadySlot_def pickStep_def slotIsStale_def remainingMs_def expiresAt_def
        compareByExpiry_def)
  with pickReadySlot_oldest [of "[r\<lparr>startedAt := 9\<rparr>, r, r\<lparr>slotState := Warming\<rparr>]" 5 1000]
  show ?thesis unfolding Let_def r_def [symmetric] by simp
qed

text \<open>A slot record survives the state file: what is written is read back as the same
  record, for moments before the year 9892.\<close>

theorem slot_record_roundtrip:
  assumes "startedAt r < 250000000000000" "\<And>t. parkedAt r = Some t \<Longrightarrow> t < 250000000000000"
  shows "recordFromJson (recordToJson r) = Inr r"
  using assms by (rule recordFromJson_recordToJson)

text \<open>Statistics and log lines do not depend on the access tokens: two pools that
  differ only in their tokens show the same.\<close>

theorem stats_hide_tokens:
  "describeRecord (r\<lparr>accessToken := token\<rparr>) = describeRecord r \<and>
   statsFromRecords (map (\<lambda>r. r\<lparr>accessToken := f r\<rparr>) records) sz warming counters =
   statsFromRecords records sz warming counters"
proof -
  let ?hide = "\<lambda>r. r\<lparr>accessToken := f r\<rparr>"
  have cmp: "compareByExpiry (?hide a) (?hide b) = compareByExpiry a b" for a b
    by (simp add: compareByExpiry_def expiresAt_def)
  have ins: "jsInsert compareByExpiry (?hide a) (map ?hide ys) = map ?hide (jsInsert compareByExpiry a ys)" for a ys
    by (induction ys) (simp_all add: cmp)
  have "jsSort compareByExpiry (map ?hide records) = map ?hide (jsSort compareByExpiry records)"
    by (induction records) (simp_all add: jsSort_def ins)
  then show ?thesis
    by (simp add: statsFromRecords_def Let_def describeRecord_def expiresAt_def slotInfoFromRecord_def comp_def filter_map)
qed

text \<open>The statistics list every slot once, by expiry, and count the ready ones.\<close>

theorem stats_complete:
  "mset (statSlots (statsFromRecords records sz warming counters)) = mset (map slotInfoFromRecord records) \<and>
   sorted_wrt (\<lambda>a b. statExpiresAt a \<le> statExpiresAt b) (statSlots (statsFromRecords records sz warming counters)) \<and>
   statReady (statsFromRecords records sz warming counters) =
     length (filter (\<lambda>r. slotState r = Ready) records)"
proof -
  have "sorted_wrt (\<lambda>a b. expiresAt a \<le> expiresAt b) (jsSort compareByExpiry records)"
    using expiry.sorted_jsSort [of records] by (rule sorted_wrt_mono_rel [rotated]) (simp add: compareByExpiry_le)
  moreover have "length (filter P (jsSort compareByExpiry records)) = length (filter P records)" for P
    by (metis jsSort_mset mset_filter size_mset)
  ultimately show ?thesis
    by (simp add: statsFromRecords_def Let_def sorted_wrt_map slotInfoFromRecord_def)
qed

text \<open>The wait after the \<open>i\<close>-th failed warm-up in a row is the base delay, which starts
  at one second and doubles up to one minute, give or take a quarter of it.\<close>

theorem fillBackoff_bounds:
  assumes "i < length rs" "\<forall>r \<in> set rs. 0 \<le> r \<and> r < 1"
  shows "3 / 4 * min (1000 * 2 ^ i) 60000 \<le> delaysFrom initialDelayMs rs ! i \<and>
    delaysFrom initialDelayMs rs ! i < 5 / 4 * min (1000 * 2 ^ i) 60000"
  using delaysFrom_bounds [of i rs initialDelayMs] assms by (simp add: initialDelayMs_def maxDelayMs_def)

end
