(* ===== verification/Pool_Backend.thy ===== *)
theory Pool_Backend
  imports Pool_Core
begin

text \<open>
  \<open>pool/backend.ts\<close>: where the pool keeps its slot records.  \<open>mapSet\<close> and
  \<open>mapDelete\<close> are the insertion ordered \<open>Map\<close> of the language, keyed by sandbox id.
  \<open>InMemoryPoolBackend\<close> is such a map; \<open>JsonFilePoolBackend\<close> reads and rewrites a
  document through an exclusive temporary file and a rename.  The interface
  \<open>pool_backend\<close> states what \<open>PoolBackend\<close> promises; both classes are shown to keep
  it, and what follows for a sequence of calls is proved once.
\<close>

section \<open>A map keyed by sandbox id\<close>

definition mapSet :: "SlotRecord \<Rightarrow> SlotRecord list \<Rightarrow> SlotRecord list" where
  "mapSet r rs =
     (if sandboxId r \<in> sandboxId ` set rs
      then map (\<lambda>x. if sandboxId x = sandboxId r then r else x) rs
      else rs @ [r])"

definition mapDelete :: "string \<Rightarrow> SlotRecord list \<Rightarrow> SlotRecord list" where
  "mapDelete k rs = filter (\<lambda>x. sandboxId x \<noteq> k) rs"

definition mapHas :: "string \<Rightarrow> SlotRecord list \<Rightarrow> bool" where
  "mapHas k rs \<longleftrightarrow> k \<in> sandboxId ` set rs"

definition mapGet :: "string \<Rightarrow> SlotRecord list \<Rightarrow> SlotRecord option" where
  "mapGet k rs = List.find (\<lambda>x. sandboxId x = k) rs"

definition mapWf :: "SlotRecord list \<Rightarrow> bool" where
  "mapWf rs \<longleftrightarrow> distinct (map sandboxId rs)"

section \<open>In memory\<close>

type_synonym MemoryBackend = "SlotRecord list"

definition newMemory :: MemoryBackend where "newMemory = []"

definition memoryLoad :: "MemoryBackend \<Rightarrow> 'e + SlotRecord list" where
  "memoryLoad s = Inr s"

definition memorySave :: "SlotRecord \<Rightarrow> MemoryBackend \<Rightarrow> 'e + MemoryBackend" where
  "memorySave r s = Inr (mapSet r s)"

definition memoryDelete :: "string \<Rightarrow> MemoryBackend \<Rightarrow> 'e + MemoryBackend" where
  "memoryDelete k s = Inr (mapDelete k s)"

section \<open>In a JSON file\<close>

datatype backend_error =
    NotARegularFile | IoError | NotJson | NotAnObjectDocument | UnknownSchema | SlotsNotAList | BadSlot slot_error

text \<open>What is at a path: nothing, a symbolic link, something unreadable, text that is
  not JSON, or the text of a document.\<close>

datatype FileAt = FileAbsent | FileLink | FileUnreadable | FileGarbage | FileDocument json

text \<open>The state file and the temporary files beside it.\<close>

record FileBackend =
  stateFile :: FileAt
  temporaries :: "(string \<times> json option) list"

definition POOL_SCHEMA :: string where "POOL_SCHEMA = ''rayito.pool/1''"

definition parseDocument :: "json \<Rightarrow> backend_error + (string \<times> json) list" where
  "parseDocument document =
     (case document of
        JObj kvs \<Rightarrow> if jsonField kvs ''schema'' \<noteq> Some (JStr POOL_SCHEMA) then Inl UnknownSchema else Inr kvs
      | _ \<Rightarrow> Inl NotAnObjectDocument)"

fun readSlots :: "SlotRecord list \<Rightarrow> json list \<Rightarrow> backend_error + SlotRecord list" where
  "readSlots rs [] = Inr rs"
| "readSlots rs (item # items) =
     (case recordFromJson item of Inl e \<Rightarrow> Inl (BadSlot e) | Inr r \<Rightarrow> readSlots (mapSet r rs) items)"

definition recordsFromDocument :: "(string \<times> json) list \<Rightarrow> backend_error + SlotRecord list" where
  "recordsFromDocument kvs =
     (case jsonField kvs ''slots'' of
        None \<Rightarrow> Inr [] | Some JNull \<Rightarrow> Inr []
      | Some (JArr items) \<Rightarrow> readSlots [] items
      | Some _ \<Rightarrow> Inl SlotsNotAList)"

definition fileRead :: "FileBackend \<Rightarrow> backend_error + SlotRecord list" where
  "fileRead s =
     (case stateFile s of
        FileAbsent \<Rightarrow> Inr []
      | FileLink \<Rightarrow> Inl NotARegularFile
      | FileUnreadable \<Rightarrow> Inl IoError
      | FileGarbage \<Rightarrow> Inl NotJson
      | FileDocument doc \<Rightarrow> andThen (parseDocument doc) recordsFromDocument)"

definition documentOf :: "SlotRecord list \<Rightarrow> json" where
  "documentOf rs = JObj [(''schema'', JStr POOL_SCHEMA), (''slots'', JArr (map recordToJson rs))]"

text \<open>The call at which a write fails, if it does.\<close>

datatype WriteStage = AtOpen | AtChmod | AtWrite | AtClose | AtRename

definition discardTemporary :: "string \<Rightarrow> FileBackend \<Rightarrow> FileBackend" where
  "discardTemporary temp s = s\<lparr>temporaries := filter (\<lambda>(n, d). n \<noteq> temp) (temporaries s)\<rparr>"

text \<open>\<open>open\<close> with \<open>wx\<close> creates the temporary, \<open>writeFile\<close> fills it, \<open>rename\<close> replaces the
  state file by it; any failure discards the temporary.\<close>

definition fileWrite ::
  "string \<Rightarrow> WriteStage option \<Rightarrow> SlotRecord list \<Rightarrow> FileBackend \<Rightarrow> (backend_error + unit) \<times> FileBackend" where
  "fileWrite temp fails rs s =
     (let opened = s\<lparr>temporaries := (temp, None) # temporaries s\<rparr>;
          written = s\<lparr>temporaries := (temp, Some (documentOf rs)) # temporaries s\<rparr>;
          renamed = s\<lparr>stateFile := FileDocument (documentOf rs)\<rparr>
      in case fails of
           Some AtOpen \<Rightarrow> (Inl IoError, discardTemporary temp s)
         | Some AtChmod \<Rightarrow> (Inl IoError, discardTemporary temp opened)
         | Some AtWrite \<Rightarrow> (Inl IoError, discardTemporary temp opened)
         | Some AtClose \<Rightarrow> (Inl IoError, discardTemporary temp written)
         | Some AtRename \<Rightarrow> (Inl IoError, discardTemporary temp written)
         | None \<Rightarrow> (Inr (), renamed))"

definition fileLoad :: "FileBackend \<Rightarrow> backend_error + SlotRecord list" where
  "fileLoad s = fileRead s"

definition fileSaveWith ::
  "string \<Rightarrow> WriteStage option \<Rightarrow> SlotRecord \<Rightarrow> FileBackend \<Rightarrow> (backend_error + unit) \<times> FileBackend" where
  "fileSaveWith temp fails r s =
     (case fileRead s of Inl e \<Rightarrow> (Inl e, s) | Inr rs \<Rightarrow> fileWrite temp fails (mapSet r rs) s)"

definition fileDeleteWith ::
  "string \<Rightarrow> WriteStage option \<Rightarrow> string \<Rightarrow> FileBackend \<Rightarrow> (backend_error + unit) \<times> FileBackend" where
  "fileDeleteWith temp fails k s =
     (case fileRead s of
        Inl e \<Rightarrow> (Inl e, s)
      | Inr rs \<Rightarrow> if mapHas k rs then fileWrite temp fails (mapDelete k rs) s else (Inr (), s))"

text \<open>The calls when the file system does not fail.\<close>

definition fileSave :: "SlotRecord \<Rightarrow> FileBackend \<Rightarrow> backend_error + FileBackend" where
  "fileSave r s = (case fileSaveWith [] None r s of (Inl e, _) \<Rightarrow> Inl e | (Inr _, s') \<Rightarrow> Inr s')"

definition fileDelete :: "string \<Rightarrow> FileBackend \<Rightarrow> backend_error + FileBackend" where
  "fileDelete k s = (case fileDeleteWith [] None k s of (Inl e, _) \<Rightarrow> Inl e | (Inr _, s') \<Rightarrow> Inr s')"

text \<open>Records that the file format keeps, and state files that this code wrote.\<close>

definition storable :: "SlotRecord \<Rightarrow> bool" where
  "storable r \<longleftrightarrow> startedAt r < 250000000000000 \<and> (case parkedAt r of None \<Rightarrow> True | Some t \<Rightarrow> t < 250000000000000)"

definition fileWf :: "FileBackend \<Rightarrow> bool" where
  "fileWf s \<longleftrightarrow> stateFile s = FileAbsent \<or>
     (\<exists>rs. mapWf rs \<and> list_all storable rs \<and> stateFile s = FileDocument (documentOf rs))"

datatype BackendCall = Save SlotRecord | Delete string

definition callStorable :: "BackendCall \<Rightarrow> bool" where
  "callStorable c = (case c of Save r \<Rightarrow> storable r | Delete _ \<Rightarrow> True)"

fun applyCall :: "BackendCall \<Rightarrow> SlotRecord list \<Rightarrow> SlotRecord list" where
  "applyCall (Save r) rs = mapSet r rs"
| "applyCall (Delete k) rs = mapDelete k rs"

fun memoryCall :: "BackendCall \<Rightarrow> MemoryBackend \<Rightarrow> 'e + MemoryBackend" where
  "memoryCall (Save r) s = memorySave r s"
| "memoryCall (Delete k) s = memoryDelete k s"

fun fileCall :: "BackendCall \<Rightarrow> FileBackend \<Rightarrow> backend_error + FileBackend" where
  "fileCall (Save r) s = fileSave r s"
| "fileCall (Delete k) s = fileDelete k s"

fun runCalls :: "(BackendCall \<Rightarrow> 's \<Rightarrow> 'e + 's) \<Rightarrow> BackendCall list \<Rightarrow> 's \<Rightarrow> 'e + 's" where
  "runCalls call [] s = Inr s"
| "runCalls call (c # cs) s = andThen (call c s) (runCalls call cs)"

section \<open>The map\<close>

lemma mapSet_ids: "sandboxId ` set (mapSet r rs) = insert (sandboxId r) (sandboxId ` set rs)"
  by (auto simp: mapSet_def image_iff)

lemma mapSet_id_list:
  "map sandboxId (mapSet r rs) = (if mapHas (sandboxId r) rs then map sandboxId rs else map sandboxId rs @ [sandboxId r])"
  by (auto simp: mapSet_def mapHas_def)

lemma mapWf_mapSet [simp]: "mapWf rs \<Longrightarrow> mapWf (mapSet r rs)"
  by (auto simp: mapWf_def mapSet_id_list mapHas_def)

lemma mapWf_mapDelete [simp]: "mapWf rs \<Longrightarrow> mapWf (mapDelete k rs)"
  by (auto simp: mapWf_def mapDelete_def distinct_map_filter)

lemma mapDelete_absent: "\<not> mapHas k rs \<Longrightarrow> mapDelete k rs = rs"
  by (auto simp: mapHas_def mapDelete_def filter_id_conv)

lemma mapDelete_ids [simp]: "sandboxId ` set (mapDelete k rs) = sandboxId ` set rs - {k}"
  by (auto simp: mapDelete_def)

lemma mapSet_new: "sandboxId r \<notin> sandboxId ` set rs \<Longrightarrow> mapSet r rs = rs @ [r]"
  by (simp add: mapSet_def)

lemma list_all_mapSet: "list_all P rs \<Longrightarrow> P r \<Longrightarrow> list_all P (mapSet r rs)"
  by (auto simp: mapSet_def list_all_iff)

lemma mapGet_replace:
  "mapGet k (map (\<lambda>x. if sandboxId x = sandboxId r then r else x) rs) =
   (if k = sandboxId r \<and> mapHas k rs then Some r else mapGet k rs)"
  by (induction rs) (auto simp: mapGet_def mapHas_def)

lemma mapGet_append: "mapGet k (rs @ rs') = (case mapGet k rs of None \<Rightarrow> mapGet k rs' | Some r \<Rightarrow> Some r)"
  by (induction rs) (auto simp: mapGet_def)

lemma mapGet_None: "mapGet k rs = None \<longleftrightarrow> \<not> mapHas k rs"
  by (induction rs) (auto simp: mapGet_def mapHas_def)

lemma mapGet_mapSet: "mapGet k (mapSet r rs) = (if k = sandboxId r then Some r else mapGet k rs)"
proof (cases "mapHas (sandboxId r) rs")
  case True
  then have "mapSet r rs = map (\<lambda>x. if sandboxId x = sandboxId r then r else x) rs"
    by (simp add: mapSet_def mapHas_def)
  then show ?thesis using True by (simp add: mapGet_replace)
next
  case False
  then have "mapSet r rs = rs @ [r]" by (simp add: mapSet_new mapHas_def)
  moreover have "mapGet (sandboxId r) rs = None" using False by (simp add: mapGet_None)
  moreover have "mapGet x [r] = (if x = sandboxId r then Some r else None)" for x by (simp add: mapGet_def)
  ultimately show ?thesis by (simp add: mapGet_append split: option.split)
qed

lemma mapGet_mapDelete: "mapGet k (mapDelete k' rs) = (if k = k' then None else mapGet k rs)"
  by (induction rs) (auto simp: mapDelete_def mapGet_def)


section \<open>The interface\<close>

locale pool_backend =
  fixes bload :: "'s \<Rightarrow> 'e + SlotRecord list"
    and bcall :: "BackendCall \<Rightarrow> 's \<Rightarrow> 'e + 's"
    and binv :: "'s \<Rightarrow> bool"
    and bok :: "BackendCall \<Rightarrow> bool"
  assumes load_wf: "binv s \<Longrightarrow> \<exists>rs. bload s = Inr rs \<and> mapWf rs"
    and call_ok: "binv s \<Longrightarrow> bload s = Inr rs \<Longrightarrow> bok c \<Longrightarrow>
      \<exists>s'. bcall c s = Inr s' \<and> binv s' \<and> bload s' = Inr (applyCall c rs)"
begin

text \<open>A sequence of calls leaves the records of the map that saw the same calls.\<close>

lemma runCalls_load:
  "binv s \<Longrightarrow> bload s = Inr rs \<Longrightarrow> list_all bok cs \<Longrightarrow>
   \<exists>s'. runCalls bcall cs s = Inr s' \<and> binv s' \<and> bload s' = Inr (fold applyCall cs rs)"
proof (induction cs arbitrary: s rs)
  case (Cons c cs)
  then have "bok c" by simp
  from call_ok [OF Cons.prems(1,2) this] obtain s' where
    "bcall c s = Inr s'" "binv s'" "bload s' = Inr (applyCall c rs)" by blast
  with Cons.IH [of s' "applyCall c rs"] Cons.prems show ?case by simp
qed simp

text \<open>After saving a record, loading finds it and every other record as before.\<close>

lemma lookup_after_save:
  assumes "binv s" "bload s = Inr rs" "bok (Save r)"
  obtains s' rs' where "bcall (Save r) s = Inr s'" "bload s' = Inr rs'"
    "\<And>k. mapGet k rs' = (if k = sandboxId r then Some r else mapGet k rs)"
  using call_ok [OF assms] by (auto simp: mapGet_mapSet)

lemma lookup_after_delete:
  assumes "binv s" "bload s = Inr rs" "bok (Delete k)"
  obtains s' rs' where "bcall (Delete k) s = Inr s'" "bload s' = Inr rs'"
    "\<And>k'. mapGet k' rs' = (if k' = k then None else mapGet k' rs)"
  using call_ok [OF assms] by (auto simp: mapGet_mapDelete)

end

interpretation memory: pool_backend "memoryLoad :: MemoryBackend \<Rightarrow> unit + SlotRecord list"
  "memoryCall :: BackendCall \<Rightarrow> MemoryBackend \<Rightarrow> unit + MemoryBackend" mapWf "\<lambda>_. True"
proof
  fix s :: MemoryBackend and rs c
  show "mapWf s \<Longrightarrow> \<exists>rs. memoryLoad s = (Inr rs :: unit + _) \<and> mapWf rs" by (simp add: memoryLoad_def)
  assume "mapWf s" "memoryLoad s = (Inr rs :: unit + _)"
  then show "\<exists>s'. memoryCall c s = (Inr s' :: unit + _) \<and> mapWf s' \<and> memoryLoad s' = (Inr (applyCall c rs) :: unit + _)"
    by (cases c) (simp_all add: memoryLoad_def memorySave_def memoryDelete_def)
qed

lemma recordFromJson_storable: "storable r \<Longrightarrow> recordFromJson (recordToJson r) = Inr r"
  by (rule recordFromJson_recordToJson) (auto simp: storable_def)

lemma readSlots_written:
  "list_all storable rs \<Longrightarrow> mapWf (acc @ rs) \<Longrightarrow> readSlots acc (map recordToJson rs) = Inr (acc @ rs)"
proof (induction rs arbitrary: acc)
  case (Cons r rs)
  have "mapSet r acc = acc @ [r]" using Cons.prems(2) by (intro mapSet_new) (auto simp: mapWf_def)
  with Cons show ?case by (simp add: recordFromJson_storable)
qed simp

lemma fileRead_written:
  assumes "list_all storable rs" "mapWf rs" "stateFile s = FileDocument (documentOf rs)"
  shows "fileRead s = Inr rs"
  using assms readSlots_written [of rs "[]"]
  by (simp add: fileRead_def documentOf_def parseDocument_def recordsFromDocument_def jsonField_def)

lemma fileRead_wf:
  assumes "fileWf s"
  shows "\<exists>rs. fileRead s = Inr rs \<and> mapWf rs \<and> list_all storable rs"
  using assms fileRead_written [of _ s] by (auto simp: fileWf_def fileRead_def mapWf_def)

lemma fileWf_written:
  "mapWf rs \<Longrightarrow> list_all storable rs \<Longrightarrow> fileWf (s\<lparr>stateFile := FileDocument (documentOf rs)\<rparr>)"
  by (auto simp: fileWf_def)

interpretation jsonfile: pool_backend fileLoad fileCall fileWf callStorable
proof
  fix s :: FileBackend and rs c
  show "fileWf s \<Longrightarrow> \<exists>rs. fileLoad s = Inr rs \<and> mapWf rs" using fileRead_wf by (auto simp: fileLoad_def)
  assume wf: "fileWf s" and load: "fileLoad s = Inr rs" and ok: "callStorable c"
  from wf load have rs: "fileRead s = Inr rs" "mapWf rs" "list_all storable rs"
    using fileRead_wf [OF wf] by (auto simp: fileLoad_def)
  have del: "list_all storable (mapDelete k rs)" for k using rs(3) by (auto simp: mapDelete_def list_all_iff)
  show "\<exists>s'. fileCall c s = Inr s' \<and> fileWf s' \<and> fileLoad s' = Inr (applyCall c rs)"
  proof (cases c)
    case (Save r)
    then have w: "mapWf (mapSet r rs)" "list_all storable (mapSet r rs)"
      using ok rs by (auto simp: callStorable_def intro: list_all_mapSet)
    show ?thesis
      using Save rs w fileRead_written [OF w(2,1)]
      by (simp add: fileSave_def fileSaveWith_def fileWrite_def fileLoad_def fileWf_written)
  next
    case (Delete k)
    show ?thesis
    proof (cases "mapHas k rs")
      case True
      then show ?thesis
        using Delete rs del fileRead_written [OF del mapWf_mapDelete [OF rs(2)]]
        by (simp add: fileDelete_def fileDeleteWith_def fileWrite_def fileLoad_def fileWf_written)
    next
      case False
      then show ?thesis
        using Delete rs wf by (simp add: fileDelete_def fileDeleteWith_def fileLoad_def mapDelete_absent)
    qed
  qed
qed

section \<open>Properties\<close>





end
