(* ===== verification/Pool.thy ===== *)
theory Pool
  imports Pool_Backend
begin

text \<open>
  \<open>pool/pool.ts\<close>: the warm pool.  The class is single threaded but every \<open>await\<close>
  lets other tasks run, so its methods are cut at the awaits after which shared
  state is read or written again.  Each piece is an operation on the state, and
  \<open>pool_step\<close> lets the pieces of any number of \<open>take()\<close> calls and warm-ups, of the
  filler and of \<open>close()\<close> interleave.  What happens to a sandbox that only one task
  can reach is not cut further.

  Whatever the platform answers is an argument of the operation, and so is, as
  \<open>ok\<close>, whether the backend accepts a call: a refusal is an exception at that
  point of the method.  The only thing taken from the platform is that
  \<open>run-microvm\<close> never returns an id twice.  \<open>Sandbox.create\<close> and
  \<open>Sandbox.openWith\<close>, called as the pool calls them, ask for the termination of the
  sandbox before they fail.  The fields that start with \<open>hist\<close> are history, which
  no operation reads.

  Timers, wake-ups and the logger only decide when a piece runs and are left out,
  as are the commands that a warm-up runs inside its sandbox.
\<close>

section \<open>State\<close>

record PoolParams =
  poolSize :: nat
  fillConcurrency :: nat
  minRemaining :: int
  poolImage :: string
  poolPersistent :: bool

text \<open>A warm-up waits for the semaphore, is inside \<open>Sandbox.create\<close> before or after
  \<open>run-microvm\<close>, is inside \<open>#park\<close>, or is about to run its \<open>finally\<close>.\<close>

datatype WarmPhase = WQueued | WCreating | WLaunched string | WParking string | WFinishing

text \<open>A \<open>take()\<close> has not looked for a slot yet, waits for one, waits for
  \<open>resume-microvm\<close>, waits for \<open>openWith\<close>, is in the fallback before or after
  \<open>run-microvm\<close>, or is configuring the sandbox it got.\<close>

datatype TakePhase = TStarted | TWaiting | TResuming SlotRecord | TOpening SlotRecord | TFallback | TCreating string | TConfiguring string

text \<open>The filler is at the head of its loop, in the pause after a failure, waiting for
  work, in one of the parts of a sweep, at its end, or has thrown.  The sweep
  of \<open>start()\<close> is the same code before the loop.\<close>

datatype FillerPhase =
    FLoop | FPausing | FWaiting | FRecycling "SlotRecord list" | FListing
  | FReconciling "(SlotRecord \<times> ReconcileAction) list" | FStopped | FCrashed

text \<open>\<open>close()\<close> joins the filler, waits for the warm-ups, drains, and ends or throws.\<close>

datatype ClosePhase = COpen | CJoining | CSettling | CDraining "SlotRecord list" | CClosed | CRejected

datatype pool_error = PoolClosed | PoolNotStarted | DrainRequired

record Pool =
  poolRecords :: "SlotRecord list"
  poolStored :: MemoryBackend
  poolCounters :: PoolCounters
  poolInflight :: nat
  poolPermits :: nat
  poolWarmUps :: "WarmPhase multiset"
  poolTakers :: "TakePhase multiset"
  poolFiller :: FillerPhase
  poolClosing :: ClosePhase
  poolDrains :: bool
  poolStarted :: bool
  poolDelayMs :: rat
  poolPendingBackoff :: "rat option"
  histLaunched :: "string list"
  histForeign :: "string list"
  histHanded :: "string list"
  histTerminated :: "string list"
  histGone :: "string list"
  histStranded :: "string list"
  histSuspended :: "string list"

definition poolClosed :: "Pool \<Rightarrow> bool" where
  "poolClosed st \<longleftrightarrow> poolClosing st \<noteq> COpen"

definition replaceTask :: "'a \<Rightarrow> 'a \<Rightarrow> 'a multiset \<Rightarrow> 'a multiset" where
  "replaceTask p q M = add_mset q (M - {#p#})"

definition readyRecords :: "Pool \<Rightarrow> SlotRecord list" where
  "readyRecords st = filter (\<lambda>r. slotState r = Ready) (poolRecords st)"

definition deficit :: "PoolParams \<Rightarrow> Pool \<Rightarrow> int" where
  "deficit cfg st = int (poolSize cfg) - int (length (readyRecords st)) - int (poolInflight st)"

section \<open>Helpers of the class\<close>

text \<open>\<open>#terminate\<close>; a refusal of the platform is only logged.\<close>

definition terminateSlot :: "string \<Rightarrow> Pool \<Rightarrow> Pool" where
  "terminateSlot k st = st\<lparr>histTerminated := k # histTerminated st\<rparr>"

text \<open>History only: the pool gives a sandbox up without a call to the platform.\<close>

definition strand :: "string \<Rightarrow> Pool \<Rightarrow> Pool" where
  "strand k st = st\<lparr>histStranded := k # histStranded st\<rparr>"

datatype ForgetResult = NotHeld | Forgotten | ForgetThrew

text \<open>\<open>#forget\<close>: the record leaves the map before the backend is called.\<close>

definition forgetSlot :: "bool \<Rightarrow> string \<Rightarrow> Pool \<Rightarrow> ForgetResult \<times> Pool" where
  "forgetSlot ok k st =
     (if \<not> mapHas k (poolRecords st) then (NotHeld, st)
      else let st' = st\<lparr>poolRecords := mapDelete k (poolRecords st)\<rparr>
           in if ok then (Forgotten, st'\<lparr>poolStored := mapDelete k (poolStored st')\<rparr>) else (ForgetThrew, st'))"

definition tally :: "(PoolCounters \<Rightarrow> PoolCounters) \<Rightarrow> Pool \<Rightarrow> Pool" where
  "tally f st = st\<lparr>poolCounters := f (poolCounters st)\<rparr>"

definition taker :: "TakePhase \<Rightarrow> TakePhase \<Rightarrow> Pool \<Rightarrow> Pool" where
  "taker p q st = st\<lparr>poolTakers := replaceTask p q (poolTakers st)\<rparr>"

definition takerDone :: "TakePhase \<Rightarrow> Pool \<Rightarrow> Pool" where
  "takerDone p st = st\<lparr>poolTakers := poolTakers st - {#p#}\<rparr>"

definition warmer :: "WarmPhase \<Rightarrow> WarmPhase \<Rightarrow> Pool \<Rightarrow> Pool" where
  "warmer p q st = st\<lparr>poolWarmUps := replaceTask p q (poolWarmUps st)\<rparr>"

definition filler :: "FillerPhase \<Rightarrow> Pool \<Rightarrow> Pool" where
  "filler p st = st\<lparr>poolFiller := p\<rparr>"

definition noteLaunch :: "string \<Rightarrow> Pool \<Rightarrow> Pool" where
  "noteLaunch k st = st\<lparr>histLaunched := k # histLaunched st\<rparr>"

definition freshId :: "string \<Rightarrow> Pool \<Rightarrow> bool" where
  "freshId k st \<longleftrightarrow> k \<notin> set (histLaunched st) \<and> k \<notin> set (histForeign st)"

section \<open>take()\<close>

datatype ResumeAnswer = ResumedSlot | NotSuspended | ResumeError

definition requireOpen :: "Pool \<Rightarrow> pool_error + unit" where
  "requireOpen st =
     (if poolClosed st then Inl PoolClosed else if \<not> poolStarted st then Inl PoolNotStarted else Inr ())"

definition takeStart :: "Pool \<Rightarrow> pool_error + Pool" where
  "takeStart st = andThen (requireOpen st) (\<lambda>_. Inr (st\<lparr>poolTakers := add_mset TStarted (poolTakers st)\<rparr>))"

text \<open>\<open>#popReady\<close>: when the backend refuses the deletion the slot is out of the map and
  the call throws.\<close>

definition popReady :: "PoolParams \<Rightarrow> int \<Rightarrow> bool \<Rightarrow> Pool \<Rightarrow> (unit + SlotRecord option) \<times> Pool" where
  "popReady cfg now ok st =
     (case pickReadySlot (poolRecords st) now (minRemaining cfg) of
        None \<Rightarrow> (Inr None, st)
      | Some r \<Rightarrow>
          let st' = st\<lparr>poolRecords := mapDelete (sandboxId r) (poolRecords st)\<rparr>
          in if ok then (Inr (Some r), st'\<lparr>poolStored := mapDelete (sandboxId r) (poolStored st')\<rparr>)
             else (Inl (), strand (sandboxId r) st'))"

text \<open>\<open>#claimReadySlot\<close>, one turn of its loop; \<open>keepWaiting\<close> says that time is left.\<close>

definition claimReadySlot :: "PoolParams \<Rightarrow> int \<Rightarrow> bool \<Rightarrow> bool \<Rightarrow> TakePhase \<Rightarrow> Pool \<Rightarrow> Pool" where
  "claimReadySlot cfg now ok keepWaiting p st =
     (case popReady cfg now ok st of
        (Inl _, st') \<Rightarrow> takerDone p st'
      | (Inr (Some r), st') \<Rightarrow> taker p (TResuming r) st'
      | (Inr None, st') \<Rightarrow> taker p (if keepWaiting then TWaiting else TFallback) st')"

definition wakeTaker :: "PoolParams \<Rightarrow> int \<Rightarrow> bool \<Rightarrow> bool \<Rightarrow> Pool \<Rightarrow> Pool" where
  "wakeTaker cfg now ok keepWaiting st =
     (case requireOpen st of
        Inl _ \<Rightarrow> takerDone TWaiting st
      | Inr _ \<Rightarrow> claimReadySlot cfg now ok keepWaiting TWaiting st)"

definition resumeSlot :: "SlotRecord \<Rightarrow> ResumeAnswer \<Rightarrow> Pool \<Rightarrow> Pool" where
  "resumeSlot r answer st =
     (case answer of
        ResumedSlot \<Rightarrow> taker (TResuming r) (TOpening r) st
      | NotSuspended \<Rightarrow> taker (TResuming r) TFallback (terminateSlot (sandboxId r) (tally (lost_update Suc) st))
      | ResumeError \<Rightarrow> taker (TResuming r) TFallback (terminateSlot (sandboxId r) (tally (failed_update Suc) st)))"

definition openSlot :: "SlotRecord \<Rightarrow> bool \<Rightarrow> Pool \<Rightarrow> Pool" where
  "openSlot r opened st =
     (if opened
      then taker (TOpening r) (TConfiguring (sandboxId r)) (tally (hits_update Suc) (tally (takes_update Suc) st))
      else taker (TOpening r) TFallback (terminateSlot (sandboxId r) (tally (failed_update Suc) st)))"

text \<open>\<open>#fallback\<close>: the observer counts the launch as soon as it is accepted.\<close>

definition fallbackLaunched :: "string \<Rightarrow> Pool \<Rightarrow> Pool" where
  "fallbackLaunched k st = taker TFallback (TCreating k) (tally (launched_update Suc) (noteLaunch k st))"

definition fallbackCreated :: "string \<Rightarrow> Pool \<Rightarrow> Pool" where
  "fallbackCreated k st =
     taker (TCreating k) (TConfiguring k) (tally (misses_update Suc) (tally (takes_update Suc) st))"

definition fallbackFailed :: "string option \<Rightarrow> Pool \<Rightarrow> Pool" where
  "fallbackFailed launchedId st =
     (case launchedId of
        None \<Rightarrow> takerDone TFallback (tally (failed_update Suc) st)
      | Some k \<Rightarrow> takerDone (TCreating k) (terminateSlot k (tally (failed_update Suc) st)))"

text \<open>The end of \<open>#take\<close>: the gateways are applied, or the sandbox is terminated.\<close>

definition takeConfigured :: "string \<Rightarrow> bool \<Rightarrow> Pool \<Rightarrow> Pool" where
  "takeConfigured k applied st =
     takerDone (TConfiguring k)
       (if applied then st\<lparr>histHanded := k # histHanded st\<rparr> else terminateSlot k st)"

section \<open>Filling\<close>

text \<open>\<open>#warmUp\<close> up to its first wait, with \<open>Semaphore.acquire\<close>.\<close>

definition startWarmUp :: "Pool \<Rightarrow> Pool" where
  "startWarmUp st =
     (if 0 < poolPermits st
      then st\<lparr>poolPermits := poolPermits st - 1, poolWarmUps := add_mset WCreating (poolWarmUps st)\<rparr>
      else st\<lparr>poolWarmUps := add_mset WQueued (poolWarmUps st)\<rparr>)"

definition submitWarmUps :: "PoolParams \<Rightarrow> Pool \<Rightarrow> Pool" where
  "submitWarmUps cfg st =
     (if deficit cfg st \<le> 0 then st
      else (startWarmUp ^^ nat (deficit cfg st)) (st\<lparr>poolInflight := poolInflight st + nat (deficit cfg st)\<rparr>))"

text \<open>\<open>Semaphore.release\<close> hands the permit to the queue before it gives it back.\<close>

definition releasePermit :: "Pool \<Rightarrow> Pool" where
  "releasePermit st =
     (if WQueued \<in># poolWarmUps st then warmer WQueued WCreating st else st\<lparr>poolPermits := Suc (poolPermits st)\<rparr>)"

definition finishWarmUp :: "Pool \<Rightarrow> Pool" where
  "finishWarmUp st =
     (let st' = releasePermit (st\<lparr>poolWarmUps := poolWarmUps st - {#WFinishing#}\<rparr>)
      in st'\<lparr>poolInflight := poolInflight st' - 1\<rparr>)"

definition noteFailure :: "rat \<Rightarrow> Pool \<Rightarrow> Pool" where
  "noteFailure random st =
     (let (delay, later) = nextDelayMs (poolDelayMs st) random
      in (tally (failed_update Suc) st)\<lparr>poolDelayMs := later, poolPendingBackoff := Some delay\<rparr>)"

text \<open>\<open>#warmUpFailed\<close>; the flag says that it returned instead of throwing.\<close>

definition warmUpFailed :: "bool \<Rightarrow> string option \<Rightarrow> rat \<Rightarrow> Pool \<Rightarrow> bool \<times> Pool" where
  "warmUpFailed ok launchedId random st =
     (case launchedId of
        None \<Rightarrow> (True, noteFailure random st)
      | Some k \<Rightarrow>
          (case forgetSlot ok k st of
             (ForgetThrew, st') \<Rightarrow> (False, st')
           | (_, st') \<Rightarrow> (True, noteFailure random st')))"

text \<open>\<open>#recordLaunch\<close>: a sandbox that the backend refuses is terminated on the spot.\<close>

definition recordLaunch :: "bool \<Rightarrow> rat \<Rightarrow> SlotRecord \<Rightarrow> Pool \<Rightarrow> Pool" where
  "recordLaunch ok random r st =
     (let st' = noteLaunch (sandboxId r) st
      in if ok
         then warmer WCreating (WLaunched (sandboxId r)) (tally (launched_update Suc)
                (st'\<lparr>poolStored := mapSet r (poolStored st'), poolRecords := mapSet r (poolRecords st')\<rparr>))
         else warmer WCreating WFinishing
                (snd (warmUpFailed True (Some (sandboxId r)) random (terminateSlot (sandboxId r) st'))))"

text \<open>\<open>Sandbox.create\<close> fails before or after the launch.\<close>

definition createFailed :: "rat \<Rightarrow> Pool \<Rightarrow> Pool" where
  "createFailed random st = warmer WCreating WFinishing (snd (warmUpFailed True None random st))"

definition createFailedLaunched :: "bool \<Rightarrow> rat \<Rightarrow> string \<Rightarrow> Pool \<Rightarrow> Pool" where
  "createFailedLaunched ok random k st =
     warmer (WLaunched k) WFinishing (snd (warmUpFailed ok (Some k) random (terminateSlot k st)))"

definition recordReady :: "bool \<Rightarrow> SlotRecord \<Rightarrow> Pool \<Rightarrow> Pool" where
  "recordReady ok r st =
     (let st' = st\<lparr>poolRecords := mapSet r (poolRecords st), poolDelayMs := initialDelayMs\<rparr>
      in if ok then st'\<lparr>poolStored := mapSet r (poolStored st')\<rparr> else st')"

text \<open>\<open>#park\<close>: the sandbox is paused and parked, or \<open>#discard\<close> ends it because the pool is
  stopping, or something failed.\<close>

definition parkReady :: "bool \<Rightarrow> SlotRecord \<Rightarrow> Pool \<Rightarrow> Pool" where
  "parkReady ok r st = warmer (WParking (sandboxId r)) WFinishing (recordReady ok r st)"

definition discard :: "bool \<Rightarrow> string \<Rightarrow> Pool \<Rightarrow> Pool" where
  "discard ok k st =
     (case forgetSlot ok k st of (ForgetThrew, st') \<Rightarrow> strand k st' | (_, st') \<Rightarrow> terminateSlot k st')"

definition parkStopped :: "bool \<Rightarrow> string \<Rightarrow> Pool \<Rightarrow> Pool" where
  "parkStopped ok k st = warmer (WParking k) WFinishing (discard ok k st)"

definition parkFailed :: "bool \<Rightarrow> rat \<Rightarrow> string \<Rightarrow> Pool \<Rightarrow> Pool" where
  "parkFailed ok random k st =
     warmer (WParking k) WFinishing
       (case warmUpFailed ok (Some k) random st of
          (True, st') \<Rightarrow> terminateSlot k st' | (False, st') \<Rightarrow> strand k st')"

section \<open>The filler\<close>

text \<open>The head of the loop with \<open>#fill\<close>, what follows its pause, and what follows
  \<open>#waitForWork\<close>; \<open>due\<close> is \<open>#sweepDue\<close>.\<close>

definition fillerLoop :: "PoolParams \<Rightarrow> Pool \<Rightarrow> Pool" where
  "fillerLoop cfg st =
     (if poolClosed st then filler FStopped st
      else case poolPendingBackoff st of
             None \<Rightarrow> filler FWaiting (submitWarmUps cfg st)
           | Some _ \<Rightarrow> filler FPausing (st\<lparr>poolPendingBackoff := None\<rparr>))"

definition fillerPaused :: "PoolParams \<Rightarrow> Pool \<Rightarrow> Pool" where
  "fillerPaused cfg st = filler FWaiting (if poolClosed st then st else submitWarmUps cfg st)"

text \<open>\<open>#recycleStale\<close> and \<open>#reconcile\<close> walk a copy of the ready records.\<close>

definition startSweep :: "PoolParams \<Rightarrow> int \<Rightarrow> Pool \<Rightarrow> Pool" where
  "startSweep cfg now st =
     filler (FRecycling (filter (\<lambda>r. slotIsStale r now (minRemaining cfg)) (readyRecords st))) st"

definition fillerWork :: "PoolParams \<Rightarrow> int \<Rightarrow> bool \<Rightarrow> Pool \<Rightarrow> Pool" where
  "fillerWork cfg now due st = (if \<not> poolClosed st \<and> due then startSweep cfg now st else filler FLoop st)"

definition sweepDone :: "Pool \<Rightarrow> Pool" where
  "sweepDone st = filler FLoop (st\<lparr>poolStarted := True\<rparr>)"

fun recycleStale :: "bool \<Rightarrow> SlotRecord list \<Rightarrow> Pool \<Rightarrow> Pool" where
  "recycleStale ok [] st = filler FListing st"
| "recycleStale ok (r # rest) st =
     (case forgetSlot ok (sandboxId r) st of
        (NotHeld, st') \<Rightarrow> filler (FRecycling rest) st'
      | (Forgotten, st') \<Rightarrow>
          filler (FRecycling rest) (terminateSlot (sandboxId r) (tally (recycled_update Suc) st'))
      | (ForgetThrew, st') \<Rightarrow> filler FCrashed (strand (sandboxId r) st'))"

definition reconcileListed :: "(string \<Rightarrow> string option) option \<Rightarrow> Pool \<Rightarrow> Pool" where
  "reconcileListed listing st =
     (case listing of
        None \<Rightarrow> sweepDone st
      | Some listed \<Rightarrow>
          filler (FReconciling (map (\<lambda>r. (r, reconcileAction r (listed (sandboxId r)))) (readyRecords st))) st)"

text \<open>\<open>#lose\<close>: the platform no longer has the sandbox.\<close>

definition loseSlot :: "bool \<Rightarrow> string \<Rightarrow> FillerPhase \<Rightarrow> Pool \<Rightarrow> Pool" where
  "loseSlot ok k p st =
     (case forgetSlot ok k st of
        (NotHeld, st') \<Rightarrow> filler p st'
      | (Forgotten, st') \<Rightarrow> filler p ((tally (lost_update Suc) st')\<lparr>histGone := k # histGone st'\<rparr>)
      | (ForgetThrew, st') \<Rightarrow> filler FCrashed (st'\<lparr>histGone := k # histGone st'\<rparr>))"

text \<open>\<open>#repark\<close> does not look whether the slot is still in the pool; \<open>gone\<close> is what
  \<open>get-microvm\<close> said in \<open>#check\<close>: not found, or a terminal state.\<close>

definition repark :: "string \<Rightarrow> Pool \<Rightarrow> Pool" where
  "repark k st = st\<lparr>histSuspended := k # histSuspended st\<rparr>"

definition checkSlot :: "bool \<Rightarrow> bool \<Rightarrow> string \<Rightarrow> FillerPhase \<Rightarrow> Pool \<Rightarrow> Pool" where
  "checkSlot ok gone k p st = (if gone then loseSlot ok k p st else filler p st)"

declare repark_def [simp] checkSlot_def [simp]

text \<open>One turn of the loop of \<open>#reconcile\<close>.\<close>

fun reconcile :: "bool \<Rightarrow> bool \<Rightarrow> (SlotRecord \<times> ReconcileAction) list \<Rightarrow> Pool \<Rightarrow> Pool" where
  "reconcile ok gone [] st = sweepDone st"
| "reconcile ok gone ((r, action) # rest) st =
     (case action of
        Keep \<Rightarrow> filler (FReconciling rest) st
      | Repark \<Rightarrow> filler (FReconciling rest) (repark (sandboxId r) st)
      | Check \<Rightarrow> checkSlot ok gone (sandboxId r) (FReconciling rest) st
      | Drop \<Rightarrow> loseSlot ok (sandboxId r) (FReconciling rest) st)"

section \<open>close() and start()\<close>

definition closePool :: "PoolParams \<Rightarrow> bool \<Rightarrow> Pool \<Rightarrow> pool_error + Pool" where
  "closePool cfg drain st =
     (if \<not> drain \<and> \<not> poolPersistent cfg then Inl DrainRequired
      else if poolClosed st then Inr st
      else Inr (st\<lparr>poolClosing := if poolStarted st then CJoining else CSettling, poolDrains := drain\<rparr>))"

text \<open>\<open>#withTimeout\<close> on the filler: a filler that threw makes \<open>close()\<close> throw.\<close>

definition closeJoin :: "bool \<Rightarrow> Pool \<Rightarrow> Pool" where
  "closeJoin joinExpired st =
     (case poolFiller st of
        FCrashed \<Rightarrow> st\<lparr>poolClosing := CRejected\<rparr>
      | FStopped \<Rightarrow> st\<lparr>poolClosing := CSettling\<rparr>
      | _ \<Rightarrow> if joinExpired then st\<lparr>poolClosing := CSettling\<rparr> else st)"

definition closeSettled :: "Pool \<Rightarrow> Pool" where
  "closeSettled st = st\<lparr>poolClosing := if poolDrains st then CDraining (poolRecords st) else CClosed\<rparr>"

fun drain :: "bool \<Rightarrow> SlotRecord list \<Rightarrow> Pool \<Rightarrow> Pool" where
  "drain ok [] st = st\<lparr>poolClosing := CClosed\<rparr>"
| "drain ok (r # rest) st =
     (case forgetSlot ok (sandboxId r) st of
        (NotHeld, st') \<Rightarrow> st'\<lparr>poolClosing := CDraining rest\<rparr>
      | (Forgotten, st') \<Rightarrow> (terminateSlot (sandboxId r) st')\<lparr>poolClosing := CDraining rest\<rparr>
      | (ForgetThrew, st') \<Rightarrow> (strand (sandboxId r) st')\<lparr>poolClosing := CRejected\<rparr>)"

text \<open>\<open>#recover\<close> on one record of the backend.\<close>

definition recoverOne :: "PoolParams \<Rightarrow> SlotRecord \<Rightarrow> Pool \<Rightarrow> Pool" where
  "recoverOne cfg r st =
     (if \<not> ownsSlot r (Some (poolImage cfg)) then st\<lparr>histForeign := sandboxId r # histForeign st\<rparr>
      else let st' = noteLaunch (sandboxId r) st
           in if slotState r = Warming
              then terminateSlot (sandboxId r) (tally (lost_update Suc)
                     (st'\<lparr>poolStored := mapDelete (sandboxId r) (poolStored st')\<rparr>))
              else st'\<lparr>poolRecords := mapSet r (poolRecords st')\<rparr>)"

definition newPool :: "PoolParams \<Rightarrow> MemoryBackend \<Rightarrow> Pool" where
  "newPool cfg stored =
     \<lparr>poolRecords = [], poolStored = stored, poolCounters = newCounters, poolInflight = 0,
      poolPermits = fillConcurrency cfg, poolWarmUps = {#}, poolTakers = {#}, poolFiller = FLoop,
      poolClosing = COpen, poolDrains = False, poolStarted = False, poolDelayMs = initialDelayMs,
      poolPendingBackoff = None, histLaunched = [], histForeign = [], histHanded = [], histTerminated = [],
      histGone = [], histStranded = [], histSuspended = []\<rparr>"

text \<open>\<open>start()\<close> up to the first wait of its sweep; the end of that sweep starts the pool.\<close>

definition startPool :: "PoolParams \<Rightarrow> int \<Rightarrow> MemoryBackend \<Rightarrow> Pool" where
  "startPool cfg now stored = startSweep cfg now (fold (recoverOne cfg) stored (newPool cfg stored))"

section \<open>The interleaving of the tasks\<close>

text \<open>With \<open>reliable\<close> the backend accepts every call.\<close>

inductive pool_step :: "bool \<Rightarrow> PoolParams \<Rightarrow> Pool \<Rightarrow> Pool \<Rightarrow> bool" for reliable cfg where
  take_start: "takeStart st = Inr st' \<Longrightarrow> pool_step reliable cfg st st'"
| take_secrets: "TStarted \<in># poolTakers st \<Longrightarrow> pool_step reliable cfg st (takerDone TStarted st)"
| take_claim:
    "TStarted \<in># poolTakers st \<Longrightarrow> (reliable \<longrightarrow> ok) \<Longrightarrow>
     pool_step reliable cfg st (claimReadySlot cfg now ok keepWaiting TStarted st)"
| take_wake:
    "TWaiting \<in># poolTakers st \<Longrightarrow> (reliable \<longrightarrow> ok) \<Longrightarrow>
     pool_step reliable cfg st (wakeTaker cfg now ok keepWaiting st)"
| take_expired: "TWaiting \<in># poolTakers st \<Longrightarrow> pool_step reliable cfg st (taker TWaiting TFallback st)"
| take_resume: "TResuming r \<in># poolTakers st \<Longrightarrow> pool_step reliable cfg st (resumeSlot r answer st)"
| take_open: "TOpening r \<in># poolTakers st \<Longrightarrow> pool_step reliable cfg st (openSlot r opened st)"
| take_launched: "TFallback \<in># poolTakers st \<Longrightarrow> freshId k st \<Longrightarrow> pool_step reliable cfg st (fallbackLaunched k st)"
| take_created: "TCreating k \<in># poolTakers st \<Longrightarrow> pool_step reliable cfg st (fallbackCreated k st)"
| take_failed: "TFallback \<in># poolTakers st \<Longrightarrow> pool_step reliable cfg st (fallbackFailed None st)"
| take_failed_launched:
    "TCreating k \<in># poolTakers st \<Longrightarrow> pool_step reliable cfg st (fallbackFailed (Some k) st)"
| take_configured: "TConfiguring k \<in># poolTakers st \<Longrightarrow> pool_step reliable cfg st (takeConfigured k applied st)"
| warm_launch:
    "WCreating \<in># poolWarmUps st \<Longrightarrow> freshId (infoSandboxId info) st \<Longrightarrow> (reliable \<longrightarrow> ok) \<Longrightarrow>
     pool_step reliable cfg st (recordLaunch ok random (recordFromInfo info token region Warming None) st)"
| warm_create_failed: "WCreating \<in># poolWarmUps st \<Longrightarrow> pool_step reliable cfg st (createFailed random st)"
| warm_create_failed_launched:
    "WLaunched k \<in># poolWarmUps st \<Longrightarrow> (reliable \<longrightarrow> ok) \<Longrightarrow>
     pool_step reliable cfg st (createFailedLaunched ok random k st)"
| warm_created: "WLaunched k \<in># poolWarmUps st \<Longrightarrow> pool_step reliable cfg st (warmer (WLaunched k) (WParking k) st)"
| warm_park:
    "WParking (infoSandboxId info) \<in># poolWarmUps st \<Longrightarrow> \<not> poolClosed st \<Longrightarrow> (reliable \<longrightarrow> ok) \<Longrightarrow>
     pool_step reliable cfg st (parkReady ok (recordFromInfo info token region Ready (Some now)) st)"
| warm_park_stopped:
    "WParking k \<in># poolWarmUps st \<Longrightarrow> poolClosed st \<Longrightarrow> (reliable \<longrightarrow> ok) \<Longrightarrow>
     pool_step reliable cfg st (parkStopped ok k st)"
| warm_park_failed:
    "WParking k \<in># poolWarmUps st \<Longrightarrow> (reliable \<longrightarrow> ok) \<Longrightarrow> pool_step reliable cfg st (parkFailed ok random k st)"
| warm_finish: "WFinishing \<in># poolWarmUps st \<Longrightarrow> pool_step reliable cfg st (finishWarmUp st)"
| filler_loop: "poolFiller st = FLoop \<Longrightarrow> pool_step reliable cfg st (fillerLoop cfg st)"
| filler_paused: "poolFiller st = FPausing \<Longrightarrow> pool_step reliable cfg st (fillerPaused cfg st)"
| filler_work: "poolFiller st = FWaiting \<Longrightarrow> pool_step reliable cfg st (fillerWork cfg now due st)"
| sweep_recycle:
    "poolFiller st = FRecycling rs \<Longrightarrow> (reliable \<longrightarrow> ok) \<Longrightarrow> pool_step reliable cfg st (recycleStale ok rs st)"
| sweep_list: "poolFiller st = FListing \<Longrightarrow> pool_step reliable cfg st (reconcileListed listing st)"
| sweep_reconcile:
    "poolFiller st = FReconciling ras \<Longrightarrow> (reliable \<longrightarrow> ok) \<Longrightarrow> pool_step reliable cfg st (reconcile ok gone ras st)"
| close_start: "closePool cfg drains st = Inr st' \<Longrightarrow> pool_step reliable cfg st st'"
| close_join: "poolClosing st = CJoining \<Longrightarrow> pool_step reliable cfg st (closeJoin joinExpired st)"
| close_settled:
    "poolClosing st = CSettling \<Longrightarrow> poolWarmUps st = {#} \<Longrightarrow> pool_step reliable cfg st (closeSettled st)"
| close_drain:
    "poolClosing st = CDraining rs \<Longrightarrow> (reliable \<longrightarrow> ok) \<Longrightarrow> pool_step reliable cfg st (drain ok rs st)"

definition pool_reach :: "bool \<Rightarrow> PoolParams \<Rightarrow> Pool \<Rightarrow> Pool \<Rightarrow> bool" where
  "pool_reach reliable cfg = (pool_step reliable cfg)\<^sup>*\<^sup>*"

end
