(* ===== verification/Pool_Ledger.thy ===== *)
theory Pool_Ledger
  imports Pool
begin

text \<open>
  Every sandbox that a pool launched or recovered is in exactly one place: in the
  map of the pool, with a \<open>take()\<close> call, handed out, terminated, gone from the
  platform, or given up after a backend refusal.  The account is a multiset
  equation that each piece of \<open>pool/pool.ts\<close> keeps.
\<close>

section \<open>Invariants of a step relation\<close>

locale step_invariant =
  fixes step :: "'s \<Rightarrow> 's \<Rightarrow> bool" and initial :: "'s \<Rightarrow> bool" and inv :: "'s \<Rightarrow> bool"
  assumes inv_initial: "initial s \<Longrightarrow> inv s"
    and inv_step: "inv s \<Longrightarrow> step s s' \<Longrightarrow> inv s'"
begin

lemma inv_reachable: "step\<^sup>*\<^sup>* s0 s \<Longrightarrow> initial s0 \<Longrightarrow> inv s"
  by (induction rule: rtranclp_induct) (auto intro: inv_initial inv_step)

end

section \<open>Records as multisets of ids\<close>

definition ids :: "SlotRecord list \<Rightarrow> string multiset" where
  "ids rs = mset (map sandboxId rs)"

definition warming :: "SlotRecord list \<Rightarrow> string multiset" where
  "warming rs = ids (filter (\<lambda>r. slotState r = Warming) rs)"

lemma ids_simps [simp]: "ids [] = {#}" "ids (r # rs) = add_mset (sandboxId r) (ids rs)" "ids (rs @ rs') = ids rs + ids rs'"
  by (simp_all add: ids_def)

lemma mem_ids: "k \<in># ids rs \<longleftrightarrow> mapHas k rs"
  by (auto simp: ids_def mapHas_def)

lemma mapWf_simps [simp]: "mapWf []" "mapWf (r # rs) \<longleftrightarrow> \<not> mapHas (sandboxId r) rs \<and> mapWf rs"
  by (auto simp: mapWf_def mapHas_def)

lemma warming_subset: "k \<in># warming rs \<Longrightarrow> mapHas k rs"
  by (auto simp: warming_def ids_def mapHas_def)

lemma ids_delete: "mapWf rs \<Longrightarrow> mapHas k rs \<Longrightarrow> ids rs = add_mset k (ids (mapDelete k rs))"
proof (induction rs)
  case (Cons r rs)
  then show ?case
    using mapDelete_absent [of k rs] by (auto simp: mapDelete_def mapHas_def)
qed (simp add: mapHas_def)

lemma warming_simps [simp]: "warming [] = {#}"
  "warming (r # rs) = (if slotState r = Warming then add_mset (sandboxId r) (warming rs) else warming rs)"
  by (simp_all add: warming_def)

lemma warming_delete: "mapWf rs \<Longrightarrow> warming (mapDelete k rs) = warming rs - {#k#}"
proof (induction rs)
  case (Cons r rs)
  have "k \<notin># warming rs" if "k = sandboxId r"
    using Cons.prems that warming_subset by auto
  with Cons show ?case by (auto simp: mapDelete_def diff_single_trivial)
qed (simp add: mapDelete_def)

lemma ids_set: "ids (mapSet r rs) = (if mapHas (sandboxId r) rs then ids rs else add_mset (sandboxId r) (ids rs))"
  unfolding ids_def mapSet_id_list by (simp add: mapHas_def)

lemma warming_append [simp]: "warming (rs @ rs') = warming rs + warming rs'"
  by (simp add: warming_def)

lemma warming_set_new:
  "\<not> mapHas (sandboxId r) rs \<Longrightarrow> slotState r = Warming \<Longrightarrow> warming (mapSet r rs) = add_mset (sandboxId r) (warming rs)"
  by (simp add: mapSet_new mapHas_def)

lemma warming_set_ready:
  assumes "slotState r = Ready" "mapWf rs"
  shows "warming (mapSet r rs) = warming rs - {#sandboxId r#}"
proof (cases "mapHas (sandboxId r) rs")
  case True
  have "warming (map (\<lambda>x. if sandboxId x = sandboxId r then r else x) rs) = warming (mapDelete (sandboxId r) rs)"
    using assms(1) by (induction rs) (auto simp: mapDelete_def)
  with True assms(2) show ?thesis by (simp add: mapSet_def mapHas_def warming_delete)
next
  case False
  then show ?thesis
    using assms(1) warming_subset [of "sandboxId r" rs]
    by (metis add.right_neutral diff_single_trivial mapHas_def mapSet_new SlotState.distinct(1) warming_append warming_simps)
qed

section \<open>The account\<close>

fun heldIds :: "TakePhase \<Rightarrow> string multiset" where
  "heldIds (TResuming r) = {#sandboxId r#}"
| "heldIds (TOpening r) = {#sandboxId r#}"
| "heldIds (TCreating k) = {#k#}"
| "heldIds (TConfiguring k) = {#k#}"
| "heldIds _ = {#}"

fun warmIds :: "WarmPhase \<Rightarrow> string multiset" where
  "warmIds (WLaunched k) = {#k#}"
| "warmIds (WParking k) = {#k#}"
| "warmIds _ = {#}"

definition held :: "TakePhase multiset \<Rightarrow> string multiset" where
  "held M = sum_mset (image_mset heldIds M)"

definition warm :: "WarmPhase multiset \<Rightarrow> string multiset" where
  "warm M = sum_mset (image_mset warmIds M)"

lemma held_simps [simp]: "held {#} = {#}" "held (add_mset p M) = heldIds p + held M"
  by (simp_all add: held_def)

lemma warm_simps [simp]: "warm {#} = {#}" "warm (add_mset p M) = warmIds p + warm M"
  by (simp_all add: warm_def)

definition account :: "Pool \<Rightarrow> string multiset" where
  "account st = ids (poolRecords st) + (held (poolTakers st) + mset (histHanded st) + mset (histTerminated st) +
     mset (histGone st) + mset (histStranded st))"

fun sweepIds :: "FillerPhase \<Rightarrow> string set" where
  "sweepIds (FRecycling rs) = sandboxId ` set rs"
| "sweepIds (FReconciling ras) = (sandboxId \<circ> fst) ` set ras"
| "sweepIds _ = {}"

fun settled :: "ClosePhase \<Rightarrow> bool" where
  "settled (CDraining rs) = True"
| "settled CClosed = True"
| "settled _ = False"

definition ledger :: "Pool \<Rightarrow> bool" where
  "ledger st \<longleftrightarrow> account st = mset (histLaunched st) \<and> distinct (histLaunched st) \<and>
     warm (poolWarmUps st) = warming (poolRecords st) \<and>
     (\<forall>k \<in> sweepIds (poolFiller st). k \<in> set (histLaunched st) \<and> k \<notin># warming (poolRecords st)) \<and>
     (settled (poolClosing st) \<longrightarrow> poolWarmUps st = {#})"

lemmas pool_updates =
  terminateSlot_def strand_def tally_def taker_def takerDone_def warmer_def filler_def noteLaunch_def replaceTask_def

lemma ledger_wf: "ledger st \<Longrightarrow> mapWf (poolRecords st)"
proof -
  assume "ledger st"
  then have "ids (poolRecords st) \<subseteq># mset (histLaunched st)" "distinct (histLaunched st)"
    unfolding ledger_def account_def by (metis mset_subset_eq_add_left, simp)
  then show ?thesis
    unfolding mapWf_def ids_def
    by (metis distinct_append mset_append mset_eq_imp_distinct_iff mset_subset_eqD subset_mset.le_iff_add ex_mset)
qed

lemma ledger_known: "ledger st \<Longrightarrow> mapHas k (poolRecords st) \<Longrightarrow> k \<in> set (histLaunched st)"
  by (metis account_def ledger_def mem_ids set_mset_mset union_iff)

lemma ledger_fresh: "ledger st \<Longrightarrow> freshId k st \<Longrightarrow> \<not> mapHas k (poolRecords st)"
  using ledger_known by (auto simp: freshId_def)

lemma ledger_warm: "ledger st \<Longrightarrow> k \<in># warm (poolWarmUps st) \<Longrightarrow> mapHas k (poolRecords st)"
  by (simp add: ledger_def warming_subset)

lemmas ledger_defs = ledger_def account_def pool_updates
lemmas taker_split = multi_member_split [where 'a = TakePhase]
lemmas warmer_split = multi_member_split [where 'a = WarmPhase]

subsection \<open>take()\<close>

lemma ledger_takeStart: "ledger st \<Longrightarrow> takeStart st = Inr st' \<Longrightarrow> ledger st'"
  by (auto simp: takeStart_def requireOpen_def andThen_def ledger_defs split: if_splits)

lemma ledger_takerDone: "ledger st \<Longrightarrow> heldIds p = {#} \<Longrightarrow> p \<in># poolTakers st \<Longrightarrow> ledger (takerDone p st)"
  by (auto simp: ledger_defs dest!: taker_split)

lemma ledger_taker:
  "ledger st \<Longrightarrow> heldIds p = heldIds q \<Longrightarrow> p \<in># poolTakers st \<Longrightarrow> ledger (taker p q st)"
  by (auto simp: ledger_defs dest!: taker_split)

lemma ledger_resumeSlot: "ledger st \<Longrightarrow> TResuming r \<in># poolTakers st \<Longrightarrow> ledger (resumeSlot r answer st)"
  by (cases answer) (auto simp: resumeSlot_def ledger_defs dest!: taker_split)

lemma ledger_openSlot: "ledger st \<Longrightarrow> TOpening r \<in># poolTakers st \<Longrightarrow> ledger (openSlot r opened st)"
  by (cases opened) (auto simp: openSlot_def ledger_defs dest!: taker_split)

lemma ledger_fallbackLaunched:
  "ledger st \<Longrightarrow> TFallback \<in># poolTakers st \<Longrightarrow> freshId k st \<Longrightarrow> ledger (fallbackLaunched k st)"
  by (auto simp: fallbackLaunched_def freshId_def ledger_defs dest!: taker_split)

lemma ledger_fallbackCreated: "ledger st \<Longrightarrow> TCreating k \<in># poolTakers st \<Longrightarrow> ledger (fallbackCreated k st)"
  by (auto simp: fallbackCreated_def ledger_defs dest!: taker_split)

lemma ledger_fallbackFailed:
  "ledger st \<Longrightarrow> (case k of None \<Rightarrow> TFallback | Some i \<Rightarrow> TCreating i) \<in># poolTakers st \<Longrightarrow> ledger (fallbackFailed k st)"
  by (cases k) (auto simp: fallbackFailed_def ledger_defs dest!: taker_split)

lemma ledger_takeConfigured:
  "ledger st \<Longrightarrow> TConfiguring k \<in># poolTakers st \<Longrightarrow> ledger (takeConfigured k applied st)"
  by (cases applied) (auto simp: takeConfigured_def ledger_defs dest!: taker_split)

subsection \<open>Claiming a slot\<close>

lemma ready_not_warming:
  "mapWf rs \<Longrightarrow> r \<in> set rs \<Longrightarrow> slotState r = Ready \<Longrightarrow> sandboxId r \<notin># warming rs"
proof (induction rs)
  case (Cons a rs)
  then show ?case
    by (cases "r = a") (auto simp: mapHas_def rev_image_eqI dest: warming_subset)
qed simp

lemma ledger_delete:
  assumes "ledger st" "mapHas k (poolRecords st)"
  shows "ids (poolRecords st) = add_mset k (ids (mapDelete k (poolRecords st)))"
    and "warming (mapDelete k (poolRecords st)) = warming (poolRecords st) - {#k#}"
  using assms ledger_wf by (auto intro: ids_delete warming_delete)

lemma ledger_popReady:
  assumes "ledger st" "popReady cfg now ok st = (res, st')" "p \<in># poolTakers st" "heldIds p = {#}"
  shows "ledger (case res of Inl _ \<Rightarrow> takerDone p st' | Inr (Some r) \<Rightarrow> taker p (TResuming r) st' | Inr None \<Rightarrow> st')"
proof (cases "pickReadySlot (poolRecords st) now (minRemaining cfg)")
  case None
  with assms show ?thesis by (auto simp: popReady_def)
next
  case (Some r)
  then have r: "r \<in> set (poolRecords st)" "slotState r = Ready"
    by (auto simp: available_def dest: pickReadySlot_Some)
  then have "mapHas (sandboxId r) (poolRecords st)" by (simp add: mapHas_def)
  note del = ledger_delete [OF assms(1) this]
  have "sandboxId r \<notin># warming (poolRecords st)" using r assms(1) by (intro ready_not_warming ledger_wf)
  with del(2) have "warming (mapDelete (sandboxId r) (poolRecords st)) = warming (poolRecords st)"
    by (simp add: diff_single_trivial)
  with assms Some del(1) show ?thesis
    by (auto simp: popReady_def ledger_defs Let_def split: if_splits dest!: taker_split)
qed

lemma ledger_claimReadySlot:
  assumes "ledger st" "p \<in># poolTakers st" "heldIds p = {#}"
  shows "ledger (claimReadySlot cfg now ok keepWaiting p st)"
proof -
  obtain res st' where pop: "popReady cfg now ok st = (res, st')" by force
  have "p \<in># poolTakers st'" if "res = Inr None"
    using pop that assms(2) by (auto simp: popReady_def Let_def split: option.splits if_splits)
  with ledger_popReady [OF assms(1) pop assms(2,3)] assms(3) show ?thesis
    by (auto simp: claimReadySlot_def pop intro: ledger_taker split: sum.splits option.splits)
qed

lemma ledger_wakeTaker: "ledger st \<Longrightarrow> TWaiting \<in># poolTakers st \<Longrightarrow> ledger (wakeTaker cfg now ok keepWaiting st)"
  by (auto simp: wakeTaker_def intro: ledger_claimReadySlot ledger_takerDone split: sum.split)

subsection \<open>Filling\<close>

lemma startWarmUp_pow:
  "(startWarmUp ^^ n) st = st\<lparr>poolPermits := poolPermits st - n,
     poolWarmUps := poolWarmUps st + replicate_mset (min n (poolPermits st)) WCreating +
       replicate_mset (n - poolPermits st) WQueued\<rparr>"
proof (induction n)
  case (Suc n)
  show ?case
  proof (cases "n < poolPermits st")
    case True
    then have "Suc n - poolPermits st = 0" "n - poolPermits st = 0" "min (Suc n) (poolPermits st) = Suc n"
      "min n (poolPermits st) = n" by auto
    with Suc True show ?thesis by (simp add: startWarmUp_def)
  next
    case False
    then have "Suc n - poolPermits st = Suc (n - poolPermits st)" "min (Suc n) (poolPermits st) = min n (poolPermits st)"
      by auto
    with Suc False show ?thesis by (simp add: startWarmUp_def)
  qed
qed simp

lemma warm_replicate [simp]: "warm (M + N) = warm M + warm N" "warmIds p = {#} \<Longrightarrow> warm (replicate_mset n p) = {#}"
  by (simp add: warm_def) (induction n, auto)

lemma ledger_submitWarmUps: "ledger st \<Longrightarrow> \<not> poolClosed st \<Longrightarrow> ledger (submitWarmUps cfg st)"
  by (auto simp: submitWarmUps_def startWarmUp_pow ledger_defs poolClosed_def)

lemma ledger_finishWarmUp: "ledger st \<Longrightarrow> WFinishing \<in># poolWarmUps st \<Longrightarrow> ledger (finishWarmUp st)"
  by (auto simp: finishWarmUp_def releasePermit_def Let_def ledger_defs dest!: warmer_split)

lemma ledger_warmer:
  "ledger st \<Longrightarrow> warmIds p = warmIds q \<Longrightarrow> p \<in># poolWarmUps st \<Longrightarrow> ledger (warmer p q st)"
  by (auto simp: ledger_defs dest!: warmer_split)

lemma noteFailure_frame:
  "\<exists>c d b. noteFailure random st = st\<lparr>poolCounters := c, poolDelayMs := d, poolPendingBackoff := b\<rparr>"
  by (auto simp: noteFailure_def pool_updates split: prod.split)

lemma ledger_noteFailure [simp]: "ledger (noteFailure random st) = ledger st" "poolWarmUps (noteFailure random st) = poolWarmUps st"
  using noteFailure_frame [of random st] by (auto simp: ledger_defs)

lemma forgetSlot_eq:
  "forgetSlot ok k st =
     (if mapHas k (poolRecords st)
      then (if ok then Forgotten else ForgetThrew,
            st\<lparr>poolRecords := mapDelete k (poolRecords st),
               poolStored := if ok then mapDelete k (poolStored st) else poolStored st\<rparr>)
      else (NotHeld, st))"
  by (simp add: forgetSlot_def Let_def)

lemma ledger_recordLaunch:
  assumes "ledger st" "WCreating \<in># poolWarmUps st" "freshId (sandboxId r) st" "slotState r = Warming"
  shows "ledger (recordLaunch ok random r st)"
proof (cases ok)
  case True
  have "\<not> mapHas (sandboxId r) (poolRecords st)" using assms(1,3) by (rule ledger_fresh)
  with True assms show ?thesis
    by (auto simp: recordLaunch_def Let_def ids_set warming_set_new freshId_def ledger_defs dest!: warmer_split)
next
  case False
  have "\<not> mapHas (sandboxId r) (poolRecords st)" using assms(1,3) by (rule ledger_fresh)
  then have "ledger (snd (warmUpFailed True (Some (sandboxId r)) random
      (terminateSlot (sandboxId r) (noteLaunch (sandboxId r) st))))"
    using assms by (auto simp: warmUpFailed_def forgetSlot_eq pool_updates)
      (auto simp: ledger_defs freshId_def)
  moreover have "WCreating \<in># poolWarmUps (snd (warmUpFailed True (Some (sandboxId r)) random
      (terminateSlot (sandboxId r) (noteLaunch (sandboxId r) st))))"
    using assms(2) by (auto simp: warmUpFailed_def forgetSlot_eq pool_updates)
  ultimately show ?thesis using False by (simp add: recordLaunch_def Let_def ledger_warmer)
qed

lemma ledger_createFailed: "ledger st \<Longrightarrow> WCreating \<in># poolWarmUps st \<Longrightarrow> ledger (createFailed random st)"
  by (simp add: createFailed_def warmUpFailed_def ledger_warmer)

text \<open>What ends a warm-up that holds a record: the record leaves the map and the id goes
  to the terminated or the stranded ones.\<close>

lemma ledger_warm_ended:
  assumes "ledger st" "p \<in># poolWarmUps st" "warmIds p = {#k#}"
    and new: "poolRecords st' = mapDelete k (poolRecords st)" "poolTakers st' = poolTakers st"
      "poolWarmUps st' = add_mset WFinishing (poolWarmUps st - {#p#})" "poolFiller st' = poolFiller st"
      "poolClosing st' = poolClosing st" "histLaunched st' = histLaunched st" "histHanded st' = histHanded st"
      "histGone st' = histGone st"
      "mset (histTerminated st') + mset (histStranded st') = add_mset k (mset (histTerminated st) + mset (histStranded st))"
  shows "ledger st'"
proof -
  obtain M where M: "poolWarmUps st = add_mset p M" using assms(2) by (auto dest: multi_member_split)
  then have "k \<in># warm (poolWarmUps st)" using assms(3) by simp
  then have "mapHas k (poolRecords st)" by (rule ledger_warm [OF assms(1)])
  note del = ledger_delete [OF assms(1) this]
  have "account st' = account st" using new del(1) by (simp add: account_def add.assoc add.left_commute add.commute)
  moreover have "warm (poolWarmUps st') = warming (poolRecords st')"
    using assms(1,3) M new del(2) by (auto simp: ledger_def) (metis add_mset_remove_trivial)
  ultimately show ?thesis
    using assms(1) M new del(2) by (auto simp: ledger_def dest: in_diffD)
qed

lemma ledger_warm_has: "ledger st \<Longrightarrow> p \<in># poolWarmUps st \<Longrightarrow> warmIds p = {#k#} \<Longrightarrow> mapHas k (poolRecords st)"
  by (rule ledger_warm) (auto dest!: warmer_split)

lemma noteFailure_fields [simp]:
  "poolRecords (noteFailure random st) = poolRecords st" "poolStored (noteFailure random st) = poolStored st"
  "poolTakers (noteFailure random st) = poolTakers st" "poolFiller (noteFailure random st) = poolFiller st"
  "poolClosing (noteFailure random st) = poolClosing st" "histLaunched (noteFailure random st) = histLaunched st"
  "histForeign (noteFailure random st) = histForeign st" "histHanded (noteFailure random st) = histHanded st"
  "histTerminated (noteFailure random st) = histTerminated st" "histGone (noteFailure random st) = histGone st"
  "histStranded (noteFailure random st) = histStranded st" "poolInflight (noteFailure random st) = poolInflight st"
  "poolPermits (noteFailure random st) = poolPermits st"
  using noteFailure_frame [of random st] by auto

lemma ledger_parkStopped: "ledger st \<Longrightarrow> WParking k \<in># poolWarmUps st \<Longrightarrow> ledger (parkStopped ok k st)"
  using ledger_warm_has [of st "WParking k" k]
  by (auto intro!: ledger_warm_ended [of st "WParking k" k] simp: parkStopped_def discard_def forgetSlot_eq pool_updates)

lemma ledger_parkFailed: "ledger st \<Longrightarrow> WParking k \<in># poolWarmUps st \<Longrightarrow> ledger (parkFailed ok random k st)"
  using ledger_warm_has [of st "WParking k" k]
  by (auto intro!: ledger_warm_ended [of st "WParking k" k] simp: parkFailed_def warmUpFailed_def forgetSlot_eq pool_updates)

lemma ledger_createFailedLaunched:
  "ledger st \<Longrightarrow> WLaunched k \<in># poolWarmUps st \<Longrightarrow> ledger (createFailedLaunched ok random k st)"
  using ledger_warm_has [of st "WLaunched k" k]
  by (auto intro!: ledger_warm_ended [of st "WLaunched k" k]
      simp: createFailedLaunched_def warmUpFailed_def forgetSlot_eq pool_updates)

lemma ledger_parkReady:
  assumes "ledger st" "WParking (sandboxId r) \<in># poolWarmUps st" "slotState r = Ready"
  shows "ledger (parkReady ok r st)"
proof -
  obtain M where M: "poolWarmUps st = add_mset (WParking (sandboxId r)) M" using assms(2) by (auto dest: multi_member_split)
  have "warm M = warming (poolRecords st) - {#sandboxId r#}"
    using assms(1) M by (auto simp: ledger_def) (metis add_mset_remove_trivial)
  moreover have "mapHas (sandboxId r) (poolRecords st)" using assms by (intro ledger_warm_has) auto
  ultimately show ?thesis
    using assms M ledger_wf [OF assms(1)]
    by (auto simp: parkReady_def recordReady_def Let_def ids_set warming_set_ready ledger_defs dest: in_diffD)
qed

subsection \<open>Sweeping and closing\<close>

lemma ledger_slot_removed:
  assumes "ledger st" "mapHas k (poolRecords st)" "k \<notin># warming (poolRecords st)"
    and new: "poolRecords st' = mapDelete k (poolRecords st)" "poolTakers st' = poolTakers st"
      "poolWarmUps st' = poolWarmUps st" "sweepIds (poolFiller st') \<subseteq> sweepIds (poolFiller st)"
      "settled (poolClosing st') \<Longrightarrow> poolWarmUps st = {#}" "histLaunched st' = histLaunched st"
      "histHanded st' = histHanded st"
      "mset (histTerminated st') + mset (histGone st') + mset (histStranded st') =
        add_mset k (mset (histTerminated st) + mset (histGone st) + mset (histStranded st))"
  shows "ledger st'"
proof -
  note del = ledger_delete [OF assms(1,2)]
  have "account st' = account st" using new del(1) by (simp add: account_def add.assoc add.left_commute add.commute)
  with assms(1,3) new del(2) show ?thesis by (auto simp: ledger_def diff_single_trivial)
qed

lemma ledger_filler: "ledger st \<Longrightarrow> sweepIds p \<subseteq> sweepIds (poolFiller st) \<Longrightarrow> ledger (filler p st)"
  by (auto simp: ledger_defs)

lemma ledger_sweepDone: "ledger st \<Longrightarrow> ledger (sweepDone st)"
  by (auto simp: sweepDone_def ledger_defs)

lemma ledger_ready: "ledger st \<Longrightarrow> r \<in> set (readyRecords st) \<Longrightarrow>
  sandboxId r \<in> set (histLaunched st) \<and> sandboxId r \<notin># warming (poolRecords st)"
  using ledger_wf ledger_known ready_not_warming
  by (auto simp: readyRecords_def mapHas_def)

lemma ledger_startSweep: "ledger st \<Longrightarrow> ledger (startSweep cfg now st)"
  using ledger_ready by (auto simp: startSweep_def ledger_defs)

lemma ledger_reconcileListed: "ledger st \<Longrightarrow> ledger (reconcileListed listing st)"
  using ledger_ready by (cases listing) (auto simp: reconcileListed_def ledger_sweepDone, auto simp: ledger_defs)

lemma ledger_swept: "ledger st \<Longrightarrow> k \<in> sweepIds (poolFiller st) \<Longrightarrow> k \<notin># warming (poolRecords st)"
  by (simp add: ledger_def)

lemma settledD: "ledger st \<Longrightarrow> settled (poolClosing st) \<Longrightarrow> poolWarmUps st = {#}"
  by (simp add: ledger_def)

lemma ledger_recycleStale:
  assumes "ledger st" "poolFiller st = FRecycling rs"
  shows "ledger (recycleStale ok rs st)"
proof (cases rs)
  case (Cons r rest)
  then have "sandboxId r \<notin># warming (poolRecords st)" using assms ledger_swept by simp
  with Cons assms show ?thesis
  proof (cases "mapHas (sandboxId r) (poolRecords st)")
    case True
    with \<open>sandboxId r \<notin># warming (poolRecords st)\<close> Cons assms show ?thesis
      by (auto simp: forgetSlot_eq pool_updates intro!: ledger_slot_removed [of st "sandboxId r"] dest: settledD)
  qed (auto simp: forgetSlot_eq intro: ledger_filler)
qed (use assms in \<open>simp add: ledger_filler\<close>)

lemma ledger_loseSlot:
  assumes "ledger st" "k \<in> sweepIds (poolFiller st)" "sweepIds p \<subseteq> sweepIds (poolFiller st)"
  shows "ledger (loseSlot ok k p st)"
proof (cases "mapHas k (poolRecords st)")
  case True
  with assms ledger_swept [OF assms(1,2)] show ?thesis
    by (auto simp: loseSlot_def forgetSlot_eq pool_updates intro!: ledger_slot_removed [of st k] dest: settledD)
next
  case False
  with assms show ?thesis by (simp add: loseSlot_def forgetSlot_eq ledger_filler)
qed

lemma ledger_suspended [simp]: "ledger (st\<lparr>histSuspended := ks\<rparr>) = ledger st"
  by (simp add: ledger_defs)

lemma ledger_reconcile: "ledger st \<Longrightarrow> poolFiller st = FReconciling ras \<Longrightarrow> ledger (reconcile ok gone ras st)"
proof (cases ras)
  case (Cons ra rest)
  assume "ledger st" "poolFiller st = FReconciling ras"
  with Cons show ?thesis
    by (cases ra; cases "snd ra") (auto intro!: ledger_filler ledger_loseSlot)
qed (simp add: ledger_sweepDone)

lemma ledger_fillerLoop: "ledger st \<Longrightarrow> poolFiller st = FLoop \<Longrightarrow> ledger (fillerLoop cfg st)"
  using ledger_submitWarmUps [of st cfg]
  by (auto simp: fillerLoop_def intro!: ledger_filler split: option.split) (simp add: ledger_defs)

lemma ledger_fillerPaused: "ledger st \<Longrightarrow> ledger (fillerPaused cfg st)"
  using ledger_submitWarmUps [of st cfg] by (auto simp: fillerPaused_def intro!: ledger_filler)

lemma ledger_fillerWork: "ledger st \<Longrightarrow> ledger (fillerWork cfg now due st)"
  by (auto simp: fillerWork_def intro: ledger_startSweep ledger_filler)

lemma ledger_closePool: "ledger st \<Longrightarrow> closePool cfg d st = Inr st' \<Longrightarrow> ledger st'"
  by (auto simp: closePool_def ledger_defs split: if_splits)

lemma ledger_closeJoin: "ledger st \<Longrightarrow> poolClosing st = CJoining \<Longrightarrow> ledger (closeJoin expired st)"
  by (cases "poolFiller st") (auto simp: closeJoin_def ledger_defs)

lemma ledger_closeSettled: "ledger st \<Longrightarrow> poolWarmUps st = {#} \<Longrightarrow> ledger (closeSettled st)"
  by (auto simp: closeSettled_def ledger_defs)

lemma ledger_drain: "ledger st \<Longrightarrow> poolClosing st = CDraining rs \<Longrightarrow> ledger (drain ok rs st)"
proof -
  assume a: "ledger st" "poolClosing st = CDraining rs"
  then have w: "poolWarmUps st = {#}" "warming (poolRecords st) = {#}" by (auto simp: ledger_def)
  show ?thesis
  proof (cases rs)
    case Nil
    with a w show ?thesis by (auto simp: ledger_defs)
  next
    case (Cons r rest)
    show ?thesis
    proof (cases "mapHas (sandboxId r) (poolRecords st)")
      case True
      with a w Cons show ?thesis
        by (auto simp: forgetSlot_eq pool_updates intro!: ledger_slot_removed [of st "sandboxId r"])
    next
      case False
      with a w Cons show ?thesis by (auto simp: forgetSlot_eq ledger_defs)
    qed
  qed
qed

section \<open>Every reachable state\<close>

lemma ledger_step:
  assumes "ledger st" "pool_step reliable cfg st st'"
  shows "ledger st'"
  using assms(2,1)
proof cases
  case (warm_launch info ok random token region)
  then show ?thesis using assms(1) by (auto intro!: ledger_recordLaunch simp: recordFromInfo_def)
next
  case (warm_park info ok token region now)
  then show ?thesis using assms(1) by (auto intro!: ledger_parkReady simp: recordFromInfo_def)
qed (auto intro: ledger_takeStart ledger_takerDone ledger_claimReadySlot ledger_wakeTaker ledger_taker
  ledger_resumeSlot ledger_openSlot ledger_fallbackLaunched ledger_fallbackCreated ledger_fallbackFailed
  ledger_takeConfigured ledger_createFailed ledger_createFailedLaunched ledger_warmer ledger_parkStopped
  ledger_parkFailed ledger_finishWarmUp ledger_fillerLoop ledger_fillerPaused ledger_fillerWork
  ledger_recycleStale ledger_reconcileListed ledger_reconcile ledger_closePool ledger_closeJoin
  ledger_closeSettled ledger_drain)

text \<open>\<open>#recover\<close> starts from records with distinct ids.\<close>

definition recovering :: "SlotRecord list \<Rightarrow> Pool \<Rightarrow> bool" where
  "recovering rs st \<longleftrightarrow> ledger st \<and> mapWf rs \<and> poolFiller st = FLoop \<and> poolClosing st = COpen \<and>
     poolWarmUps st = {#} \<and> (\<forall>r \<in> set rs. freshId (sandboxId r) st)"

lemma recovering_recoverOne: "recovering (r # rs) st \<Longrightarrow> recovering rs (recoverOne cfg r st)"
proof -
  assume a: "recovering (r # rs) st"
  then have "\<not> mapHas (sandboxId r) (poolRecords st)" using ledger_fresh by (auto simp: recovering_def)
  moreover from a have "sandboxId x \<noteq> sandboxId r" if "x \<in> set rs" for x
    using that unfolding recovering_def by (metis image_eqI mapHas_def mapWf_simps(2))
  ultimately show ?thesis
    using a by (cases "slotState r")
      (auto simp: recovering_def recoverOne_def Let_def freshId_def ledger_defs ids_set mapHas_def mapSet_new)
qed

lemma recovering_fold: "recovering rs st \<Longrightarrow> recovering [] (fold (recoverOne cfg) rs st)"
  by (induction rs arbitrary: st) (auto intro: recovering_recoverOne)

lemma recovering_newPool: "mapWf stored \<Longrightarrow> recovering stored (newPool cfg stored)"
  by (auto simp: recovering_def newPool_def ledger_defs freshId_def)

definition pool_initial :: "PoolParams \<Rightarrow> Pool \<Rightarrow> bool" where
  "pool_initial cfg st \<longleftrightarrow> (\<exists>now stored. mapWf stored \<and> st = startPool cfg now stored)"

lemma ledger_initial: "pool_initial cfg st \<Longrightarrow> ledger st"
  using recovering_fold [OF recovering_newPool]
  by (auto simp: pool_initial_def startPool_def recovering_def intro!: ledger_startSweep)

interpretation ledger: step_invariant "pool_step reliable cfg" "pool_initial cfg" ledger for reliable cfg
  by unfold_locales (auto intro: ledger_initial ledger_step)

lemma reach_ledger: "mapWf stored \<Longrightarrow> pool_reach reliable cfg (startPool cfg now stored) st \<Longrightarrow> ledger st"
  unfolding pool_reach_def by (erule ledger.inv_reachable) (auto simp: pool_initial_def)

lemma distinct_account:
  "ledger st \<Longrightarrow> mset xs = account st \<Longrightarrow> distinct xs \<and> set xs = set (histLaunched st)"
  by (metis ledger_def mset_eq_imp_distinct_iff mset_eq_setD)

section \<open>Properties\<close>

text \<open>The ids that \<open>take()\<close> calls are working on.\<close>

definition heldSet :: "Pool \<Rightarrow> string set" where
  "heldSet st = set_mset (held (poolTakers st))"

text \<open>C2: whatever the interleaving of calls, warm-ups, sweeps and \<open>close()\<close>, and whatever
  the platform and the backend answer, every sandbox that the pool launched or
  adopted is in exactly one place: in the pool, with a \<open>take()\<close> call, handed out,
  terminated, gone, or given up.  So none is handed out twice, and none that was
  handed out is terminated by the pool or still among its slots.\<close>
theorem pool_conservation:
  assumes "mapWf stored" "pool_reach reliable cfg (startPool cfg now stored) st"
  shows "distinct (map sandboxId (poolRecords st) @ histHanded st @ histTerminated st @ histGone st @ histStranded st) \<and>
    set (histLaunched st) = sandboxId ` set (poolRecords st) \<union> heldSet st \<union> set (histHanded st) \<union>
      set (histTerminated st) \<union> set (histGone st) \<union> set (histStranded st) \<and>
    heldSet st \<inter> (sandboxId ` set (poolRecords st) \<union> set (histHanded st) \<union>
      set (histTerminated st) \<union> set (histGone st) \<union> set (histStranded st)) = {}"
proof -
  obtain hs where hs: "mset hs = held (poolTakers st)" using ex_mset by blast
  let ?all = "map sandboxId (poolRecords st) @ hs @ histHanded st @ histTerminated st @ histGone st @ histStranded st"
  have "ledger st" using assms by (rule reach_ledger)
  moreover have "mset ?all = account st"
    using hs by (simp add: account_def ids_def add.assoc)
  ultimately have "distinct ?all" "set ?all = set (histLaunched st)"
    using distinct_account by blast+
  moreover have "heldSet st = set hs" using hs by (metis heldSet_def set_mset_mset)
  ultimately show ?thesis by auto
qed

end
