(* ===== verification/Pool_Counts.thy ===== *)
theory Pool_Counts
  imports Pool_Ledger
begin

text \<open>
  The numbers of the pool: warm-ups in flight, permits of the semaphore, the size
  the filler aims at, and the counters of \<open>take()\<close>.
\<close>

section \<open>The invariant\<close>

definition readyCount :: "SlotRecord list \<Rightarrow> nat" where
  "readyCount rs = length (filter (\<lambda>r. slotState r = Ready) rs)"

definition active :: "WarmPhase multiset \<Rightarrow> nat" where
  "active M = size (filter_mset (\<lambda>p. p \<noteq> WQueued) M)"

definition unfinished :: "WarmPhase multiset \<Rightarrow> nat" where
  "unfinished M = size (filter_mset (\<lambda>p. p \<noteq> WFinishing) M)"

definition counts :: "PoolParams \<Rightarrow> nat \<Rightarrow> Pool \<Rightarrow> bool" where
  "counts cfg cap st \<longleftrightarrow> poolInflight st = size (poolWarmUps st) \<and>
     poolPermits st + active (poolWarmUps st) = fillConcurrency cfg \<and>
     (WQueued \<in># poolWarmUps st \<longrightarrow> poolPermits st = 0) \<and>
     takes (poolCounters st) = hits (poolCounters st) + misses (poolCounters st) \<and>
     readyCount (poolRecords st) + unfinished (poolWarmUps st) \<le> cap"

lemma active_simps [simp]: "active {#} = 0" "active (add_mset p M) = (if p = WQueued then active M else Suc (active M))"
  "active (M + N) = active M + active N"
  by (simp_all add: active_def)

lemma active_replicate [simp]: "active (replicate_mset n p) = (if p = WQueued then 0 else n)"
  by (induction n) auto

lemma unfinished_simps [simp]: "unfinished {#} = 0"
  "unfinished (add_mset p M) = (if p = WFinishing then unfinished M else Suc (unfinished M))"
  "unfinished (M + N) = unfinished M + unfinished N"
  by (simp_all add: unfinished_def)

lemma unfinished_replicate [simp]: "unfinished (replicate_mset n p) = (if p = WFinishing then 0 else n)"
  by (induction n) auto

lemma unfinished_le: "unfinished M \<le> size M"
  by (simp add: unfinished_def size_filter_mset_lesseq)

lemma readyCount_simps [simp]: "readyCount [] = 0"
  "readyCount (r # rs) = (if slotState r = Ready then Suc (readyCount rs) else readyCount rs)"
  "readyCount (rs @ rs') = readyCount rs + readyCount rs'"
  by (simp_all add: readyCount_def)

lemma readyCount_delete [simp]: "readyCount (mapDelete k rs) \<le> readyCount rs"
  by (induction rs) (auto simp: mapDelete_def)

lemma readyCount_delete_Suc [simp]: "readyCount (mapDelete k rs) \<le> Suc (readyCount rs)"
  using readyCount_delete le_Suc_eq by blast

lemma readyCount_set:
  assumes "mapWf rs"
  shows "readyCount (mapSet r rs) \<le> readyCount rs + (if slotState r = Ready then 1 else 0)"
proof (cases "mapHas (sandboxId r) rs")
  case True
  have "readyCount (map (\<lambda>x. if sandboxId x = sandboxId r then r else x) rs) \<le>
      readyCount rs + (if slotState r = Ready then 1 else 0)"
    using assms
  proof (induction rs)
    case (Cons a rs)
    have "map (\<lambda>x. if sandboxId x = sandboxId r then r else x) rs = rs" if "sandboxId a = sandboxId r"
      using Cons.prems that by (intro map_idI) (metis image_eqI mapHas_def mapWf_simps(2))
    with Cons show ?case by auto
  qed simp
  with True show ?thesis by (simp add: mapSet_def mapHas_def)
next
  case False
  then show ?thesis by (simp add: mapSet_new mapHas_def)
qed

lemma readyRecords_count: "length (readyRecords st) = readyCount (poolRecords st)"
  by (simp add: readyRecords_def readyCount_def)

text \<open>Most pieces leave the warm-ups, the permits and the counters of \<open>take()\<close> alone and add
  no ready record.\<close>

lemma counts_frame:
  assumes "counts cfg cap st" "poolInflight st' = poolInflight st" "poolWarmUps st' = poolWarmUps st"
    "poolPermits st' = poolPermits st" "takes (poolCounters st') = takes (poolCounters st)"
    "hits (poolCounters st') = hits (poolCounters st)" "misses (poolCounters st') = misses (poolCounters st)"
    "readyCount (poolRecords st') \<le> readyCount (poolRecords st)"
  shows "counts cfg cap st'"
  using assms by (simp add: counts_def)

text \<open>A warm-up goes on, or ends, while no ready record is added.\<close>

lemma counts_warmer:
  assumes "counts cfg cap st" "p \<in># poolWarmUps st" "p \<noteq> WQueued" "p \<noteq> WFinishing" "q \<noteq> WQueued"
    "poolInflight st' = poolInflight st" "poolWarmUps st' = add_mset q (poolWarmUps st - {#p#})"
    "poolPermits st' = poolPermits st" "takes (poolCounters st') = takes (poolCounters st)"
    "hits (poolCounters st') = hits (poolCounters st)" "misses (poolCounters st') = misses (poolCounters st)"
    "readyCount (poolRecords st') \<le> readyCount (poolRecords st) + (if q = WFinishing then 1 else 0)"
  shows "counts cfg cap st'"
  using assms by (auto simp: counts_def dest!: warmer_split split: if_splits)

section \<open>The pieces\<close>

lemma counts_submitWarmUps: "counts cfg cap st \<Longrightarrow> poolSize cfg \<le> cap \<Longrightarrow> counts cfg cap (submitWarmUps cfg st)"
  using unfinished_le [of "poolWarmUps st"]
  by (auto simp: submitWarmUps_def startWarmUp_pow counts_def deficit_def readyRecords_count min_def)

lemma counts_finishWarmUp: "counts cfg cap st \<Longrightarrow> WFinishing \<in># poolWarmUps st \<Longrightarrow> counts cfg cap (finishWarmUp st)"
  by (auto simp: finishWarmUp_def releasePermit_def Let_def counts_def pool_updates dest!: warmer_split)

lemma counts_filler [simp]: "counts cfg cap (filler p st) = counts cfg cap st"
  by (simp add: counts_def filler_def)

lemmas piece_defs = takeStart_def requireOpen_def andThen_def claimReadySlot_def wakeTaker_def popReady_def
  resumeSlot_def openSlot_def fallbackLaunched_def fallbackCreated_def fallbackFailed_def takeConfigured_def
  recordLaunch_def createFailed_def createFailedLaunched_def recordReady_def parkReady_def discard_def
  parkStopped_def parkFailed_def warmUpFailed_def forgetSlot_eq startSweep_def fillerWork_def sweepDone_def
  reconcileListed_def loseSlot_def closePool_def closeJoin_def closeSettled_def Let_def

lemma noteFailure_counters [simp]:
  "takes (poolCounters (noteFailure random st)) = takes (poolCounters st)"
  "hits (poolCounters (noteFailure random st)) = hits (poolCounters st)"
  "misses (poolCounters (noteFailure random st)) = misses (poolCounters st)"
  by (simp_all add: noteFailure_def tally_def split: prod.split)

lemma recordFromInfo_simps [simp]:
  "sandboxId (recordFromInfo info token region state parked) = infoSandboxId info"
  "slotState (recordFromInfo info token region state parked) = state"
  by (simp_all add: recordFromInfo_def)

lemma counts_recordLaunch:
  assumes "counts cfg cap st" "ledger st" "WCreating \<in># poolWarmUps st" "slotState r = Warming"
  shows "counts cfg cap (recordLaunch ok random r st)"
  by (rule counts_warmer [OF assms(1,3), of "if ok then WLaunched (sandboxId r) else WFinishing"])
    (use assms readyCount_set [OF ledger_wf [OF assms(2)], of r] in \<open>simp_all add: piece_defs pool_updates\<close>)

lemma counts_parkReady:
  assumes "counts cfg cap st" "ledger st" "WParking (sandboxId r) \<in># poolWarmUps st" "slotState r = Ready"
  shows "counts cfg cap (parkReady ok r st)"
  by (rule counts_warmer [OF assms(1,3), of WFinishing])
    (use assms readyCount_set [OF ledger_wf [OF assms(2)], of r] in \<open>simp_all add: piece_defs pool_updates\<close>)

lemma counts_createFailed: "counts cfg cap st \<Longrightarrow> WCreating \<in># poolWarmUps st \<Longrightarrow> counts cfg cap (createFailed random st)"
  by (rule counts_warmer [of cfg cap st WCreating WFinishing]) (auto simp: piece_defs pool_updates)

lemma counts_createFailedLaunched:
  "counts cfg cap st \<Longrightarrow> WLaunched k \<in># poolWarmUps st \<Longrightarrow> counts cfg cap (createFailedLaunched ok random k st)"
  by (rule counts_warmer [of cfg cap st "WLaunched k" WFinishing]) (auto simp: piece_defs pool_updates)

lemma counts_created:
  "counts cfg cap st \<Longrightarrow> WLaunched k \<in># poolWarmUps st \<Longrightarrow> counts cfg cap (warmer (WLaunched k) (WParking k) st)"
  by (rule counts_warmer [of cfg cap st "WLaunched k" "WParking k"]) (auto simp: pool_updates)

lemma counts_park_ended:
  assumes "counts cfg cap st" "WParking k \<in># poolWarmUps st"
  shows "counts cfg cap (parkStopped ok k st)" "counts cfg cap (parkFailed ok random k st)"
  by (rule counts_warmer [OF assms, of WFinishing]; simp add: piece_defs pool_updates)+

lemma counts_fillerLoop: "counts cfg cap st \<Longrightarrow> poolSize cfg \<le> cap \<Longrightarrow> counts cfg cap (fillerLoop cfg st)"
  by (auto simp: fillerLoop_def counts_submitWarmUps split: option.split) (simp add: counts_def)

lemma counts_fillerPaused: "counts cfg cap st \<Longrightarrow> poolSize cfg \<le> cap \<Longrightarrow> counts cfg cap (fillerPaused cfg st)"
  by (simp add: fillerPaused_def counts_submitWarmUps)

lemma counts_claimReadySlot: "counts cfg cap st \<Longrightarrow> counts cfg cap (claimReadySlot cfg now ok keepWaiting p st)"
  by (erule counts_frame) (simp_all add: piece_defs pool_updates split: option.split)

lemma counts_wakeTaker: "counts cfg cap st \<Longrightarrow> counts cfg cap (wakeTaker cfg now ok keepWaiting st)"
  by (auto simp: wakeTaker_def counts_claimReadySlot split: sum.split) (simp add: takerDone_def counts_def)

text \<open>Forgetting a record, terminating, giving up and counting anything but takes change
  nothing here.\<close>

lemma counts_unused [simp]:
  "counts cfg cap (terminateSlot k st) = counts cfg cap st" "counts cfg cap (strand k st) = counts cfg cap st"
  "counts cfg cap (tally (lost_update f) st) = counts cfg cap st" "counts cfg cap (tally (recycled_update f) st) = counts cfg cap st"
  "counts cfg cap (st\<lparr>histGone := ks\<rparr>) = counts cfg cap st" "counts cfg cap (st\<lparr>histSuspended := ks\<rparr>) = counts cfg cap st"
  "counts cfg cap (st\<lparr>poolClosing := c\<rparr>) = counts cfg cap st" "counts cfg cap (st\<lparr>poolStarted := b\<rparr>) = counts cfg cap st"
  by (simp_all add: counts_def pool_updates)

lemma counts_forgetSlot: "counts cfg cap st \<Longrightarrow> forgetSlot ok k st = (res, st') \<Longrightarrow> counts cfg cap st'"
  by (rule counts_frame [of cfg cap st]) (auto simp: forgetSlot_eq split: if_splits)

lemma counts_recycleStale: "counts cfg cap st \<Longrightarrow> counts cfg cap (recycleStale ok rs st)"
  by (cases rs) (auto split: prod.split ForgetResult.split dest: counts_forgetSlot)

lemma counts_loseSlot: "counts cfg cap st \<Longrightarrow> counts cfg cap (loseSlot ok k p st)"
  by (auto simp: loseSlot_def split: prod.split ForgetResult.split dest: counts_forgetSlot)

lemma counts_reconcile: "counts cfg cap st \<Longrightarrow> counts cfg cap (reconcile ok gone ras st)"
  by (cases "(ok, gone, ras, st)" rule: reconcile.cases)
    (auto simp: sweepDone_def counts_loseSlot split: ReconcileAction.split)

lemma counts_drain: "counts cfg cap st \<Longrightarrow> counts cfg cap (drain ok rs st)"
  by (cases rs) (auto split: prod.split ForgetResult.split dest: counts_forgetSlot)

lemma counts_called:
  "takeStart st = Inr st' \<Longrightarrow> counts cfg cap st \<Longrightarrow> counts cfg cap st'"
  "closePool cfg d st = Inr st' \<Longrightarrow> counts cfg cap st \<Longrightarrow> counts cfg cap st'"
  by (auto simp: counts_def piece_defs split: if_splits)

lemma counts_take:
  assumes "counts cfg cap st"
  shows "counts cfg cap (takerDone p st)" "counts cfg cap (taker p q st)"
    "counts cfg cap (resumeSlot r answer st)" "counts cfg cap (openSlot r opened st)" "counts cfg cap (fallbackLaunched k st)"
    "counts cfg cap (fallbackCreated k st)" "counts cfg cap (fallbackFailed ko st)" "counts cfg cap (takeConfigured k applied st)"
  using assms by (auto simp: counts_def piece_defs pool_updates split: ResumeAnswer.split option.split if_splits)

lemma counts_close:
  assumes "counts cfg cap st"
  shows "counts cfg cap (closeJoin expired st)"
    "counts cfg cap (closeSettled st)" "counts cfg cap (fillerWork cfg now due st)" "counts cfg cap (reconcileListed listing st)"
  using assms by (auto simp: counts_def piece_defs pool_updates split: FillerPhase.split option.split if_splits)

lemma counts_step:
  assumes "counts cfg cap st" "ledger st" "poolSize cfg \<le> cap" "pool_step reliable cfg st st'"
  shows "counts cfg cap st'"
  using assms(4,1,2,3)
proof cases
  case take_start
  then show ?thesis using assms(1) by (rule counts_called)
next
  case close_start
  then show ?thesis using assms(1) by (rule counts_called)
qed (auto intro: counts_take counts_close counts_claimReadySlot counts_wakeTaker counts_recordLaunch
    counts_createFailed counts_createFailedLaunched counts_created counts_parkReady counts_park_ended counts_finishWarmUp
    counts_fillerLoop counts_fillerPaused counts_recycleStale counts_reconcile counts_drain)

section \<open>Every reachable state\<close>

definition numbered :: "PoolParams \<Rightarrow> nat \<Rightarrow> SlotRecord list \<Rightarrow> Pool \<Rightarrow> bool" where
  "numbered cfg cap rs st \<longleftrightarrow> mapWf (poolRecords st) \<and> counts cfg cap st \<and> poolWarmUps st = {#} \<and>
     readyCount (poolRecords st) + readyCount rs \<le> cap"

lemma numbered_recoverOne: "numbered cfg cap (r # rs) st \<Longrightarrow> numbered cfg cap rs (recoverOne cfg r st)"
  using readyCount_set [of "poolRecords st" r]
  by (cases "slotState r") (auto simp: numbered_def recoverOne_def Let_def counts_def pool_updates)

lemma numbered_fold: "numbered cfg cap rs st \<Longrightarrow> counts cfg cap (fold (recoverOne cfg) rs st)"
proof (induction rs arbitrary: st)
  case (Cons r rs)
  then show ?case using numbered_recoverOne by simp
qed (simp add: numbered_def)

lemma counts_start: "readyCount stored \<le> cap \<Longrightarrow> counts cfg cap (startPool cfg now stored)"
  unfolding startPool_def startSweep_def counts_filler
  by (rule numbered_fold) (simp add: numbered_def newPool_def counts_def newCounters_def)

lemma ledger_start: "mapWf stored \<Longrightarrow> ledger (startPool cfg now stored)"
  by (rule ledger_initial [of cfg]) (auto simp: pool_initial_def)

definition capped_initial :: "PoolParams \<Rightarrow> nat \<Rightarrow> Pool \<Rightarrow> bool" where
  "capped_initial cfg cap st \<longleftrightarrow> poolSize cfg \<le> cap \<and>
     (\<exists>now stored. mapWf stored \<and> readyCount stored \<le> cap \<and> st = startPool cfg now stored)"

interpretation numbers: step_invariant "pool_step reliable cfg" "capped_initial cfg cap"
  "\<lambda>st. ledger st \<and> counts cfg cap st \<and> poolSize cfg \<le> cap" for reliable cfg cap
  by unfold_locales (auto simp: capped_initial_def intro: counts_start ledger_start ledger_step counts_step)

lemma reach_counts:
  assumes "mapWf stored" "pool_reach reliable cfg (startPool cfg now stored) st"
  shows "counts cfg (max (poolSize cfg) (readyCount stored)) st"
proof -
  have "capped_initial cfg (max (poolSize cfg) (readyCount stored)) (startPool cfg now stored)"
    unfolding capped_initial_def using assms(1) by (metis max.cobounded1 max.cobounded2)
  with assms(2) show ?thesis
    unfolding pool_reach_def by (blast dest: numbers.inv_reachable)
qed

section \<open>Properties\<close>

text \<open>C6: the filler neither overfills nor overruns.  The ready slots and the warm-ups that
  may still add one never exceed the configured size, or what was recovered where
  that is more; at most \<open>fillConcurrency\<close> warm-ups hold a permit, and a warm-up only
  waits for a permit while all of them are held.\<close>
theorem pool_within_bounds:
  assumes "mapWf stored" "pool_reach reliable cfg (startPool cfg now stored) st"
  shows "readyCount (poolRecords st) + unfinished (poolWarmUps st) \<le> max (poolSize cfg) (readyCount stored) \<and>
    active (poolWarmUps st) \<le> fillConcurrency cfg \<and>
    (WQueued \<in># poolWarmUps st \<longrightarrow> active (poolWarmUps st) = fillConcurrency cfg)"
  using reach_counts [OF assms] by (auto simp: counts_def)

text \<open>\<open>SandboxPool.stats()\<close>.\<close>

definition poolStats :: "PoolParams \<Rightarrow> Pool \<Rightarrow> PoolStats" where
  "poolStats cfg st = statsFromRecords (poolRecords st) (poolSize cfg) (poolInflight st) (poolCounters st)"

text \<open>C35: the statistics add up in every state: \<open>takes\<close> is \<open>hits\<close> plus \<open>misses\<close>, \<open>warming\<close> is
  the number of warm-ups that have not ended, and \<open>ready\<close> is within the size or
  what was recovered.\<close>
theorem pool_stats_accounted:
  assumes "mapWf stored" "pool_reach reliable cfg (startPool cfg now stored) st"
  shows "takes (statCounters (poolStats cfg st)) = hits (statCounters (poolStats cfg st)) + misses (statCounters (poolStats cfg st)) \<and>
    statWarming (poolStats cfg st) = size (poolWarmUps st) \<and>
    statReady (poolStats cfg st) \<le> max (poolSize cfg) (readyCount stored)"
proof -
  have "statReady (poolStats cfg st) = readyCount (poolRecords st)"
    unfolding poolStats_def statsFromRecords_def Let_def readyCount_def PoolStats.select_convs
    by (metis jsSort_mset mset_filter size_mset)
  with reach_counts [OF assms] show ?thesis
    by (auto simp: counts_def poolStats_def statsFromRecords_def Let_def)
qed

end
