(* ===== verification/Pool_Mirror.thy ===== *)
theory Pool_Mirror
  imports Pool_Counts
begin

text \<open>
  What the backend holds.  The records of other pools in the same state file are
  never touched.  While the backend accepts every call it mirrors the map of the
  pool, so that a pool started from it recovers the same slots, and no sandbox is
  given up.  A \<open>close()\<close> that drains and returns leaves no slot behind.
\<close>

section \<open>The backend\<close>

definition mirrored :: "bool \<Rightarrow> SlotRecord list \<Rightarrow> Pool \<Rightarrow> bool" where
  "mirrored reliable stored st \<longleftrightarrow>
     (\<forall>k \<in> set (histForeign st). k \<notin> set (histLaunched st) \<and> mapGet k (poolStored st) = mapGet k stored) \<and>
     (reliable \<longrightarrow> (\<forall>k. k \<notin> set (histForeign st) \<longrightarrow> mapGet k (poolStored st) = mapGet k (poolRecords st)) \<and>
        histStranded st = [] \<and> poolFiller st \<noteq> FCrashed \<and> poolClosing st \<noteq> CRejected)"

text \<open>A piece that changes neither the map nor the backend.\<close>

lemma mirrored_frame:
  assumes "mirrored reliable stored st" "histForeign st' = histForeign st" "histLaunched st' = histLaunched st"
    "poolStored st' = poolStored st" "poolRecords st' = poolRecords st" "histStranded st' = histStranded st"
    "poolFiller st' = FCrashed \<Longrightarrow> poolFiller st = FCrashed"
    "poolClosing st' = CRejected \<Longrightarrow> poolClosing st = CRejected \<or> poolFiller st = FCrashed"
  shows "mirrored reliable stored st'"
  using assms by (auto simp: mirrored_def)

text \<open>A piece that deletes a slot, from the map and, when the backend accepts, from there.\<close>

lemma mirrored_delete:
  assumes "mirrored reliable stored st" "k \<in> set (histLaunched st)" "reliable \<longrightarrow> ok"
    "histForeign st' = histForeign st" "histLaunched st' = histLaunched st"
    "poolStored st' = (if ok then mapDelete k (poolStored st) else poolStored st)"
    "poolRecords st' = mapDelete k (poolRecords st)"
    "ok \<Longrightarrow> histStranded st' = histStranded st"
    "ok \<Longrightarrow> poolFiller st' = FCrashed \<Longrightarrow> poolFiller st = FCrashed"
    "ok \<Longrightarrow> poolClosing st' = CRejected \<Longrightarrow> poolClosing st = CRejected"
  shows "mirrored reliable stored st'"
  using assms by (auto simp: mirrored_def mapGet_mapDelete)

text \<open>A piece that stores a record of a sandbox that is not another pool's.\<close>

lemma mirrored_set:
  assumes "mirrored reliable stored st" "sandboxId r \<notin> set (histForeign st)" "reliable \<longrightarrow> ok"
    "histForeign st' = histForeign st" "set (histLaunched st') \<subseteq> insert (sandboxId r) (set (histLaunched st))"
    "poolStored st' = (if ok then mapSet r (poolStored st) else poolStored st)"
    "ok \<Longrightarrow> poolRecords st' = mapSet r (poolRecords st)" "ok \<Longrightarrow> histStranded st' = histStranded st"
    "poolFiller st' = poolFiller st" "poolClosing st' = poolClosing st"
  shows "mirrored reliable stored st'"
  using assms by (auto simp: mirrored_def mapGet_mapSet)

lemma mirrored_foreign: "mirrored reliable stored st \<Longrightarrow> k \<in> set (histLaunched st) \<Longrightarrow> k \<notin> set (histForeign st)"
  by (auto simp: mirrored_def)

lemma mirrored_forget:
  assumes "mirrored reliable stored st" "ledger st" "reliable \<longrightarrow> ok" "mapHas k (poolRecords st)"
    "histForeign st' = histForeign st" "histLaunched st' = histLaunched st"
    "poolStored st' = (if ok then mapDelete k (poolStored st) else poolStored st)"
    "poolRecords st' = mapDelete k (poolRecords st)"
    "ok \<Longrightarrow> histStranded st' = histStranded st"
    "ok \<Longrightarrow> poolFiller st' = FCrashed \<Longrightarrow> poolFiller st = FCrashed"
    "ok \<Longrightarrow> poolClosing st' = CRejected \<Longrightarrow> poolClosing st = CRejected"
  shows "mirrored reliable stored st'"
  using assms(1) ledger_known [OF assms(2,4)] assms(3,5-) by (rule mirrored_delete)

subsection \<open>The pieces\<close>

lemma mirrored_called:
  "takeStart st = Inr st' \<Longrightarrow> mirrored reliable stored st \<Longrightarrow> mirrored reliable stored st'"
  "closePool cfg d st = Inr st' \<Longrightarrow> mirrored reliable stored st \<Longrightarrow> mirrored reliable stored st'"
  by (auto simp: mirrored_def piece_defs split: if_splits)

lemma mirrored_simple:
  assumes "mirrored reliable stored st"
  shows "mirrored reliable stored (takerDone p st)" "mirrored reliable stored (taker p q st)"
    "mirrored reliable stored (warmer v w st)"
    "mirrored reliable stored (resumeSlot r answer st)" "mirrored reliable stored (openSlot r opened st)"
    "mirrored reliable stored (fallbackCreated k st)" "mirrored reliable stored (fallbackFailed ko st)"
    "mirrored reliable stored (takeConfigured k applied st)" "mirrored reliable stored (createFailed random st)"
    "mirrored reliable stored (closeSettled st)" "mirrored reliable stored (fillerWork cfg now due st)"
    "mirrored reliable stored (reconcileListed listing st)" "mirrored reliable stored (sweepDone st)"
    "p' \<noteq> FCrashed \<Longrightarrow> mirrored reliable stored (filler p' st)"
  using assms by (auto simp: mirrored_def piece_defs pool_updates split: ResumeAnswer.split option.split if_splits)

lemma mirrored_closeJoin: "mirrored reliable stored st \<Longrightarrow> mirrored reliable stored (closeJoin expired st)"
  by (erule mirrored_frame) (auto simp: closeJoin_def split: FillerPhase.splits if_splits)

lemma mirrored_fallbackLaunched: "mirrored reliable stored st \<Longrightarrow> freshId k st \<Longrightarrow> mirrored reliable stored (fallbackLaunched k st)"
  by (auto simp: mirrored_def fallbackLaunched_def pool_updates freshId_def)

lemma mirrored_submitWarmUps: "mirrored reliable stored st \<Longrightarrow> mirrored reliable stored (submitWarmUps cfg st)"
  by (erule mirrored_frame) (auto simp: submitWarmUps_def startWarmUp_pow split: if_splits)

lemma mirrored_fillerLoop: "mirrored reliable stored st \<Longrightarrow> mirrored reliable stored (fillerLoop cfg st)"
  by (auto simp: fillerLoop_def mirrored_simple mirrored_submitWarmUps split: option.split) (simp add: mirrored_def filler_def)

lemma mirrored_fillerPaused: "mirrored reliable stored st \<Longrightarrow> mirrored reliable stored (fillerPaused cfg st)"
  by (simp add: fillerPaused_def mirrored_simple mirrored_submitWarmUps)

lemma mirrored_finishWarmUp: "mirrored reliable stored st \<Longrightarrow> mirrored reliable stored (finishWarmUp st)"
  by (erule mirrored_frame) (auto simp: finishWarmUp_def releasePermit_def Let_def pool_updates split: if_splits)

lemma mirrored_claimReadySlot:
  assumes "mirrored reliable stored st" "ledger st" "reliable \<longrightarrow> ok"
  shows "mirrored reliable stored (claimReadySlot cfg now ok keepWaiting p st)"
proof (cases "pickReadySlot (poolRecords st) now (minRemaining cfg)")
  case None
  then show ?thesis using assms(1) by (simp add: claimReadySlot_def popReady_def mirrored_simple)
next
  case (Some r)
  then have "mapHas (sandboxId r) (poolRecords st)" by (auto simp: mapHas_def dest: pickReadySlot_Some)
  from assms(1,2,3) this show ?thesis
    by (rule mirrored_forget) (simp_all add: claimReadySlot_def popReady_def Some Let_def pool_updates)
qed

lemma mirrored_wakeTaker:
  "mirrored reliable stored st \<Longrightarrow> ledger st \<Longrightarrow> reliable \<longrightarrow> ok \<Longrightarrow> mirrored reliable stored (wakeTaker cfg now ok keepWaiting st)"
  by (auto simp: wakeTaker_def mirrored_simple mirrored_claimReadySlot split: sum.split)

lemma mirrored_recordLaunch:
  assumes "mirrored reliable stored st" "ledger st" "reliable \<longrightarrow> ok" "freshId (sandboxId r) st"
  shows "mirrored reliable stored (recordLaunch ok random r st)"
proof (cases ok)
  case True
  with assms show ?thesis
    by (intro mirrored_set [OF assms(1) _ assms(3)]) (auto simp: recordLaunch_def Let_def pool_updates freshId_def)
next
  case False
  then show ?thesis
    using assms ledger_fresh [OF assms(2,4)]
    by (auto simp: recordLaunch_def warmUpFailed_def forgetSlot_eq Let_def mirrored_def pool_updates freshId_def)
qed

lemma mirrored_parkReady:
  assumes "mirrored reliable stored st" "ledger st" "reliable \<longrightarrow> ok" "WParking (sandboxId r) \<in># poolWarmUps st"
  shows "mirrored reliable stored (parkReady ok r st)"
proof -
  have "mapHas (sandboxId r) (poolRecords st)" using assms(2,4) by (rule ledger_warm_has) simp
  then have "sandboxId r \<notin> set (histForeign st)"
    using mirrored_foreign [OF assms(1)] ledger_known [OF assms(2)] by blast
  with assms(1) show ?thesis
    by (rule mirrored_set [OF _ _ assms(3)]) (auto simp: parkReady_def recordReady_def Let_def pool_updates)
qed

text \<open>The end of a warm-up that holds a record.\<close>

lemma mirrored_warm_ended:
  assumes "mirrored reliable stored st" "ledger st" "reliable \<longrightarrow> ok"
  shows "WParking k \<in># poolWarmUps st \<Longrightarrow> mirrored reliable stored (parkStopped ok k st)"
    "WParking k \<in># poolWarmUps st \<Longrightarrow> mirrored reliable stored (parkFailed ok random k st)"
    "WLaunched k \<in># poolWarmUps st \<Longrightarrow> mirrored reliable stored (createFailedLaunched ok random k st)"
proof -
  show "mirrored reliable stored (parkStopped ok k st)" "mirrored reliable stored (parkFailed ok random k st)"
    if "WParking k \<in># poolWarmUps st"
    using ledger_warm_has [OF assms(2) that, of k]
    by (auto intro!: mirrored_forget [OF assms, of k]
        simp: parkStopped_def discard_def parkFailed_def warmUpFailed_def forgetSlot_eq pool_updates)
  show "mirrored reliable stored (createFailedLaunched ok random k st)" if "WLaunched k \<in># poolWarmUps st"
    using ledger_warm_has [OF assms(2) that, of k]
    by (auto intro!: mirrored_forget [OF assms, of k]
        simp: createFailedLaunched_def warmUpFailed_def forgetSlot_eq pool_updates)
qed

lemma mirrored_recycleStale:
  assumes "mirrored reliable stored st" "ledger st" "reliable \<longrightarrow> ok"
  shows "mirrored reliable stored (recycleStale ok rs st)"
proof (cases rs)
  case (Cons r rest)
  show ?thesis
  proof (cases "mapHas (sandboxId r) (poolRecords st)")
    case True
    with assms show ?thesis
      by (rule mirrored_forget) (use Cons True in \<open>auto simp: forgetSlot_eq pool_updates split: if_splits\<close>)
  qed (use Cons assms(1) in \<open>auto simp: forgetSlot_eq mirrored_def filler_def\<close>)
qed (simp add: assms(1) mirrored_simple)

lemma mirrored_loseSlot:
  assumes "mirrored reliable stored st" "ledger st" "reliable \<longrightarrow> ok" "p \<noteq> FCrashed"
  shows "mirrored reliable stored (loseSlot ok k p st)"
proof (cases "mapHas k (poolRecords st)")
  case True
  with assms(1-3) show ?thesis
    by (rule mirrored_forget) (use assms(4) True in \<open>auto simp: loseSlot_def forgetSlot_eq pool_updates\<close>)
qed (use assms in \<open>simp add: loseSlot_def forgetSlot_eq mirrored_simple\<close>)

lemma mirrored_reconcile:
  assumes "mirrored reliable stored st" "ledger st" "reliable \<longrightarrow> ok"
  shows "mirrored reliable stored (reconcile ok gone ras st)"
  using assms by (cases "(ok, gone, ras, st)" rule: reconcile.cases)
    (auto simp: mirrored_simple mirrored_loseSlot split: ReconcileAction.split, auto simp: mirrored_def filler_def)

lemma mirrored_drain:
  assumes "mirrored reliable stored st" "ledger st" "reliable \<longrightarrow> ok"
  shows "mirrored reliable stored (drain ok rs st)"
proof (cases rs)
  case (Cons r rest)
  show ?thesis
  proof (cases "mapHas (sandboxId r) (poolRecords st)")
    case True
    with assms show ?thesis
      by (rule mirrored_forget) (use Cons True in \<open>auto simp: forgetSlot_eq pool_updates split: if_splits\<close>)
  qed (use Cons assms(1) in \<open>auto simp: forgetSlot_eq mirrored_def filler_def\<close>)
qed (use assms(1) in \<open>auto simp: mirrored_def\<close>)

lemma mirrored_step:
  assumes "mirrored reliable stored st" "ledger st" "pool_step reliable cfg st st'"
  shows "mirrored reliable stored st'"
  using assms(3,1,2)
proof cases
  case take_start
  then show ?thesis using assms(1) by (rule mirrored_called)
next
  case close_start
  then show ?thesis using assms(1) by (rule mirrored_called)
qed (auto simp: mirrored_simple mirrored_closeJoin mirrored_fallbackLaunched mirrored_fillerLoop mirrored_fillerPaused
    mirrored_finishWarmUp mirrored_claimReadySlot mirrored_wakeTaker mirrored_recordLaunch mirrored_parkReady
    mirrored_warm_ended mirrored_recycleStale mirrored_reconcile mirrored_drain)

subsection \<open>start()\<close>

lemma mapHas_member: "r \<in> set rs \<Longrightarrow> mapHas (sandboxId r) rs"
  by (simp add: mapHas_def)

lemma mapHas_Cons [simp]: "mapHas k (r # rs) \<longleftrightarrow> k = sandboxId r \<or> mapHas k rs"
  by (auto simp: mapHas_def)

lemma mapGet_Cons [simp]: "mapGet k (r # rs) = (if sandboxId r = k then Some r else mapGet k rs)"
  by (simp add: mapGet_def)

lemma mapGet_member: "mapWf rs \<Longrightarrow> r \<in> set rs \<Longrightarrow> mapGet (sandboxId r) rs = Some r"
  by (induction rs) (use mapHas_member in fastforce)+

definition adopting :: "SlotRecord list \<Rightarrow> SlotRecord list \<Rightarrow> Pool \<Rightarrow> bool" where
  "adopting stored rs st \<longleftrightarrow> mapWf rs \<and>
     (\<forall>k \<in> set (histForeign st). k \<notin> set (histLaunched st) \<and> mapGet k (poolStored st) = mapGet k stored) \<and>
     (\<forall>r \<in> set rs. freshId (sandboxId r) st \<and> mapGet (sandboxId r) stored = Some r \<and>
        mapGet (sandboxId r) (poolStored st) = Some r) \<and>
     (\<forall>k. k \<notin> set (histForeign st) \<longrightarrow> \<not> mapHas k rs \<longrightarrow> mapGet k (poolStored st) = mapGet k (poolRecords st)) \<and>
     (\<forall>r \<in> set rs. \<not> mapHas (sandboxId r) (poolRecords st)) \<and>
     histStranded st = [] \<and> poolFiller st = FLoop \<and> poolClosing st = COpen"

lemma adopting_apart: "mapWf (r # rs) \<Longrightarrow> x \<in> set rs \<Longrightarrow> sandboxId x \<noteq> sandboxId r"
  using mapHas_member by fastforce

lemma adopting_recoverOne:
  assumes "adopting stored (r # rs) st"
  shows "adopting stored rs (recoverOne cfg r st)"
proof -
  have apart: "\<forall>x \<in> set rs. sandboxId x \<noteq> sandboxId r"
    using assms adopting_apart by (auto simp: adopting_def)
  consider "\<not> ownsSlot r (Some (poolImage cfg))" | "ownsSlot r (Some (poolImage cfg))" "slotState r = Warming"
    | "ownsSlot r (Some (poolImage cfg))" "slotState r = Ready" by (cases "slotState r") auto
  then show ?thesis
  proof cases
    case 1
    with assms apart show ?thesis by (auto simp: adopting_def recoverOne_def freshId_def)
  next
    case 2
    with assms apart show ?thesis
      by (auto simp: adopting_def recoverOne_def freshId_def Let_def pool_updates mapGet_mapDelete simp flip: mapGet_None)
  next
    case 3
    with assms apart show ?thesis
      by (auto simp: adopting_def recoverOne_def freshId_def Let_def pool_updates mapGet_mapSet simp flip: mapGet_None)
  qed
qed

lemma adopting_fold: "adopting stored rs st \<Longrightarrow> adopting stored [] (fold (recoverOne cfg) rs st)"
  by (induction rs arbitrary: st) (auto intro: adopting_recoverOne)

lemma mirrored_start: "mapWf stored \<Longrightarrow> mirrored reliable stored (startPool cfg now stored)"
proof -
  assume wf: "mapWf stored"
  then have "adopting stored stored (newPool cfg stored)"
    by (simp add: adopting_def newPool_def freshId_def mapGet_member flip: mapGet_None) (simp add: mapGet_def)
  from adopting_fold [OF this] show ?thesis
    by (auto simp: adopting_def startPool_def startSweep_def mirrored_def filler_def mapHas_def)
qed

section \<open>The end of close()\<close>

definition drained :: "Pool \<Rightarrow> bool" where
  "drained st \<longleftrightarrow> (\<forall>rs k. poolClosing st = CDraining rs \<longrightarrow> mapHas k (poolRecords st) \<longrightarrow> mapHas k rs) \<and>
     (poolClosing st = CClosed \<and> poolDrains st \<longrightarrow> poolRecords st = [])"

lemma mapHas_mapDelete [simp]: "mapHas k (mapDelete k' rs) \<longleftrightarrow> mapHas k rs \<and> k \<noteq> k'"
  by (auto simp: mapHas_def)

lemma mapHas_none: "(\<forall>k. \<not> mapHas k rs) \<longleftrightarrow> rs = []"
  by (cases rs) (auto simp: mapHas_def)

lemma drained_drain: "drained st \<Longrightarrow> poolClosing st = CDraining rs \<Longrightarrow> drained (drain ok rs st)"
proof (cases rs)
  case Nil
  assume "drained st" "poolClosing st = CDraining rs"
  with Nil have "\<forall>k. \<not> mapHas k (poolRecords st)" by (simp add: drained_def mapHas_def)
  then have "poolRecords st = []" by (simp only: mapHas_none)
  with Nil show ?thesis by (simp add: drained_def)
qed (auto simp: drained_def forgetSlot_eq pool_updates)

text \<open>Only \<open>close()\<close> changes its own state, and once the warm-ups have ended no record is
  added.\<close>

lemma pool_step_settled:
  assumes "pool_step reliable cfg st st'" "settled (poolClosing st)" "ledger st"
  shows "(\<exists>rs ok. poolClosing st = CDraining rs \<and> st' = drain ok rs st) \<or>
    poolDrains st' = poolDrains st \<and> poolClosing st' = poolClosing st \<and>
    (\<forall>k. mapHas k (poolRecords st') \<longrightarrow> mapHas k (poolRecords st))"
proof -
  have "poolWarmUps st = {#}" "poolClosed st"
    using assms(2,3) by (auto simp: ledger_def poolClosed_def)
  with assms(1,2) show ?thesis
  proof cases
    case (sweep_recycle rs ok)
    then show ?thesis by (cases rs) (auto simp: piece_defs pool_updates)
  next
    case (sweep_reconcile ras ok gone)
    then show ?thesis
      by (cases "(ok, gone, ras, st)" rule: reconcile.cases)
        (auto simp: piece_defs pool_updates split: ReconcileAction.splits)
  qed (auto simp: piece_defs pool_updates fillerLoop_def fillerPaused_def
      split: option.splits if_splits ResumeAnswer.splits prod.splits)
qed

lemma startWarmUps_closing [simp]: "poolClosing (submitWarmUps cfg st) = poolClosing st"
  by (simp add: submitWarmUps_def startWarmUp_pow)

lemma pool_step_unsettled:
  assumes "pool_step reliable cfg st st'" "\<not> settled (poolClosing st)"
  shows "\<not> settled (poolClosing st') \<or> st' = closeSettled st"
  using assms
proof cases
  case (sweep_recycle rs ok)
  then show ?thesis using assms(2) by (cases rs) (auto simp: piece_defs pool_updates)
next
  case (sweep_reconcile ras ok gone)
  then show ?thesis using assms(2)
    by (cases "(ok, gone, ras, st)" rule: reconcile.cases)
      (auto simp: piece_defs pool_updates split: ReconcileAction.splits)
next
  case (close_join expired)
  then show ?thesis by (cases "poolFiller st") (auto simp: closeJoin_def)
next
  case warm_finish
  then show ?thesis using assms(2) by (auto simp: finishWarmUp_def releasePermit_def Let_def pool_updates)
qed (auto simp: piece_defs pool_updates fillerLoop_def fillerPaused_def
    split: option.splits if_splits ResumeAnswer.splits prod.splits)

lemma drained_step:
  assumes "drained st" "ledger st" "pool_step reliable cfg st st'"
  shows "drained st'"
proof (cases "settled (poolClosing st)")
  case True
  from pool_step_settled [OF assms(3) this assms(2)] assms(1) show ?thesis
    by (auto simp: drained_drain) (auto simp: drained_def simp flip: mapHas_none)
next
  case False
  from pool_step_unsettled [OF assms(3) this] show ?thesis
    by (auto simp: drained_def closeSettled_def split: if_splits)
qed

lemma drained_start: "mapWf stored \<Longrightarrow> drained (startPool cfg now stored)"
  using adopting_fold [of stored stored "newPool cfg stored" cfg]
  by (auto simp: adopting_def newPool_def freshId_def mapGet_member startPool_def startSweep_def drained_def filler_def
      simp flip: mapGet_None) (simp_all add: mapGet_def)

section \<open>Every reachable state\<close>

definition stored_initial :: "PoolParams \<Rightarrow> SlotRecord list \<Rightarrow> Pool \<Rightarrow> bool" where
  "stored_initial cfg stored st \<longleftrightarrow> mapWf stored \<and> (\<exists>now. st = startPool cfg now stored)"

interpretation mirror: step_invariant "pool_step reliable cfg" "stored_initial cfg stored"
  "\<lambda>st. ledger st \<and> mirrored reliable stored st \<and> drained st" for reliable cfg stored
  by unfold_locales
    (auto simp: stored_initial_def intro: ledger_start mirrored_start drained_start ledger_step mirrored_step drained_step)

lemma reach_mirrored:
  assumes "mapWf stored" "pool_reach reliable cfg (startPool cfg now stored) st"
  shows "mirrored reliable stored st" "drained st"
  using mirror.inv_reachable [of reliable cfg "startPool cfg now stored" st stored] assms
  by (auto simp: pool_reach_def stored_initial_def)

section \<open>Properties\<close>



end
