(* ===== verification/Pool_Close.thy ===== *)
theory Pool_Close
  imports Pool_Mirror
begin

text \<open>
  \<open>close()\<close> can always finish: with a backend that accepts every call, from every
  state after the call there is a way to its end, whatever warm-ups wait for the
  semaphore.  The warm-ups run down a weight; the semaphore's hand-over gives a
  permit to a waiting one.
\<close>

section \<open>Running the warm-ups down\<close>

fun weight :: "WarmPhase \<Rightarrow> nat" where
  "weight WQueued = 3"
| "weight WFinishing = 1"
| "weight _ = 2"

definition work :: "Pool \<Rightarrow> nat" where
  "work st = sum_mset (image_mset weight (poolWarmUps st))"

lemma reach_refl [simp]: "pool_reach reliable cfg st st"
  by (simp add: pool_reach_def)

lemma reach_trans: "pool_reach reliable cfg s t \<Longrightarrow> pool_reach reliable cfg t u \<Longrightarrow> pool_reach reliable cfg s u"
  by (auto simp: pool_reach_def)

lemma reach_step: "pool_step reliable cfg s t \<Longrightarrow> pool_reach reliable cfg s t"
  by (auto simp: pool_reach_def)

lemma reach_after: "pool_reach reliable cfg s t \<Longrightarrow> pool_step reliable cfg t u \<Longrightarrow> pool_reach reliable cfg s u"
  by (auto simp: pool_reach_def)

text \<open>A warm-up that holds a permit can end when the pool is closed.\<close>

lemma warm_up_ends:
  assumes "ledger st" "poolClosed st" "p \<in># poolWarmUps st" "p \<noteq> WQueued"
  shows "\<exists>st'. pool_step True cfg st st' \<and> work st' < work st \<and> poolClosing st' = poolClosing st"
proof (cases p)
  case WCreating
  then have "pool_step True cfg st (createFailed 0 st)" using assms(3) by (blast intro: warm_create_failed)
  moreover have "work (createFailed 0 st) < work st" "poolClosing (createFailed 0 st) = poolClosing st"
    using assms(3) \<open>p = WCreating\<close> by (auto simp: work_def createFailed_def warmUpFailed_def pool_updates dest!: warmer_split)
  ultimately show ?thesis by blast
next
  case (WLaunched k)
  then have "pool_step True cfg st (createFailedLaunched True 0 k st)" using assms(3) by (blast intro: warm_create_failed_launched)
  moreover have "work (createFailedLaunched True 0 k st) < work st" "poolClosing (createFailedLaunched True 0 k st) = poolClosing st"
    using assms(3) \<open>p = WLaunched k\<close> by (auto simp: work_def createFailedLaunched_def warmUpFailed_def forgetSlot_eq pool_updates dest!: warmer_split)
  ultimately show ?thesis by blast
next
  case (WParking k)
  then have "pool_step True cfg st (parkStopped True k st)" using assms(2,3) by (blast intro: warm_park_stopped)
  moreover have "work (parkStopped True k st) < work st" "poolClosing (parkStopped True k st) = poolClosing st"
    using assms(3) \<open>p = WParking k\<close> by (auto simp: work_def parkStopped_def discard_def forgetSlot_eq pool_updates dest!: warmer_split)
  ultimately show ?thesis by blast
next
  case WFinishing
  then have "pool_step True cfg st (finishWarmUp st)" using assms(3) by (blast intro: warm_finish)
  moreover have "work (finishWarmUp st) < work st" "poolClosing (finishWarmUp st) = poolClosing st"
    using assms(3) \<open>p = WFinishing\<close> by (auto simp: work_def finishWarmUp_def releasePermit_def Let_def pool_updates dest!: warmer_split)
  ultimately show ?thesis by blast
qed (use assms(4) in simp)

lemma some_active:
  assumes "counts cfg cap st" "0 < fillConcurrency cfg" "poolWarmUps st \<noteq> {#}"
  shows "\<exists>p. p \<in># poolWarmUps st \<and> p \<noteq> WQueued"
proof (rule ccontr)
  assume "\<not> ?thesis"
  then have "active (poolWarmUps st) = 0" "WQueued \<in># poolWarmUps st"
    using assms(3) by (auto simp: active_def filter_mset_eq_mempty_iff)
  with assms(1,2) show False by (simp add: counts_def)
qed

lemma warm_ups_end:
  assumes "ledger st" "counts cfg cap st" "poolSize cfg \<le> cap" "0 < fillConcurrency cfg" "poolClosed st"
  shows "\<exists>st'. pool_reach True cfg st st' \<and> poolWarmUps st' = {#} \<and> poolClosing st' = poolClosing st"
  using assms
proof (induction "work st" arbitrary: st rule: less_induct)
  case less
  show ?case
  proof (cases "poolWarmUps st = {#}")
    case False
    with less.prems obtain p where "p \<in># poolWarmUps st" "p \<noteq> WQueued" using some_active by blast
    with less.prems obtain st' where st': "pool_step True cfg st st'" "work st' < work st" "poolClosing st' = poolClosing st"
      using warm_up_ends by blast
    with less.prems have "ledger st'" "counts cfg cap st'" "poolClosed st'"
      by (auto intro: ledger_step counts_step simp: poolClosed_def)
    with less.hyps [OF st'(2)] less.prems st'(1,3) show ?thesis
      by (metis reach_step reach_trans)
  qed (use reach_refl in blast)
qed

section \<open>Draining\<close>

lemma drain_ends: "poolClosing st = CDraining rs \<Longrightarrow> \<exists>st'. pool_reach True cfg st st' \<and> poolClosing st' = CClosed"
proof (induction rs arbitrary: st)
  case Nil
  then have "pool_step True cfg st (drain True [] st)" by (blast intro: close_drain)
  then show ?case by (intro exI [of _ "drain True [] st"]) (simp add: reach_step)
next
  case (Cons r rs)
  have "pool_step True cfg st (drain True (r # rs) st)" using Cons.prems by (blast intro: close_drain)
  moreover have "poolClosing (drain True (r # rs) st) = CDraining rs"
    by (simp add: forgetSlot_eq pool_updates)
  ultimately show ?case using Cons.IH by (meson reach_step reach_trans)
qed

lemma settling_ends:
  assumes "ledger st" "counts cfg cap st" "poolSize cfg \<le> cap" "0 < fillConcurrency cfg" "poolClosing st = CSettling"
  shows "\<exists>st'. pool_reach True cfg st st' \<and> poolClosing st' = CClosed"
proof -
  obtain st1 where st1: "pool_reach True cfg st st1" "poolWarmUps st1 = {#}" "poolClosing st1 = CSettling"
    using warm_ups_end [OF assms(1-4)] assms(5) by (auto simp: poolClosed_def)
  then have s: "pool_step True cfg st1 (closeSettled st1)" by (blast intro: close_settled)
  have "poolClosing (closeSettled st1) = CClosed \<or> (\<exists>rs. poolClosing (closeSettled st1) = CDraining rs)"
    by (simp add: closeSettled_def)
  then show ?thesis using st1(1) s drain_ends by (meson reach_after reach_trans)
qed

section \<open>Property\<close>

text \<open>C4: \<open>close()\<close> does not hang.  With a backend that accepts every call and at least one
  permit, every state reached after the call has a continuation in which it
  returns: warm-ups that wait for a permit get one, and the join and the drain end.\<close>
theorem close_can_finish:
  assumes "mapWf stored" "pool_reach True cfg (startPool cfg now stored) st"
    and "0 < fillConcurrency cfg" "poolClosed st"
  shows "\<exists>st'. pool_reach True cfg st st' \<and> poolClosing st' = CClosed"
proof -
  note l = reach_ledger [OF assms(1,2)] and c = reach_counts [OF assms(1,2)] and m = reach_mirrored(1) [OF assms(1,2)]
  have settling: "\<exists>st''. pool_reach True cfg st' st'' \<and> poolClosing st'' = CClosed"
    if "pool_reach True cfg st st'" "poolClosing st' = CSettling" for st'
  proof -
    have r: "pool_reach True cfg (startPool cfg now stored) st'" using assms(2) that(1) by (rule reach_trans)
    show ?thesis
      using settling_ends [OF reach_ledger [OF assms(1) r] reach_counts [OF assms(1) r] _ assms(3) that(2)] by simp
  qed
  show ?thesis
  proof (cases "poolClosing st")
    case CJoining
    then have "pool_step True cfg st (closeJoin True st)" by (blast intro: close_join)
    moreover have "poolClosing (closeJoin True st) = CSettling"
      using m by (cases "poolFiller st") (auto simp: closeJoin_def mirrored_def)
    ultimately show ?thesis using settling by (meson reach_step reach_trans)
  next
    case CSettling
    then show ?thesis using settling [of st] by simp
  next
    case (CDraining rs)
    then show ?thesis by (rule drain_ends)
  next
    case CClosed
    then show ?thesis by (intro exI [of _ st]) simp
  qed (use m assms(4) in \<open>auto simp: mirrored_def poolClosed_def\<close>)
qed

end
