(* ===== verification/Pool_Runs.thy ===== *)
theory Pool_Runs
  imports Pool_Close
begin

text \<open>
  Concrete runs of the pool: two warm-ups, a sweep whose listing is overtaken by the
  parking of both slots, and a \<open>take()\<close> during the reconciliation.
\<close>

definition exampleParams :: PoolParams where
  "exampleParams = \<lparr>poolSize = 2, fillConcurrency = 2, minRemaining = 1, poolImage = ''img'', poolPersistent = False\<rparr>"

definition exampleInfo :: "string \<Rightarrow> int \<Rightarrow> SandboxInfo" where
  "exampleInfo k t = sandboxInfo \<lparr>infoSandboxId = k, infoState = ''RUNNING'', infoEndpoint = ''e'', infoTemplate = ''img'',
     infoTemplateVersion = ''1'', infoStartedAt = t, infoMaximumDurationSeconds = 60, infoTerminatedAt = None,
     infoStateReason = None, infoIdle = None, infoExecutionRoleArn = None, infoIngress = None, infoEgress = None,
     infoLifecycle = None, infoAgentVersion = None, infoCpuCount = None, infoMemoryMb = None, infoMetadata = None,
     infoSize = None, infoBaselineMemoryMib = None, infoBaselineCpu = None\<rparr>"

abbreviation exampleSlot :: "string \<Rightarrow> int \<Rightarrow> SlotState \<Rightarrow> nat option \<Rightarrow> SlotRecord" where
  "exampleSlot k t s p \<equiv> recordFromInfo (exampleInfo k t) ''token'' ''region'' s p"

text \<open>Started, with two sandboxes launched and being parked while a sweep lists.\<close>

definition runStarted :: Pool where
  "runStarted = reconcile True False [] (reconcileListed (Some (\<lambda>_. None)) (recycleStale True [] (startPool exampleParams 0 [])))"

definition runLaunched :: Pool where
  "runLaunched = recordLaunch True 0 (exampleSlot ''b'' 0 Warming None)
     (recordLaunch True 0 (exampleSlot ''a'' 1 Warming None) (fillerLoop exampleParams runStarted))"

definition runParking :: Pool where
  "runParking = warmer (WLaunched ''b'') (WParking ''b'') (warmer (WLaunched ''a'') (WParking ''a'') runLaunched)"

definition runListing :: Pool where
  "runListing = recycleStale True [] (fillerWork exampleParams 0 True runParking)"

definition runParked :: Pool where
  "runParked = parkReady True (exampleSlot ''b'' 0 Ready (Some 2)) (parkReady True (exampleSlot ''a'' 1 Ready (Some 2)) runListing)"

text \<open>The listing was taken before the parking: it does not show the first slot and shows
  the second one still running.\<close>

definition lateListing :: "string \<Rightarrow> string option" where
  "lateListing k = (if k = ''b'' then Some ''RUNNING'' else None)"

definition runReconciling :: Pool where
  "runReconciling = reconcileListed (Some lateListing) runParked"

text \<open>While the first slot is checked, \<open>take()\<close> hands out the second.\<close>

definition slotA :: SlotRecord where "slotA = exampleSlot ''a'' 1 Ready (Some 2)"
definition slotB :: SlotRecord where "slotB = exampleSlot ''b'' 0 Ready (Some 2)"

definition runTaking :: Pool where
  "runTaking = runReconciling\<lparr>poolTakers := {#TStarted#}\<rparr>"

definition runHanded :: Pool where
  "runHanded = takeConfigured ''b'' True (openSlot slotB True (resumeSlot slotB ResumedSlot
     (claimReadySlot exampleParams 0 True False TStarted runTaking)))"

definition runChecked :: Pool where
  "runChecked = reconcile True False [(slotA, Check), (slotB, Repark)] runHanded"

definition runReparked :: Pool where
  "runReparked = reconcile True False [(slotB, Repark)] runChecked"

section \<open>The run is one of the pool\<close>

lemma run_started: "pool_reach reliable exampleParams (startPool exampleParams 0 []) runStarted"
proof -
  have "pool_step reliable exampleParams (startPool exampleParams 0 []) (recycleStale True [] (startPool exampleParams 0 []))"
    by (rule sweep_recycle) code_simp+
  then have "pool_reach reliable exampleParams (startPool exampleParams 0 []) (recycleStale True [] (startPool exampleParams 0 []))"
    by (rule reach_step)
  moreover have "pool_step reliable exampleParams (recycleStale True [] (startPool exampleParams 0 []))
      (reconcileListed (Some (\<lambda>_. None)) (recycleStale True [] (startPool exampleParams 0 [])))"
    by (rule sweep_list) code_simp
  moreover have "pool_step reliable exampleParams
      (reconcileListed (Some (\<lambda>_. None)) (recycleStale True [] (startPool exampleParams 0 []))) runStarted"
    unfolding runStarted_def by (rule sweep_reconcile) code_simp+
  ultimately show ?thesis by (meson reach_after)
qed

lemma run_launched: "pool_reach reliable exampleParams (startPool exampleParams 0 []) runLaunched"
proof -
  let ?s = "fillerLoop exampleParams runStarted"
  let ?t = "recordLaunch True 0 (exampleSlot ''a'' 1 Warming None) ?s"
  have "pool_step reliable exampleParams runStarted ?s"
    by (rule filler_loop) code_simp
  moreover have "pool_step reliable exampleParams ?s ?t"
    by (rule warm_launch) code_simp+
  moreover have "pool_step reliable exampleParams ?t runLaunched"
    unfolding runLaunched_def by (rule warm_launch) code_simp+
  ultimately show ?thesis using run_started by (meson reach_after)
qed

lemma run_parked: "pool_reach reliable exampleParams (startPool exampleParams 0 []) runParked"
proof -
  let ?s = "warmer (WLaunched ''a'') (WParking ''a'') runLaunched"
  let ?t = "fillerWork exampleParams 0 True runParking"
  let ?u = "parkReady True (exampleSlot ''a'' 1 Ready (Some 2)) runListing"
  have "pool_step reliable exampleParams runLaunched ?s"
    by (rule warm_created) code_simp
  moreover have "pool_step reliable exampleParams ?s runParking"
    unfolding runParking_def by (rule warm_created) code_simp
  moreover have "pool_step reliable exampleParams runParking ?t"
    by (rule filler_work) code_simp
  moreover have "pool_step reliable exampleParams ?t runListing"
    unfolding runListing_def by (rule sweep_recycle) code_simp+
  moreover have "pool_step reliable exampleParams runListing ?u"
    by (rule warm_park) code_simp+
  moreover have "pool_step reliable exampleParams ?u runParked"
    unfolding runParked_def by (rule warm_park) code_simp+
  ultimately show ?thesis using run_launched by (meson reach_after)
qed

lemma run_handed: "pool_reach reliable exampleParams (startPool exampleParams 0 []) runHanded"
proof -
  let ?s = "claimReadySlot exampleParams 0 True False TStarted runTaking"
  let ?t = "resumeSlot slotB ResumedSlot ?s"
  let ?u = "openSlot slotB True ?t"
  have "pool_step reliable exampleParams runParked runReconciling"
    unfolding runReconciling_def by (rule sweep_list) code_simp
  moreover have "pool_step reliable exampleParams runReconciling runTaking"
    by (rule take_start)
      (simp add: takeStart_def requireOpen_def andThen_def runTaking_def, intro conjI; code_simp)
  moreover have "pool_step reliable exampleParams runTaking ?s"
    by (rule take_claim) code_simp+
  moreover have "pool_step reliable exampleParams ?s ?t"
    by (rule take_resume) code_simp
  moreover have "pool_step reliable exampleParams ?t ?u"
    by (rule take_open) code_simp
  moreover have "pool_step reliable exampleParams ?u runHanded"
    unfolding runHanded_def by (rule take_configured) code_simp
  ultimately show ?thesis using run_parked by (meson reach_after)
qed

lemma run_checked: "pool_reach reliable exampleParams (startPool exampleParams 0 []) runChecked"
proof -
  have "pool_step reliable exampleParams runHanded runChecked"
    unfolding runChecked_def by (rule sweep_reconcile) code_simp+
  with run_handed show ?thesis by (rule reach_after)
qed

lemma run_reparked: "pool_step reliable exampleParams runChecked runReparked"
  unfolding runReparked_def by (rule sweep_reconcile) code_simp+

section \<open>Closing the pool\<close>

text \<open>Both warm-ups end, \<open>close()\<close> gives up waiting for the filler and drains.\<close>

definition runClosing :: Pool where
  "runClosing = closeJoin True ((finishWarmUp (finishWarmUp runParked))\<lparr>poolClosing := CJoining, poolDrains := True\<rparr>)"

definition runDraining :: Pool where
  "runDraining = drain True [slotB] (drain True [slotA, slotB] (closeSettled runClosing))"

definition runClosed :: Pool where
  "runClosed = drain True [] runDraining"

lemma close_step:
  "\<not> poolClosed st \<Longrightarrow> poolStarted st \<Longrightarrow>
   pool_step reliable cfg st (st\<lparr>poolClosing := CJoining, poolDrains := True\<rparr>)"
  by (rule close_start [of cfg True]) (simp add: closePool_def)

lemma run_closing: "pool_reach reliable exampleParams (startPool exampleParams 0 []) runClosing"
proof -
  let ?s = "finishWarmUp runParked"
  let ?t = "(finishWarmUp ?s)\<lparr>poolClosing := CJoining, poolDrains := True\<rparr>"
  have "pool_step reliable exampleParams runParked ?s" "pool_step reliable exampleParams ?s (finishWarmUp ?s)"
    by (rule warm_finish, code_simp)+
  moreover have "pool_step reliable exampleParams (finishWarmUp ?s) ?t"
    by (rule close_step) code_simp+
  moreover have "pool_step reliable exampleParams ?t runClosing"
    unfolding runClosing_def by (rule close_join) code_simp
  ultimately show ?thesis using run_parked by (meson reach_after)
qed

lemma run_closed: "pool_reach reliable exampleParams (startPool exampleParams 0 []) runClosed"
proof -
  let ?s = "closeSettled runClosing"
  let ?t = "drain True [slotA, slotB] ?s"
  have "pool_step reliable exampleParams runClosing ?s"
    by (rule close_settled) code_simp+
  moreover have "pool_step reliable exampleParams ?s ?t"
    by (rule close_drain) code_simp+
  moreover have "pool_step reliable exampleParams ?t runDraining"
    unfolding runDraining_def by (rule close_drain) code_simp+
  moreover have "pool_step reliable exampleParams runDraining runClosed"
    unfolding runClosed_def by (rule close_drain) code_simp+
  ultimately show ?thesis using run_closing by (meson reach_after)
qed

text \<open>A sweep finds both slots stale, and the backend refuses the first deletion.\<close>

definition runCrashed :: Pool where
  "runCrashed = recycleStale False [slotA, slotB] (fillerWork exampleParams 1000000 True
     (fillerLoop exampleParams (reconcileListed None runParked)))"

definition runRejected :: Pool where
  "runRejected = closeJoin False (runCrashed\<lparr>poolClosing := CJoining, poolDrains := True\<rparr>)"

lemma run_rejected: "pool_reach False exampleParams (startPool exampleParams 0 []) runRejected"
proof -
  let ?s = "reconcileListed None runParked"
  let ?t = "fillerLoop exampleParams ?s"
  let ?u = "fillerWork exampleParams 1000000 True ?t"
  let ?v = "runCrashed\<lparr>poolClosing := CJoining, poolDrains := True\<rparr>"
  have "pool_step False exampleParams runParked ?s"
    by (rule sweep_list) code_simp
  moreover have "pool_step False exampleParams ?s ?t"
    by (rule filler_loop) code_simp
  moreover have "pool_step False exampleParams ?t ?u"
    by (rule filler_work) code_simp
  moreover have "pool_step False exampleParams ?u runCrashed"
    unfolding runCrashed_def by (rule sweep_recycle) code_simp+
  moreover have "pool_step False exampleParams runCrashed ?v"
    by (rule close_step) code_simp+
  moreover have "pool_step False exampleParams ?v runRejected"
    unfolding runRejected_def by (rule close_join) code_simp
  ultimately show ?thesis using run_parked by (meson reach_after)
qed

section \<open>Properties\<close>

text \<open>C24: a slot can be suspended after it was handed out.  There is a run in which a sweep
  lists a slot as running before its warm-up parks it, \<open>take()\<close> hands the slot out
  while the sweep checks another one, and the sweep then suspends it, because
  \<open>#repark\<close> does not look whether the pool still has the slot.\<close>
theorem repark_after_hand_out:
  "\<exists>st st'. pool_reach True exampleParams (startPool exampleParams 0 []) st \<and> pool_step True exampleParams st st' \<and>
     ''b'' \<in> set (histHanded st) \<and> ''b'' \<notin> set (histSuspended st) \<and> ''b'' \<in> set (histSuspended st')"
proof (intro exI conjI)
  show "pool_reach True exampleParams (startPool exampleParams 0 []) runChecked" by (rule run_checked)
  show "pool_step True exampleParams runChecked runReparked" by (rule run_reparked)
qed code_simp+


section \<open>The properties of the pool on this run\<close>

theorem pool_conservation_witness:
  "pool_reach True exampleParams (startPool exampleParams 0 []) runHanded \<and> histHanded runHanded = [''b''] \<and>
   distinct (map sandboxId (poolRecords runHanded) @ histHanded runHanded @ histTerminated runHanded @
     histGone runHanded @ histStranded runHanded)"
proof -
  have "histHanded runHanded = [''b'']" by code_simp
  then show ?thesis
    using pool_conservation [OF _ run_handed [of True]] run_handed [of True] by simp
qed

theorem pool_within_bounds_witness:
  "pool_reach True exampleParams (startPool exampleParams 0 []) runLaunched \<and> active (poolWarmUps runLaunched) = 2 \<and>
   active (poolWarmUps runLaunched) \<le> fillConcurrency exampleParams"
proof -
  have "active (poolWarmUps runLaunched) = 2" by code_simp
  then show ?thesis
    using pool_within_bounds [OF _ run_launched [of True]] run_launched [of True] by simp
qed

theorem pool_stats_accounted_witness:
  "pool_reach True exampleParams (startPool exampleParams 0 []) runHanded \<and>
   takes (statCounters (poolStats exampleParams runHanded)) = 1 \<and>
   takes (statCounters (poolStats exampleParams runHanded)) =
     hits (statCounters (poolStats exampleParams runHanded)) + misses (statCounters (poolStats exampleParams runHanded))"
proof -
  have "takes (statCounters (poolStats exampleParams runHanded)) = 1" by code_simp
  then show ?thesis
    using pool_stats_accounted [OF _ run_handed [of True]] run_handed [of True] by simp
qed



theorem close_can_finish_witness:
  "pool_reach True exampleParams (startPool exampleParams 0 []) runClosing \<and> poolClosing runClosing = CSettling \<and>
   (\<exists>st'. pool_reach True exampleParams runClosing st' \<and> poolClosing st' = CClosed)"
proof -
  have "poolClosing runClosing = CSettling" "0 < fillConcurrency exampleParams" "poolClosed runClosing" by code_simp+
  then show ?thesis
    using close_can_finish [OF _ run_closing] run_closing [of True] by simp
qed

end
