(* ===== verification/Secret_Names.thy ===== *)
theory Secret_Names
  imports Prelude
begin

text \<open>
  \<open>secrets/names.ts\<close>: references to secrets, the names they resolve to, the version
  number kept in a request token, and the refusal of the signing secrets of the
  webhooks.  Strings are Latin-1; versions are within the exact integers of the
  language.  The metadata kept in a description is not modelled.
\<close>

section \<open>References\<close>

datatype secret_error =
    EmptySecretName | TwoVersionSelectors | EmptyVersionSelector | BadSecretVersion | BadSecretPrefix
  | BadSecretName | WebhookSecretRefused | EmptySecretValue | SecretValueTooLong

definition DEFAULT_SECRET_PREFIX :: string where "DEFAULT_SECRET_PREFIX = ''rayito/''"
definition WEBHOOK_SECRET_PREFIX :: string where "WEBHOOK_SECRET_PREFIX = DEFAULT_SECRET_PREFIX @ ''webhooks/''"
definition SECRET_ARN_NAME_MARKER :: string where "SECRET_ARN_NAME_MARKER = '':secret:''"
definition VERSION_TOKEN_PREFIX :: string where "VERSION_TOKEN_PREFIX = ''rayito-secret-version-''"
definition SECRET_STRING_MAX_BYTES :: nat where "SECRET_STRING_MAX_BYTES = 65536"
definition SECRET_ID_MAX_CHARS :: nat where "SECRET_ID_MAX_CHARS = 512"
definition CURRENT_STAGE :: string where "CURRENT_STAGE = ''AWSCURRENT''"

record SecretRef =
  refName :: string
  refVersionId :: "string option"
  refVersionStage :: "string option"

definition newSecretRef :: "string \<Rightarrow> string option \<Rightarrow> string option \<Rightarrow> secret_error + SecretRef" where
  "newSecretRef name vid stage =
     (if name = [] then Inl EmptySecretName
      else if vid \<noteq> None \<and> stage \<noteq> None then Inl TwoVersionSelectors
      else if vid = Some [] \<or> stage = Some [] then Inl EmptyVersionSelector
      else Inr \<lparr>refName = name, refVersionId = vid, refVersionStage = stage\<rparr>)"

definition selector :: "SecretRef \<Rightarrow> string" where
  "selector r =
     (case refVersionId r of
        None \<Rightarrow> ''VersionStage:'' @ (case refVersionStage r of None \<Rightarrow> CURRENT_STAGE | Some s \<Rightarrow> s)
      | Some v \<Rightarrow> ''VersionId:'' @ v)"

datatype SecretLike = SecretString string | SecretReference SecretRef

definition asRef :: "SecretLike \<Rightarrow> secret_error + SecretRef" where
  "asRef secret = (case secret of SecretReference r \<Rightarrow> Inr r | SecretString name \<Rightarrow> newSecretRef name None None)"

section \<open>Versions\<close>

definition padStart :: "nat \<Rightarrow> char \<Rightarrow> string \<Rightarrow> string" where
  "padStart n c s = replicate (n - length s) c @ s"

definition versionToken :: "nat \<Rightarrow> secret_error + string" where
  "versionToken v = (if v < 1 then Inl BadSecretVersion else Inr (VERSION_TOKEN_PREFIX @ padStart 20 CHR ''0'' (showDigits 10 v)))"

definition versionFromId :: "string option \<Rightarrow> nat" where
  "versionFromId vid =
     (case vid of
        None \<Rightarrow> 0
      | Some s \<Rightarrow>
          let digits = drop (length VERSION_TOKEN_PREFIX) s
          in if prefix VERSION_TOKEN_PREFIX s \<and> length digits = 20 \<and> list_all isDigit digits
             then parseDigits 10 digits else 0)"

definition currentVersion :: "(string \<times> string list option) list \<Rightarrow> nat" where
  "currentVersion stages =
     (case List.find (\<lambda>(v, labels). case labels of None \<Rightarrow> False | Some ls \<Rightarrow> CURRENT_STAGE \<in> set ls) stages of
        None \<Rightarrow> 0 | Some (v, _) \<Rightarrow> versionFromId (Some v))"

definition latestVersion :: "(string \<times> string list option) list \<Rightarrow> nat" where
  "latestVersion stages = foldl max 0 (map (\<lambda>(v, _). versionFromId (Some v)) stages)"

section \<open>Names\<close>

text \<open>\<open>SECRET_NAME_PATTERN\<close>.\<close>

definition isNameChar :: "char \<Rightarrow> bool" where
  "isNameChar c \<longleftrightarrow> inRange c 65 90 \<or> inRange c 97 122 \<or> isDigit c \<or> c \<in> set ''/_+=.@-''"

definition validatePrefix :: "string \<Rightarrow> secret_error + string" where
  "validatePrefix p = (if p \<noteq> [] \<and> \<not> list_all isNameChar p then Inl BadSecretPrefix else Inr p)"

definition resolveSecretId :: "string \<Rightarrow> string \<Rightarrow> secret_error + string" where
  "resolveSecretId name p =
     (if name = [] then Inl EmptySecretName
      else if prefix ''arn:'' name then Inr name
      else let sid = p @ name
           in if SECRET_ID_MAX_CHARS < length sid \<or> \<not> list_all isNameChar sid then Inl BadSecretName else Inr sid)"

text \<open>\<open>indexOf\<close> of a string in a string.\<close>

fun indexOfStr :: "'a list \<Rightarrow> 'a list \<Rightarrow> nat option" where
  "indexOfStr sep [] = (if sep = [] then Some 0 else None)"
| "indexOfStr sep (x # xs) = (if prefix sep (x # xs) then Some 0 else map_option Suc (indexOfStr sep xs))"

definition secretNameOf :: "string \<Rightarrow> string" where
  "secretNameOf sid =
     (case indexOfStr SECRET_ARN_NAME_MARKER sid of
        Some i \<Rightarrow> if prefix ''arn:'' sid then drop (i + length SECRET_ARN_NAME_MARKER) sid else sid
      | None \<Rightarrow> sid)"

definition refuseWebhookSigningSecret :: "string \<Rightarrow> secret_error + unit" where
  "refuseWebhookSigningSecret sid =
     (if prefix WEBHOOK_SECRET_PREFIX (secretNameOf sid) then Inl WebhookSecretRefused else Inr ())"

definition displayName :: "string \<Rightarrow> string \<Rightarrow> string" where
  "displayName awsName p = (if p \<noteq> [] \<and> prefix p awsName then drop (length p) awsName else awsName)"

definition utf8Length :: "string \<Rightarrow> nat" where
  "utf8Length s = sum_list (map (\<lambda>c. if code c < 128 then 1 else 2) s)"

definition validateValue :: "string \<Rightarrow> secret_error + string" where
  "validateValue v =
     (if v = [] then Inl EmptySecretValue
      else if SECRET_STRING_MAX_BYTES < utf8Length v then Inl SecretValueTooLong else Inr v)"

text \<open>What \<open>SecretStore.readValue\<close> does before it calls the service: the id it would read.\<close>

definition readValueId :: "SecretRef \<Rightarrow> string \<Rightarrow> secret_error + string" where
  "readValueId r p =
     andThen (resolveSecretId (refName r) p) (\<lambda>sid. andThen (refuseWebhookSigningSecret sid) (\<lambda>_. Inr sid))"

section \<open>Lemmas\<close>

lemma showDigits_length: "n < 10 ^ k \<Longrightarrow> 0 < k \<Longrightarrow> length (showDigits 10 n) \<le> k"
proof (induction k arbitrary: n)
  case (Suc k)
  show ?case
  proof (cases "n < 10")
    case False
    then have "0 < k" using Suc.prems(1) by (cases k) auto
    moreover have "n div 10 < 10 ^ k" using Suc.prems(1) by (simp add: less_mult_imp_div_less mult.commute)
    ultimately show ?thesis using Suc.IH [of "n div 10"] False by (subst showDigits.simps) simp
  qed (subst showDigits.simps, simp)
qed simp

lemma parseDigits_zeros: "parseDigits 10 (replicate k CHR ''0'' @ s) = parseDigits 10 s"
proof -
  have "parseDigits 10 (replicate k CHR ''0'') = 0"
    by (induction k) (simp_all add: parseDigits_def digitValue_def flip: replicate_append_same)
  then show ?thesis by (simp add: parseDigits_def)
qed

lemma indexOfStr_arn:
  assumes "\<And>i. i < length pre \<Longrightarrow> \<not> prefix sep (drop i (pre @ sep @ s))"
  shows "indexOfStr sep (pre @ sep @ s) = Some (length pre)"
  using assms
proof (induction pre)
  case Nil
  have "prefix sep (sep @ s)" by simp
  then show ?case by (cases "sep @ s") (simp_all del: prefixI)
next
  case (Cons x pre)
  have "\<not> prefix sep (x # pre @ sep @ s)" using Cons.prems [of 0] by simp
  moreover have "indexOfStr sep (pre @ sep @ s) = Some (length pre)"
    using Cons.prems [of "Suc _"] by (intro Cons.IH) auto
  ultimately show ?case by simp
qed

section \<open>Properties\<close>

text \<open>The version of a secret survives its request token: the token of every version
  from 1 that has at most twenty digits has 42 characters and reads back as that
  version.\<close>
theorem versionToken_roundtrip:
  assumes "1 \<le> v" "v < 10 ^ 20"
  shows "\<exists>t. versionToken v = Inr t \<and> length t = 42 \<and> versionFromId (Some t) = v"
proof -
  let ?d = "padStart 20 CHR ''0'' (showDigits 10 v)"
  have "length (showDigits 10 v) \<le> 20" using assms(2) by (rule showDigits_length) simp
  then have len: "length ?d = 20" by (simp add: padStart_def)
  moreover have "list_all isDigit ?d"
    using showDigits_dec by (auto simp: padStart_def list_all_iff isDigit_def inRange_def)
  moreover have "parseDigits 10 ?d = v"
    by (simp add: padStart_def parseDigits_zeros parseDigits_showDigits)
  ultimately have "versionFromId (Some (VERSION_TOKEN_PREFIX @ ?d)) = v"
    by (simp add: versionFromId_def Let_def)
  then show ?thesis using assms(1) len by (simp add: versionToken_def VERSION_TOKEN_PREFIX_def)
qed

text \<open>No signing secret of a webhook is ever read for a sandbox: an id that
  \<open>readValue\<close> goes on to read is not a name under the prefix of the webhooks, nor an
  ARN whose name, after its first \<open>:secret:\<close>, is.\<close>
theorem readValue_refuses_webhooks:
  assumes "readValueId r p = Inr sid"
  shows "\<not> prefix WEBHOOK_SECRET_PREFIX sid \<and>
    (\<forall>pre n. sid = pre @ SECRET_ARN_NAME_MARKER @ n \<longrightarrow> prefix ''arn:'' pre \<longrightarrow>
      (\<forall>i < length pre. \<not> prefix SECRET_ARN_NAME_MARKER (drop i sid)) \<longrightarrow> \<not> prefix WEBHOOK_SECRET_PREFIX n)"
proof (intro conjI allI impI)
  have ok: "\<not> prefix WEBHOOK_SECRET_PREFIX (secretNameOf sid)"
    using assms by (auto simp: readValueId_def refuseWebhookSigningSecret_def throw_iff split: if_splits)
  have "\<not> prefix ''arn:'' sid" if "prefix WEBHOOK_SECRET_PREFIX sid"
    using that by (auto simp: prefix_def WEBHOOK_SECRET_PREFIX_def DEFAULT_SECRET_PREFIX_def)
  then show "\<not> prefix WEBHOOK_SECRET_PREFIX sid"
    using ok by (auto simp: secretNameOf_def split: option.splits)
  fix pre n
  assume sid: "sid = pre @ SECRET_ARN_NAME_MARKER @ n" and arn: "prefix ''arn:'' pre"
    and first: "\<forall>i < length pre. \<not> prefix SECRET_ARN_NAME_MARKER (drop i sid)"
  have "indexOfStr SECRET_ARN_NAME_MARKER sid = Some (length pre)"
    using first unfolding sid by (intro indexOfStr_arn) auto
  moreover have "prefix ''arn:'' sid" using arn sid by (simp add: prefix_prefix)
  ultimately have "secretNameOf sid = n" by (simp add: secretNameOf_def sid)
  with ok show "\<not> prefix WEBHOOK_SECRET_PREFIX n" by simp
qed

end
