(* ===== verification/Secret_Cache.thy ===== *)
theory Secret_Cache
  imports Secret_Names Complex_Main "HOL-Library.AList" "HOL-Library.Sublist"
begin

text \<open>
  \<open>secrets/cache.ts\<close>: the cache of secret values, with reads in flight.  The maps of
  the class are association lists.  A call to \<open>get\<close> finds a value, joins a read or
  starts one; the read lands later, in any order with other calls, so a run is a
  list of calls.  The clock and what the service answers are arguments.  The field
  \<open>forgottenAt\<close> and the generation kept with an entry are history: they say after
  which \<open>invalidate\<close> a read began.
\<close>

section \<open>State\<close>

record CacheEntry =
  entryValue :: string
  entryExpiresAt :: rat
  entryBegan :: nat

text \<open>A read that has begun: its key, and the generation at that moment.\<close>

record Flight =
  flightKey :: string
  flightGeneration :: nat

record SecretCache =
  cacheTtlMs :: rat
  cacheEntries :: "(string \<times> CacheEntry) list"
  cacheFlights :: "(string \<times> nat) list"
  cacheReads :: "(nat \<times> Flight) list"
  cacheGeneration :: nat
  nextRead :: nat
  forgottenAt :: "string \<Rightarrow> nat"

definition DEFAULT_TTL_SECONDS :: rat where "DEFAULT_TTL_SECONDS = 300"
definition MAX_TTL_SECONDS :: rat where "MAX_TTL_SECONDS = 86400"

datatype cache_error = BadTtl

definition newSecretCache :: "rat option \<Rightarrow> cache_error + SecretCache" where
  "newSecretCache ttl =
     (let t = (case ttl of None \<Rightarrow> DEFAULT_TTL_SECONDS | Some x \<Rightarrow> x)
      in if t < 1 \<or> MAX_TTL_SECONDS < t then Inl BadTtl
         else Inr \<lparr>cacheTtlMs = t * 1000, cacheEntries = [], cacheFlights = [], cacheReads = [],
                   cacheGeneration = 0, nextRead = 0, forgottenAt = (\<lambda>_. 0)\<rparr>)"

text \<open>What the cache reads of its store: the region, the credentials (as the number
  \<open>#identity\<close> gives them) and the prefix.\<close>

record CacheStore =
  storeRegion :: "string option"
  storeIdentity :: nat
  storePrefix :: string

definition cacheKey :: "CacheStore \<Rightarrow> SecretRef \<Rightarrow> secret_error + string" where
  "cacheKey s r =
     andThen (resolveSecretId (refName r) (storePrefix s)) (\<lambda>sid.
       Inr (joinWith ''|'' [case storeRegion s of None \<Rightarrow> [] | Some x \<Rightarrow> x,
                            showDigits 10 (storeIdentity s), sid, selector r]))"

section \<open>Operations\<close>

definition cacheSweep :: "rat \<Rightarrow> SecretCache \<Rightarrow> nat \<times> SecretCache" where
  "cacheSweep now c =
     (let kept = filter (\<lambda>(k, e). \<not> entryExpiresAt e \<le> now) (cacheEntries c)
      in (length (cacheEntries c) - length kept, c\<lparr>cacheEntries := kept\<rparr>))"

definition cacheFresh :: "string \<Rightarrow> rat \<Rightarrow> SecretCache \<Rightarrow> string option \<times> SecretCache" where
  "cacheFresh k now c =
     (case map_of (cacheEntries c) k of
        None \<Rightarrow> (None, c)
      | Some e \<Rightarrow>
          if entryExpiresAt e \<le> now then (None, c\<lparr>cacheEntries := AList.delete k (cacheEntries c)\<rparr>)
          else (Some (entryValue e), c))"

datatype GetResult = CacheHit string | JoinedRead nat | StartedRead nat

text \<open>\<open>get\<close>, up to the promise it returns: the part after the key is computed, and the whole.
  The clock is read by the sweep and again by \<open>#fresh\<close>.\<close>

definition cacheRead :: "string \<Rightarrow> rat \<Rightarrow> SecretCache \<Rightarrow> GetResult \<times> SecretCache" where
  "cacheRead k now c =
     (case cacheFresh k now c of
        (Some v, c') \<Rightarrow> (CacheHit v, c')
      | (None, c') \<Rightarrow>
          (case map_of (cacheFlights c') k of
             Some f \<Rightarrow> (JoinedRead f, c')
           | None \<Rightarrow>
               (StartedRead (nextRead c'),
                c'\<lparr>cacheFlights := AList.update k (nextRead c') (cacheFlights c'),
                   cacheReads := (nextRead c', \<lparr>flightKey = k, flightGeneration = cacheGeneration c'\<rparr>) # cacheReads c',
                   nextRead := Suc (nextRead c')\<rparr>)))"

definition cacheGet :: "CacheStore \<Rightarrow> SecretLike \<Rightarrow> rat \<Rightarrow> rat \<Rightarrow> SecretCache \<Rightarrow> (secret_error + GetResult) \<times> SecretCache" where
  "cacheGet s secret now now' c =
     (let c1 = snd (cacheSweep now c)
      in case andThen (asRef secret) (cacheKey s) of
           Inl e \<Rightarrow> (Inl e, c1)
         | Inr k \<Rightarrow> (case cacheRead k now' c1 of (res, c2) \<Rightarrow> (Inr res, c2)))"

text \<open>A read that lands, with its value or an error.\<close>

definition cacheLand :: "nat \<Rightarrow> string option \<Rightarrow> rat \<Rightarrow> SecretCache \<Rightarrow> SecretCache" where
  "cacheLand f answer now c =
     (case map_of (cacheReads c) f of
        None \<Rightarrow> c
      | Some r \<Rightarrow>
          let c1 = (case answer of
                      Some v \<Rightarrow>
                        if flightGeneration r = cacheGeneration c
                        then c\<lparr>cacheEntries := AList.update (flightKey r)
                               \<lparr>entryValue = v, entryExpiresAt = now + cacheTtlMs c, entryBegan = flightGeneration r\<rparr>
                               (cacheEntries c)\<rparr>
                        else c
                    | None \<Rightarrow> c);
              c2 = (if map_of (cacheFlights c1) (flightKey r) = Some f
                    then c1\<lparr>cacheFlights := AList.delete (flightKey r) (cacheFlights c1)\<rparr> else c1)
          in c2\<lparr>cacheReads := AList.delete f (cacheReads c2)\<rparr>)"

text \<open>Which keys \<open>invalidate(name)\<close> matches: the id between bars, and the selector at the end
  when a reference was given.\<close>

definition matchesKey :: "string \<Rightarrow> string option \<Rightarrow> string \<Rightarrow> bool" where
  "matchesKey sid exact k \<longleftrightarrow> sublist (''|'' @ sid @ ''|'') k \<and>
     (case exact of None \<Rightarrow> True | Some sel \<Rightarrow> suffix (''|'' @ sel) k)"

definition dropKeys :: "(string \<Rightarrow> bool) \<Rightarrow> (string \<times> 'a) list \<Rightarrow> (string \<times> 'a) list" where
  "dropKeys P m = filter (\<lambda>(k, _). \<not> P k) m"

definition invalidateKeys :: "(string \<Rightarrow> bool) \<Rightarrow> SecretCache \<Rightarrow> SecretCache" where
  "invalidateKeys P c =
     c\<lparr>cacheGeneration := Suc (cacheGeneration c), cacheEntries := dropKeys P (cacheEntries c),
       cacheFlights := dropKeys P (cacheFlights c),
       forgottenAt := (\<lambda>k. if P k then Suc (cacheGeneration c) else forgottenAt c k)\<rparr>"

definition invalidateAll :: "SecretCache \<Rightarrow> SecretCache" where
  "invalidateAll c = invalidateKeys (\<lambda>_. True) c"

text \<open>\<open>invalidate(name)\<close>; the generation is counted before the name is looked at.\<close>

definition invalidateName :: "CacheStore \<Rightarrow> SecretLike \<Rightarrow> SecretCache \<Rightarrow> (secret_error + unit) \<times> SecretCache" where
  "invalidateName s name c =
     (case andThen (asRef name) (\<lambda>r. andThen (resolveSecretId (refName r) (storePrefix s)) (\<lambda>sid. Inr (r, sid))) of
        Inl e \<Rightarrow> (Inl e, c\<lparr>cacheGeneration := Suc (cacheGeneration c)\<rparr>)
      | Inr (r, sid) \<Rightarrow>
          (Inr (), invalidateKeys
             (matchesKey sid (case name of SecretReference _ \<Rightarrow> Some (selector r) | SecretString _ \<Rightarrow> None)) c))"

text \<open>\<open>refresh(name)\<close>, up to the read it awaits.\<close>

definition cacheRefresh :: "CacheStore \<Rightarrow> SecretLike option \<Rightarrow> rat \<Rightarrow> rat \<Rightarrow> SecretCache \<Rightarrow> (secret_error + GetResult option) \<times> SecretCache" where
  "cacheRefresh s name now now' c =
     (case name of
        None \<Rightarrow> (Inr None, invalidateAll c)
      | Some n \<Rightarrow>
          (case invalidateName s n c of
             (Inl e, c1) \<Rightarrow> (Inl e, c1)
           | (Inr _, c1) \<Rightarrow>
               (case cacheGet s n now now' c1 of
                  (Inl e, c2) \<Rightarrow> (Inl e, c2)
                | (Inr res, c2) \<Rightarrow> (Inr (Some res), c2))))"

section \<open>Runs\<close>

datatype CacheCall =
    Get SecretLike rat rat | Land nat "string option" rat | Sweep rat
  | Invalidate SecretLike | InvalidateAll | Refresh "SecretLike option" rat rat

fun cacheCall :: "CacheStore \<Rightarrow> CacheCall \<Rightarrow> SecretCache \<Rightarrow> SecretCache" where
  "cacheCall s (Get secret now now') c = snd (cacheGet s secret now now' c)"
| "cacheCall s (Land f answer now) c = cacheLand f answer now c"
| "cacheCall s (Sweep now) c = snd (cacheSweep now c)"
| "cacheCall s (Invalidate name) c = snd (invalidateName s name c)"
| "cacheCall s InvalidateAll c = invalidateAll c"
| "cacheCall s (Refresh name now now') c = snd (cacheRefresh s name now now' c)"

definition runCache :: "CacheStore \<Rightarrow> CacheCall list \<Rightarrow> SecretCache \<Rightarrow> SecretCache" where
  "runCache s calls c = fold (cacheCall s) calls c"

section \<open>The invariant\<close>

text \<open>Entries and registered reads began after the last \<open>invalidate\<close> of their key, and the
  registered reads are all that did.\<close>

definition liveRead :: "SecretCache \<Rightarrow> string \<Rightarrow> nat \<Rightarrow> bool" where
  "liveRead c k f \<longleftrightarrow> (\<exists>r. map_of (cacheReads c) f = Some r \<and> flightKey r = k \<and> forgottenAt c k \<le> flightGeneration r)"

definition cacheInv :: "SecretCache \<Rightarrow> bool" where
  "cacheInv c \<longleftrightarrow>
     (\<forall>(k, e) \<in> set (cacheEntries c). forgottenAt c k \<le> entryBegan e) \<and>
     (\<forall>k f. map_of (cacheFlights c) k = Some f \<longleftrightarrow> liveRead c k f) \<and>
     (\<forall>f r. map_of (cacheReads c) f = Some r \<longrightarrow> f < nextRead c \<and> flightGeneration r \<le> cacheGeneration c) \<and>
     (\<forall>k. forgottenAt c k \<le> cacheGeneration c)"

lemma map_of_dropKeys: "map_of (dropKeys P m) k = (if P k then None else map_of m k)"
  unfolding dropKeys_def by (induction m) auto

lemma set_update_subset: "set (AList.update k v m) \<subseteq> insert (k, v) (set m)"
  by (induction m) auto

lemma cacheInv_entries:
  "cacheInv c \<Longrightarrow> set es \<subseteq> set (cacheEntries c) \<Longrightarrow> cacheInv (c\<lparr>cacheEntries := es\<rparr>)"
  by (auto simp: cacheInv_def liveRead_def)

lemma cacheInv_sweep: "cacheInv c \<Longrightarrow> cacheInv (snd (cacheSweep now c))"
  by (auto simp: cacheSweep_def Let_def intro: cacheInv_entries)

lemma cacheInv_fresh: "cacheInv c \<Longrightarrow> cacheInv (snd (cacheFresh k now c))"
  by (auto simp: cacheFresh_def AList.delete_eq intro!: cacheInv_entries split: option.split)

lemma cacheInv_flights: "cacheInv c \<Longrightarrow> map_of (cacheFlights c) k = Some f \<longleftrightarrow> liveRead c k f"
  by (simp add: cacheInv_def)

lemma liveRead_unique: "cacheInv c \<Longrightarrow> liveRead c k f \<Longrightarrow> {g. liveRead c k g} = {f}"
  by (simp flip: cacheInv_flights)

lemma cacheInv_start:
  assumes "cacheInv c" "map_of (cacheFlights c) k = None"
  shows "cacheInv (c\<lparr>cacheFlights := AList.update k (nextRead c) (cacheFlights c),
    cacheReads := (nextRead c, \<lparr>flightKey = k, flightGeneration = cacheGeneration c\<rparr>) # cacheReads c,
    nextRead := Suc (nextRead c)\<rparr>)" (is "cacheInv ?c'")
proof -
  have none: "\<not> liveRead c k f" for f
    using assms by (simp flip: cacheInv_flights)
  have bound: "map_of (cacheReads c) f = Some r \<Longrightarrow> f < nextRead c" for f r
    using assms(1) unfolding cacheInv_def by simp
  have live: "liveRead ?c' k' f \<longleftrightarrow> (if f = nextRead c then k = k' else liveRead c k' f)" for k' f
    using assms(1) by (simp add: liveRead_def cacheInv_def)
  have fresh: "\<not> liveRead c k' (nextRead c)" for k'
    using bound by (auto simp: liveRead_def)
  have flights: "map_of (cacheFlights ?c') k' = Some f \<longleftrightarrow> liveRead ?c' k' f" for k' f
    using assms(1) none fresh unfolding live by (auto simp: update_conv' cacheInv_def)
  have reads: "\<forall>f r. map_of (cacheReads ?c') f = Some r \<longrightarrow> f < nextRead ?c' \<and> flightGeneration r \<le> cacheGeneration ?c'"
    using assms(1) by (auto simp: cacheInv_def less_SucI)
  from assms(1) flights reads show ?thesis unfolding cacheInv_def by simp
qed

lemma cacheInv_read: "cacheInv c \<Longrightarrow> cacheInv (snd (cacheRead k now c))"
  using cacheInv_fresh [of c k now] by (auto simp: cacheRead_def cacheInv_start split: prod.split option.split)

lemma cacheInv_get: "cacheInv c \<Longrightarrow> cacheInv (snd (cacheGet s secret now now' c))"
  by (simp add: cacheGet_def Let_def cacheInv_sweep cacheInv_read case_prod_beta split: sum.split)

lemma map_of_delete_owner:
  assumes "\<And>k. map_of m k = Some f \<Longrightarrow> k = q"
  shows "map_of (if map_of m q = Some f then AList.delete q m else m) k = Some g \<longleftrightarrow> g \<noteq> f \<and> map_of m k = Some g"
  using assms [of k] by (cases "k = q") (auto simp: delete_conv')

lemma cacheInv_land: "cacheInv c \<Longrightarrow> cacheInv (cacheLand f answer now c)"
proof (cases "map_of (cacheReads c) f")
  case (Some r)
  assume inv: "cacheInv c"
  define stored where "stored = (case answer of
      Some v \<Rightarrow> if flightGeneration r = cacheGeneration c
        then AList.update (flightKey r) \<lparr>entryValue = v, entryExpiresAt = now + cacheTtlMs c, entryBegan = flightGeneration r\<rparr> (cacheEntries c)
        else cacheEntries c
    | None \<Rightarrow> cacheEntries c)"
  define kept where "kept = (if map_of (cacheFlights c) (flightKey r) = Some f
    then AList.delete (flightKey r) (cacheFlights c) else cacheFlights c)"
  let ?c' = "c\<lparr>cacheEntries := stored, cacheFlights := kept, cacheReads := AList.delete f (cacheReads c)\<rparr>"
  have shape: "cacheLand f answer now c = ?c'"
    using Some by (simp add: cacheLand_def Let_def stored_def kept_def split: option.split)
  have entries: "\<forall>(k, e) \<in> set stored. forgottenAt c k \<le> entryBegan e"
    using inv by (auto simp: stored_def cacheInv_def split: option.splits if_splits
        dest!: subsetD [OF set_update_subset])
  have owner: "map_of (cacheFlights c) k = Some f \<Longrightarrow> k = flightKey r" for k
    using Some by (auto simp: cacheInv_flights [OF inv] liveRead_def)
  have live: "liveRead ?c' k g \<longleftrightarrow> g \<noteq> f \<and> liveRead c k g" for k g
    by (simp add: liveRead_def delete_conv')
  have "map_of kept k = Some g \<longleftrightarrow> g \<noteq> f \<and> map_of (cacheFlights c) k = Some g" for k g
    unfolding kept_def by (rule map_of_delete_owner) (rule owner)
  with inv entries live show ?thesis
    unfolding shape cacheInv_def by (simp add: delete_conv' fun_upd_def)
qed (simp add: cacheLand_def)

lemma cacheInv_invalidate:
  assumes inv: "cacheInv c"
  shows "cacheInv (invalidateKeys P c)"
proof -
  have old: "map_of (cacheReads c) f = Some r \<Longrightarrow> flightGeneration r < Suc (cacheGeneration c)" for f r
    using inv by (auto simp: cacheInv_def le_imp_less_Suc)
  have live: "liveRead (invalidateKeys P c) k f \<longleftrightarrow> \<not> P k \<and> liveRead c k f" for k f
    using old by (auto simp: liveRead_def invalidateKeys_def not_le [symmetric])
  have "map_of (cacheFlights (invalidateKeys P c)) k = Some f \<longleftrightarrow> liveRead (invalidateKeys P c) k f" for k f
    unfolding live using inv by (simp add: invalidateKeys_def map_of_dropKeys cacheInv_flights)
  with inv show ?thesis
    unfolding cacheInv_def by (auto simp: invalidateKeys_def dropKeys_def le_SucI)
qed

lemma cacheInv_counted: "cacheInv c \<Longrightarrow> cacheInv (c\<lparr>cacheGeneration := Suc (cacheGeneration c)\<rparr>)"
  by (auto simp: cacheInv_def liveRead_def le_SucI)

lemma cacheInv_invalidateName: "cacheInv c \<Longrightarrow> cacheInv (snd (invalidateName s name c))"
  by (auto simp: invalidateName_def cacheInv_invalidate cacheInv_counted split: sum.split)

lemma cacheInv_refresh: "cacheInv c \<Longrightarrow> cacheInv (snd (cacheRefresh s name now now' c))"
  by (simp add: cacheRefresh_def invalidateAll_def cacheInv_invalidate cacheInv_invalidateName cacheInv_get
      case_prod_beta split: option.split sum.split)

lemma cacheInv_call: "cacheInv c \<Longrightarrow> cacheInv (cacheCall s call c)"
  by (cases call) (simp_all add: cacheInv_get cacheInv_land cacheInv_sweep cacheInv_invalidateName
      invalidateAll_def cacheInv_invalidate cacheInv_refresh)

lemma cacheInv_run: "cacheInv c \<Longrightarrow> cacheInv (runCache s calls c)"
  unfolding runCache_def by (induction calls arbitrary: c) (simp_all add: cacheInv_call)

lemma cacheInv_new: "newSecretCache ttl = Inr c \<Longrightarrow> cacheInv c"
  by (auto simp: newSecretCache_def cacheInv_def liveRead_def Let_def split: if_splits)

section \<open>What a caller gets\<close>

lemma cacheInv_entry: "cacheInv c \<Longrightarrow> (k, e) \<in> set (cacheEntries c) \<Longrightarrow> forgottenAt c k \<le> entryBegan e"
  unfolding cacheInv_def by (elim conjE) (drule (1) bspec, simp)

lemma cacheFresh_None: "map_of (cacheEntries c) k = None \<Longrightarrow> cacheFresh k now c = (None, c)"
  by (simp add: cacheFresh_def)

lemma cacheRead_started:
  "map_of (cacheEntries c) k = None \<Longrightarrow> map_of (cacheFlights c) k = None \<Longrightarrow>
     fst (cacheRead k now c) = StartedRead (nextRead c)"
  by (simp add: cacheRead_def cacheFresh_None)

lemma sweptEntry:
  assumes "cacheInv c"
    and "map_of (filter (\<lambda>(k, e). \<not> entryExpiresAt e \<le> now) (cacheEntries c)) k = Some e"
  shows "(k, e) \<in> set (cacheEntries c) \<and> now < entryExpiresAt e \<and> forgottenAt c k \<le> entryBegan e"
  using map_of_SomeD [OF assms(2)] by (auto simp: cacheInv_entry [OF assms(1)])

lemma cacheRead_sound:
  assumes "cacheInv c"
  shows "case fst (cacheRead k now (snd (cacheSweep now0 c))) of
       CacheHit v \<Rightarrow> \<exists>e. (k, e) \<in> set (cacheEntries c) \<and> entryValue e = v \<and> now0 < entryExpiresAt e \<and>
         now < entryExpiresAt e \<and> forgottenAt c k \<le> entryBegan e
     | JoinedRead f \<Rightarrow> liveRead c k f
     | StartedRead f \<Rightarrow> \<not> (\<exists>g. liveRead c k g)"
proof (cases "map_of (filter (\<lambda>(k, e). \<not> entryExpiresAt e \<le> now0) (cacheEntries c)) k")
  case None
  then show ?thesis
    by (simp add: cacheRead_def cacheFresh_def cacheSweep_def Let_def cacheInv_flights [OF assms, symmetric]
        split: option.split)
next
  case (Some e)
  from sweptEntry [OF assms this] this show ?thesis
    by (auto simp: cacheRead_def cacheFresh_def cacheSweep_def Let_def not_le cacheInv_flights [OF assms, symmetric]
        split: option.split)
qed

text \<open>C8: whatever gets, landing reads, sweeps, invalidations and refreshes came before, in any
  order, \<open>get\<close> of a secret answers from memory only with an entry that has not expired at either
  reading of the clock and whose read began after the last \<open>invalidate\<close> that matched its key; it
  joins a read in flight only if that one began after it too, and then it is the only such read of
  the key; and it sends a request only if there is none.\<close>

theorem cache_get_current:
  assumes "newSecretCache ttl = Inr c0" and "c = runCache s calls c0"
    and "asRef secret = Inr r" and "cacheKey s r = Inr k"
  shows "case fst (cacheGet s secret now now' c) of
       Inl e \<Rightarrow> False
     | Inr (CacheHit v) \<Rightarrow> \<exists>e. (k, e) \<in> set (cacheEntries c) \<and> entryValue e = v \<and> now < entryExpiresAt e \<and>
         now' < entryExpiresAt e \<and> forgottenAt c k \<le> entryBegan e
     | Inr (JoinedRead f) \<Rightarrow> {g. liveRead c k g} = {f}
     | Inr (StartedRead f) \<Rightarrow> {g. liveRead c k g} = {}"
proof -
  have inv: "cacheInv c" using assms(1,2) cacheInv_new cacheInv_run by blast
  have "cacheGet s secret now now' c = apfst Inr (cacheRead k now' (snd (cacheSweep now c)))"
    using assms(3,4) by (simp add: cacheGet_def Let_def apfst_def map_prod_def case_prod_beta)
  with cacheRead_sound [OF inv, of k now now'] show ?thesis
    by (auto split: GetResult.splits simp: liveRead_unique [OF inv])
qed

text \<open>A run: a read is forgotten by \<open>invalidate\<close> before it lands, the next one is stored.\<close>

definition demoStore :: CacheStore where
  "demoStore = \<lparr>storeRegion = Some ''us-east-1'', storeIdentity = 0, storePrefix = DEFAULT_SECRET_PREFIX\<rparr>"

definition demoCache :: SecretCache where
  "demoCache = runCache demoStore
     [Get (SecretString ''openai'') 0 0, Invalidate (SecretString ''openai''), Get (SecretString ''openai'') 1 1,
      Land 0 (Some ''old'') 5, Land 1 (Some ''new'') 6] (projr (newSecretCache None))"

lemma demoCache_hit:
  "fst (cacheGet demoStore (SecretString ''openai'') 7 8 demoCache) = Inr (CacheHit ''new'')"
  by code_simp

lemma demoCache_key:
  "asRef (SecretString ''openai'') = Inr \<lparr>refName = ''openai'', refVersionId = None, refVersionStage = None\<rparr>"
  "cacheKey demoStore \<lparr>refName = ''openai'', refVersionId = None, refVersionStage = None\<rparr> =
     Inr ''us-east-1|0|rayito/openai|VersionStage:AWSCURRENT''"
  by code_simp+

lemma demoCache_new: "newSecretCache None = Inr (projr (newSecretCache None))"
  by (simp add: newSecretCache_def DEFAULT_TTL_SECONDS_def MAX_TTL_SECONDS_def)

theorem cache_get_current_witness:
  "fst (cacheGet demoStore (SecretString ''openai'') 7 8 demoCache) = Inr (CacheHit ''new'') \<and>
   (\<exists>e. (''us-east-1|0|rayito/openai|VersionStage:AWSCURRENT'', e) \<in> set (cacheEntries demoCache) \<and>
     entryValue e = ''new'' \<and> 7 < entryExpiresAt e \<and> 8 < entryExpiresAt e \<and>
     forgottenAt demoCache ''us-east-1|0|rayito/openai|VersionStage:AWSCURRENT'' \<le> entryBegan e)"
  using cache_get_current [OF demoCache_new demoCache_def demoCache_key, of 7 8] demoCache_hit by simp

lemma matchesKey_own:
  assumes "resolveSecretId (refName r) (storePrefix s) = Inr sid" "cacheKey s r = Inr k"
    and "exact = None \<or> exact = Some (selector r)"
  shows "matchesKey sid exact k"
proof -
  obtain pre where k: "k = pre @ (''|'' @ sid @ ''|'') @ selector r"
    using assms(1,2) by (auto simp: cacheKey_def)
  then have "sublist (''|'' @ sid @ ''|'') k" by (simp only: sublist_appendI)
  moreover have "suffix (''|'' @ selector r) k" by (auto simp: k suffix_def)
  ultimately show ?thesis using assms(3) by (auto simp: matchesKey_def)
qed

lemma invalidateName_valid:
  "asRef name = Inr r \<Longrightarrow> resolveSecretId (refName r) (storePrefix s) = Inr sid \<Longrightarrow>
     invalidateName s name c = (Inr (), invalidateKeys
       (matchesKey sid (case name of SecretReference _ \<Rightarrow> Some (selector r) | SecretString _ \<Rightarrow> None)) c)"
  by (simp add: invalidateName_def)

text \<open>C28: \<open>refresh(name)\<close> never answers with a value read earlier: whatever the cache holds and
  whatever is in flight, when the name is valid it sends a new request of its own, even if a read
  of the same secret is on its way; with an invalid name it throws the error of the validation.\<close>

theorem refresh_reads_anew:
  "fst (cacheRefresh s (Some name) now now' c) =
     andThen (asRef name) (\<lambda>r. andThen (cacheKey s r) (\<lambda>_. Inr (Some (StartedRead (nextRead c)))))"
proof (cases "andThen (asRef name) (\<lambda>r. andThen (resolveSecretId (refName r) (storePrefix s)) (\<lambda>sid. Inr (r, sid)))")
  case (Inl e)
  then show ?thesis
    by (auto simp: cacheRefresh_def invalidateName_def cacheKey_def andThen_def split: sum.splits)
next
  case (Inr p)
  obtain r sid where r: "asRef name = Inr r" "resolveSecretId (refName r) (storePrefix s) = Inr sid" "p = (r, sid)"
    using Inr by (auto simp: andThen_def split: sum.splits)
  obtain k where k: "cacheKey s r = Inr k" using r by (simp add: cacheKey_def)
  define exact where "exact = (case name of SecretReference _ \<Rightarrow> Some (selector r) | SecretString _ \<Rightarrow> None)"
  let ?c = "invalidateKeys (matchesKey sid exact) c"
  have "matchesKey sid exact k"
    using matchesKey_own [OF r(2) k] by (auto simp: exact_def split: SecretLike.split)
  then have "map_of (cacheEntries (snd (cacheSweep now ?c))) k = None" "map_of (cacheFlights (snd (cacheSweep now ?c))) k = None"
    by (auto simp: invalidateKeys_def cacheSweep_def Let_def map_of_dropKeys map_of_eq_None_iff dropKeys_def)
  from cacheRead_started [OF this, of now'] show ?thesis
    using r k by (simp add: cacheRefresh_def invalidateName_valid exact_def [symmetric] cacheGet_def Let_def
        case_prod_beta cacheSweep_def) (simp add: invalidateKeys_def)
qed

end
