(* ===== verification/Tokens.thy ===== *)
theory Tokens
  imports Prelude "HOL-Library.AList" "HOL-Library.Multiset"
begin

text \<open>
  The tokens of the proxy (\<open>transport/tokens.ts\<close>) and the port specifications they are minted
  for (\<open>PortSpec\<close> and \<open>samePortSet\<close> of \<open>aws/control-plane.ts\<close>).  The refresher is a state with
  the mints that are on their way, the timers that wait and the loops of \<open>#tick\<close> and
  \<open>refreshAll\<close> that await a mint; its pieces between two awaits are the steps of a relation.
  Times are milliseconds.
\<close>

section \<open>Ports\<close>

record PortSpec =
  portStart :: nat
  portEnd :: nat

datatype port_error = InvertedRange

definition singlePort :: "nat \<Rightarrow> PortSpec" where
  "singlePort p = \<lparr>portStart = p, portEnd = p\<rparr>"

definition rangePort :: "nat \<Rightarrow> nat \<Rightarrow> port_error + PortSpec" where
  "rangePort a b = (if b < a then Inl InvertedRange else Inr \<lparr>portStart = a, portEnd = b\<rparr>)"

definition coversPort :: "PortSpec \<Rightarrow> nat \<Rightarrow> bool" where
  "coversPort spec p \<longleftrightarrow> portStart spec \<le> p \<and> p \<le> portEnd spec"

definition equalsSpec :: "PortSpec \<Rightarrow> PortSpec \<Rightarrow> bool" where
  "equalsSpec a b \<longleftrightarrow> portStart a = portStart b \<and> portEnd a = portEnd b"

datatype PortApi = ApiPort nat | ApiRange nat nat

definition toApi :: "PortSpec \<Rightarrow> PortApi" where
  "toApi spec = (if portStart spec = portEnd spec then ApiPort (portStart spec) else ApiRange (portStart spec) (portEnd spec))"

definition samePortSet :: "PortSpec list \<Rightarrow> PortSpec list \<Rightarrow> bool" where
  "samePortSet a b \<longleftrightarrow> length a = length b \<and> list_all (\<lambda>(x, y). equalsSpec x y) (zip a b)"

section \<open>Tokens\<close>

definition TOKEN_REFRESH_AFTER_MS :: int where "TOKEN_REFRESH_AFTER_MS = 45 * 60000"
definition TOKEN_REFRESH_RETRY_MS :: int where "TOKEN_REFRESH_RETRY_MS = 60 * 1000"

record ProxyToken =
  jwe :: string
  tokenPorts :: "PortSpec list"
  mintedAt :: int

definition tokenCovers :: "ProxyToken \<Rightarrow> nat \<Rightarrow> bool" where
  "tokenCovers t p \<longleftrightarrow> list_ex (\<lambda>spec. coversPort spec p) (tokenPorts t)"

definition refreshDue :: "ProxyToken \<Rightarrow> int \<Rightarrow> bool" where
  "refreshDue t now \<longleftrightarrow> TOKEN_REFRESH_AFTER_MS \<le> now - mintedAt t"

definition msUntilRefresh :: "ProxyToken \<Rightarrow> int \<Rightarrow> int" where
  "msUntilRefresh t now = max 0 (mintedAt t + TOKEN_REFRESH_AFTER_MS - now)"

text \<open>\<open>TokenStore\<close>.\<close>

definition putToken :: "ProxyToken \<Rightarrow> ProxyToken list \<Rightarrow> ProxyToken list" where
  "putToken t ts = filter (\<lambda>u. \<not> samePortSet (tokenPorts u) (tokenPorts t)) ts @ [t]"

definition tokenFor :: "nat \<Rightarrow> ProxyToken list \<Rightarrow> ProxyToken option" where
  "tokenFor p ts = List.find (\<lambda>t. tokenCovers t p) ts"

definition jweFor :: "nat \<Rightarrow> ProxyToken list \<Rightarrow> string option" where
  "jweFor p ts = map_option jwe (tokenFor p ts)"

section \<open>The refresher\<close>

text \<open>A loop that awaits a mint: \<open>#tick\<close> inside \<open>refreshDue\<close>, with the time it compares to, the
  tokens left and whether every mint worked so far; or \<open>refreshAll\<close>.\<close>

datatype TokenTask = TickAwaits int "ProxyToken list" bool nat | AllAwaits "ProxyToken list" nat

record TokenRefresher =
  tokenStore :: "ProxyToken list"
  inflight :: "(string \<times> nat) list"
  pendingMints :: "(nat \<times> PortSpec list) list"
  settledMints :: "(nat \<times> bool) list"
  nextMint :: nat
  currentTimer :: "nat option"
  liveTimers :: "(nat \<times> int) list"
  nextTimer :: nat
  tokenTasks :: "TokenTask multiset"

definition newTokenRefresher :: "ProxyToken list \<Rightarrow> TokenRefresher" where
  "newTokenRefresher ts = \<lparr>tokenStore = ts, inflight = [], pendingMints = [], settledMints = [], nextMint = 0,
     currentTimer = None, liveTimers = [], nextTimer = 0, tokenTasks = {#}\<rparr>"

definition portsKey :: "PortSpec list \<Rightarrow> string" where
  "portsKey ports = joinWith '','' (map (\<lambda>spec. showDigits 10 (portStart spec) @ ''-'' @ showDigits 10 (portEnd spec)) ports)"

text \<open>\<open>mint\<close>, up to the promise it returns.\<close>

definition mintPorts :: "PortSpec list \<Rightarrow> TokenRefresher \<Rightarrow> nat \<times> TokenRefresher" where
  "mintPorts ports st =
     (case map_of (inflight st) (portsKey ports) of
        Some m \<Rightarrow> (m, st)
      | None \<Rightarrow>
          (nextMint st,
           st\<lparr>inflight := AList.update (portsKey ports) (nextMint st) (inflight st),
              pendingMints := (nextMint st, ports) # pendingMints st,
              nextMint := Suc (nextMint st)\<rparr>))"

text \<open>\<open>ensure\<close>: a token at once, or the mint it awaits.\<close>

definition ensurePort :: "nat \<Rightarrow> TokenRefresher \<Rightarrow> (ProxyToken + nat) \<times> TokenRefresher" where
  "ensurePort p st =
     (case tokenFor p (tokenStore st) of
        Some t \<Rightarrow> (Inl t, st)
      | None \<Rightarrow> (case mintPorts [singlePort p] st of (m, st') \<Rightarrow> (Inr m, st')))"

text \<open>\<open>#mintNow\<close> after its await, with the answer of the control plane, and the \<open>finally\<close> of
  \<open>mint\<close>.\<close>

definition mintLanded :: "nat \<Rightarrow> string option \<Rightarrow> int \<Rightarrow> TokenRefresher \<Rightarrow> TokenRefresher" where
  "mintLanded m answer now st =
     (case map_of (pendingMints st) m of
        None \<Rightarrow> st
      | Some ports \<Rightarrow>
          st\<lparr>tokenStore := (case answer of
                 Some s \<Rightarrow> putToken \<lparr>jwe = s, tokenPorts = ports, mintedAt = now\<rparr> (tokenStore st)
               | None \<Rightarrow> tokenStore st),
             inflight := AList.delete (portsKey ports) (inflight st),
             pendingMints := AList.delete m (pendingMints st),
             settledMints := (m, answer \<noteq> None) # settledMints st\<rparr>)"

definition msUntilNextRefresh :: "int \<Rightarrow> ProxyToken list \<Rightarrow> int" where
  "msUntilNextRefresh now ts =
     (if ts = [] then TOKEN_REFRESH_AFTER_MS else Min (set (map (\<lambda>t. msUntilRefresh t now) ts)))"

definition schedule :: "int \<Rightarrow> int \<Rightarrow> TokenRefresher \<Rightarrow> TokenRefresher" where
  "schedule delay now st =
     st\<lparr>currentTimer := Some (nextTimer st), liveTimers := (nextTimer st, now + delay) # liveTimers st,
        nextTimer := Suc (nextTimer st)\<rparr>"

definition startRefresher :: "int \<Rightarrow> TokenRefresher \<Rightarrow> TokenRefresher" where
  "startRefresher now st =
     (if currentTimer st \<noteq> None then st else schedule (msUntilNextRefresh now (tokenStore st)) now st)"

definition stopRefresher :: "TokenRefresher \<Rightarrow> TokenRefresher" where
  "stopRefresher st =
     (case currentTimer st of
        None \<Rightarrow> st
      | Some t \<Rightarrow> st\<lparr>currentTimer := None, liveTimers := AList.delete t (liveTimers st)\<rparr>)"

text \<open>The loop of \<open>refreshDue\<close> up to its next await, with the end of \<open>#tick\<close>.\<close>

fun tickLoop :: "int \<Rightarrow> ProxyToken list \<Rightarrow> bool \<Rightarrow> int \<Rightarrow> TokenRefresher \<Rightarrow> TokenRefresher" where
  "tickLoop current [] ok now st =
     (if currentTimer st = None then st
      else schedule (if ok then msUntilNextRefresh now (tokenStore st) else TOKEN_REFRESH_RETRY_MS) now st)"
| "tickLoop current (t # ts) ok now st =
     (if \<not> refreshDue t current then tickLoop current ts ok now st
      else case mintPorts (tokenPorts t) st of
             (m, st') \<Rightarrow> st'\<lparr>tokenTasks := add_mset (TickAwaits current ts ok m) (tokenTasks st')\<rparr>)"

definition timerFired :: "nat \<Rightarrow> int \<Rightarrow> TokenRefresher \<Rightarrow> TokenRefresher" where
  "timerFired t now st =
     (let st' = st\<lparr>liveTimers := AList.delete t (liveTimers st)\<rparr>
      in if currentTimer st' = None then st' else tickLoop now (tokenStore st') True now st')"

text \<open>The loop of \<open>refreshAll\<close> up to its next await.\<close>

fun allLoop :: "ProxyToken list \<Rightarrow> TokenRefresher \<Rightarrow> TokenRefresher" where
  "allLoop [] st = st"
| "allLoop (t # ts) st =
     (case mintPorts (tokenPorts t) st of
        (m, st') \<Rightarrow> st'\<lparr>tokenTasks := add_mset (AllAwaits ts m) (tokenTasks st')\<rparr>)"

text \<open>A loop goes on once its mint has settled; a failure ends \<open>refreshAll\<close> and is noted by
  \<open>refreshDue\<close>.\<close>

definition resumeTask :: "TokenTask \<Rightarrow> bool \<Rightarrow> int \<Rightarrow> TokenRefresher \<Rightarrow> TokenRefresher" where
  "resumeTask task good now st =
     (let st' = st\<lparr>tokenTasks := tokenTasks st - {#task#}\<rparr>
      in case task of
           TickAwaits current ts ok m \<Rightarrow> tickLoop current ts (ok \<and> good) now st'
         | AllAwaits ts m \<Rightarrow> if good then allLoop ts st' else st')"

primrec awaitedMint :: "TokenTask \<Rightarrow> nat" where
  "awaitedMint (TickAwaits current ts ok m) = m"
| "awaitedMint (AllAwaits ts m) = m"

inductive refresher_step :: "TokenRefresher \<Rightarrow> TokenRefresher \<Rightarrow> bool" where
  Mint: "refresher_step st (snd (mintPorts ports st))"
| Ensure: "refresher_step st (snd (ensurePort p st))"
| Landed: "refresher_step st (mintLanded m answer now st)"
| Start: "refresher_step st (startRefresher now st)"
| Stop: "refresher_step st (stopRefresher st)"
| Fired: "map_of (liveTimers st) t = Some due \<Longrightarrow> due \<le> now \<Longrightarrow> refresher_step st (timerFired t now st)"
| RefreshAll: "refresher_step st (allLoop (tokenStore st) st)"
| Resumed: "task \<in># tokenTasks st \<Longrightarrow> map_of (settledMints st) (awaitedMint task) = Some good \<Longrightarrow>
    refresher_step st (resumeTask task good now st)"
| Cleared: "refresher_step st (st\<lparr>tokenStore := []\<rparr>)"

abbreviation refresher_reach :: "TokenRefresher \<Rightarrow> TokenRefresher \<Rightarrow> bool" where
  "refresher_reach \<equiv> refresher_step\<^sup>*\<^sup>*"

section \<open>Port sets\<close>

lemma equalsSpec_iff [simp]: "equalsSpec a b \<longleftrightarrow> a = b"
  by (auto simp: equalsSpec_def)

lemma samePortSet_iff: "samePortSet a b \<longleftrightarrow> a = b"
  by (auto simp: samePortSet_def list_all_iff list_eq_iff_zip_eq)

definition specKey :: "PortSpec \<Rightarrow> string" where
  "specKey spec = showDigits 10 (portStart spec) @ ''-'' @ showDigits 10 (portEnd spec)"

lemma showDigits_no: "\<not> isDigit c \<Longrightarrow> c \<notin> set (showDigits 10 n)"
  using showDigits_dec by blast

lemma showDigits_eq_iff: "showDigits 10 a = showDigits 10 b \<longleftrightarrow> a = b"
proof
  assume "showDigits 10 a = showDigits 10 b"
  then have "parseDigits 10 (showDigits 10 a) = parseDigits 10 (showDigits 10 b)" by (rule arg_cong)
  then show "a = b" by (simp only: parseDigits_showDigits)
qed simp

lemma not_digits: "\<not> isDigit CHR ''-''" "\<not> isDigit CHR '',''"
  by (simp_all add: isDigit_def inRange_def)

lemma specKey_eq_iff: "specKey a = specKey b \<longleftrightarrow> a = b"
proof
  assume "specKey a = specKey b"
  then have "splitOn CHR ''-'' (specKey a) = splitOn CHR ''-'' (specKey b)" by simp
  then show "a = b"
    by (simp add: specKey_def splitOn_append_sep splitOn_no_sep showDigits_no not_digits showDigits_eq_iff)
qed simp

lemma specKey_no_comma: "CHR '','' \<notin> set (specKey spec)"
  by (simp add: specKey_def showDigits_no not_digits)

lemma portsKey_eq_iff: "portsKey a = portsKey b \<longleftrightarrow> a = b"
proof
  assume eq: "portsKey a = portsKey b"
  have key: "portsKey ports = joinWith '','' (map specKey ports)" for ports
    by (simp add: portsKey_def specKey_def [abs_def])
  have nonempty: "ports \<noteq> [] \<Longrightarrow> splitOn CHR '','' (portsKey ports) = map specKey ports" for ports
    unfolding key by (rule splitOn_joinWith) (auto simp: specKey_no_comma)
  have empty: "portsKey ports = [] \<longleftrightarrow> ports = []" for ports
    by (cases ports; cases "tl ports") (auto simp: key specKey_def)
  have "map specKey a = map specKey b"
    using eq empty nonempty by (metis list.simps(8))
  then show "a = b" by (metis specKey_eq_iff inj_onI map_inj_on)
qed simp

section \<open>The invariant of the refresher\<close>

definition mintInv :: "TokenRefresher \<Rightarrow> bool" where
  "mintInv st \<longleftrightarrow>
     (\<forall>ports m. map_of (inflight st) (portsKey ports) = Some m \<longleftrightarrow> map_of (pendingMints st) m = Some ports) \<and>
     (\<forall>m ports. map_of (pendingMints st) m = Some ports \<longrightarrow> m < nextMint st) \<and>
     distinct (map tokenPorts (tokenStore st))"

definition taskInv :: "TokenRefresher \<Rightarrow> bool" where
  "taskInv st \<longleftrightarrow> (\<forall>task \<in># tokenTasks st.
     map_of (pendingMints st) (awaitedMint task) \<noteq> None \<or> map_of (settledMints st) (awaitedMint task) \<noteq> None)"

definition isTick :: "TokenTask \<Rightarrow> bool" where
  "isTick task \<longleftrightarrow> (\<exists>current ts ok m. task = TickAwaits current ts ok m)"

definition chainInv :: "TokenRefresher \<Rightarrow> bool" where
  "chainInv st \<longleftrightarrow> (currentTimer st \<noteq> None \<longrightarrow> liveTimers st \<noteq> [] \<or> (\<exists>task \<in># tokenTasks st. isTick task))"

lemma putToken_distinct:
  "distinct (map tokenPorts ts) \<Longrightarrow> distinct (map tokenPorts (putToken t ts))"
  by (auto simp: putToken_def samePortSet_iff distinct_map inj_on_def)

lemma mintPorts_pending:
  assumes "mintInv st" "mintPorts ports st = (m, st')"
  shows "mintInv st' \<and> map_of (pendingMints st') m = Some ports"
proof (cases "map_of (inflight st) (portsKey ports)")
  case None
  have m: "m = nextMint st" and st': "st' = st\<lparr>inflight := AList.update (portsKey ports) (nextMint st) (inflight st),
      pendingMints := (nextMint st, ports) # pendingMints st, nextMint := Suc (nextMint st)\<rparr>"
    using None assms(2) by (auto simp: mintPorts_def)
  have key: "map_of (inflight st) (portsKey p) = Some n \<longleftrightarrow> map_of (pendingMints st) n = Some p"
    and bound: "map_of (pendingMints st) n = Some p \<Longrightarrow> n < nextMint st"
    and store: "distinct (map tokenPorts (tokenStore st))" for p n
    using assms(1) by (simp_all add: mintInv_def)
  have "map_of (inflight st') (portsKey p) = Some n \<longleftrightarrow> map_of (pendingMints st') n = Some p" for p n
    using key [of p n] key [of ports n] bound [of "nextMint st" p] None
    by (cases "p = ports"; cases "n = nextMint st") (auto simp: st' update_conv' portsKey_eq_iff)
  moreover have "map_of (pendingMints st') n = Some p \<Longrightarrow> n < nextMint st'" for p n
    using bound [of n p] by (auto simp: st' split: if_splits)
  ultimately show ?thesis
    unfolding mintInv_def using store by (simp add: m st')
next
  case (Some n)
  then show ?thesis using assms by (auto simp: mintPorts_def mintInv_def)
qed

lemma mintPorts_frame:
  "mintPorts ports st = (m, st') \<Longrightarrow> tokenStore st' = tokenStore st \<and> currentTimer st' = currentTimer st \<and>
     liveTimers st' = liveTimers st \<and> tokenTasks st' = tokenTasks st \<and> settledMints st' = settledMints st"
  by (auto simp: mintPorts_def split: option.splits)

lemma mintPorts_keeps:
  "mintPorts ports st = (m, st') \<Longrightarrow> mintInv st \<Longrightarrow> map_of (pendingMints st) n \<noteq> None \<Longrightarrow> map_of (pendingMints st') n \<noteq> None"
  by (auto simp: mintPorts_def split: option.splits)

text \<open>Three invariants at once, by the fields an operation leaves alone.\<close>

definition refresherInv :: "TokenRefresher \<Rightarrow> bool" where
  "refresherInv st \<longleftrightarrow> mintInv st \<and> taskInv st \<and> chainInv st"

lemma mintInv_updates [simp]:
  "mintInv (st\<lparr>tokenTasks := x1\<rparr>) = mintInv st" "mintInv (st\<lparr>currentTimer := x2\<rparr>) = mintInv st"
  "mintInv (st\<lparr>liveTimers := x3\<rparr>) = mintInv st" "mintInv (st\<lparr>nextTimer := x4\<rparr>) = mintInv st"
  by (simp_all add: mintInv_def)

lemma mintInv_distinct: "mintInv st \<Longrightarrow> distinct (map tokenPorts (tokenStore st))"
  by (simp add: mintInv_def)

lemma taskInv_mint: "mintPorts ports st = (m, st') \<Longrightarrow> mintInv st \<Longrightarrow> taskInv st \<Longrightarrow> taskInv st'"
  using mintPorts_frame [of ports st m st'] mintPorts_keeps [of ports st m st']
  by (simp add: taskInv_def) blast

lemma chainInv_mint: "mintPorts ports st = (m, st') \<Longrightarrow> chainInv st \<Longrightarrow> chainInv st'"
  using mintPorts_frame [of ports st m st'] by (simp add: chainInv_def)

lemma mint_await:
  assumes "mintPorts ports st = (m, st')" "mintInv st" "taskInv st" "awaitedMint task = m"
  shows "mintInv (st'\<lparr>tokenTasks := add_mset task (tokenTasks st')\<rparr>) \<and>
    taskInv (st'\<lparr>tokenTasks := add_mset task (tokenTasks st')\<rparr>)"
  using mintPorts_pending [OF assms(2,1)] taskInv_mint [OF assms(1-3)] assms(4)
  by (auto simp: taskInv_def)

lemma tickLoop_inv:
  "mintInv st \<Longrightarrow> taskInv st \<Longrightarrow> refresherInv (tickLoop current ts ok now st)"
proof (induction current ts ok now st rule: tickLoop.induct)
  case (1 current ok now st)
  then show ?case
    by (auto simp: refresherInv_def schedule_def chainInv_def taskInv_def)
next
  case (2 current t ts ok now st)
  obtain m st' where m: "mintPorts (tokenPorts t) st = (m, st')" by fastforce
  show ?case
  proof (cases "refreshDue t current")
    case True
    then show ?thesis
      using mint_await [OF m 2(2,3), of "TickAwaits current ts ok m"] m
      by (auto simp: refresherInv_def chainInv_def isTick_def)
  qed (use 2 in simp)
qed

lemma allLoop_inv: "refresherInv st \<Longrightarrow> refresherInv (allLoop ts st)"
proof (cases ts)
  case (Cons t us)
  assume inv: "refresherInv st"
  obtain m st' where m: "mintPorts (tokenPorts t) st = (m, st')" by fastforce
  then show ?thesis
    using mint_await [OF m, of "AllAwaits us m"] chainInv_mint [OF m] inv Cons
    by (auto simp: refresherInv_def chainInv_def)
qed simp

lemma mintLanded_inv: "refresherInv st \<Longrightarrow> refresherInv (mintLanded m answer now st)"
proof (cases "map_of (pendingMints st) m")
  case (Some ports)
  assume inv: "refresherInv st"
  let ?st = "mintLanded m answer now st"
  have key: "map_of (inflight st) (portsKey p) = Some n \<longleftrightarrow> map_of (pendingMints st) n = Some p" for p n
    using inv by (simp add: refresherInv_def mintInv_def)
  have "map_of (inflight ?st) (portsKey p) = Some n \<longleftrightarrow> map_of (pendingMints ?st) n = Some p" for p n
    using key [of p n] key [of ports m] Some
    by (cases "p = ports"; cases "n = m") (auto simp: mintLanded_def delete_conv' portsKey_eq_iff)
  moreover have "distinct (map tokenPorts (tokenStore ?st))"
    using mintInv_distinct [of st] inv Some by (simp add: mintLanded_def refresherInv_def putToken_distinct split: option.split)
  moreover have "map_of (pendingMints ?st) n = Some p \<Longrightarrow> n < nextMint ?st" for n p
    using inv Some by (auto simp: refresherInv_def mintInv_def mintLanded_def delete_conv' fun_upd_def split: if_splits)
  ultimately have "mintInv ?st" unfolding mintInv_def by blast
  moreover have "taskInv ?st" "chainInv ?st"
    using inv Some by (auto simp: refresherInv_def taskInv_def chainInv_def mintLanded_def delete_conv')
  ultimately show ?thesis by (simp add: refresherInv_def)
qed (simp add: mintLanded_def)

lemma resumeTask_inv:
  assumes inv: "refresherInv st"
  shows "refresherInv (resumeTask task good now st)"
proof -
  let ?st = "st\<lparr>tokenTasks := tokenTasks st - {#task#}\<rparr>"
  have kept: "mintInv ?st" "taskInv ?st"
    using inv by (auto simp: refresherInv_def taskInv_def dest: in_diffD)
  have "\<not> isTick task \<Longrightarrow> chainInv ?st"
    using inv by (fastforce simp: refresherInv_def chainInv_def in_diff_count)
  with kept have "\<not> isTick task \<Longrightarrow> refresherInv ?st" by (simp add: refresherInv_def)
  with kept show ?thesis
    by (cases task) (simp_all add: resumeTask_def isTick_def Let_def tickLoop_inv allLoop_inv)
qed

lemma timerFired_inv: "refresherInv st \<Longrightarrow> refresherInv (timerFired t now st)"
  using tickLoop_inv [of "st\<lparr>liveTimers := AList.delete t (liveTimers st)\<rparr>"]
  by (auto simp: timerFired_def Let_def refresherInv_def taskInv_def chainInv_def)

lemma startRefresher_inv: "refresherInv st \<Longrightarrow> refresherInv (startRefresher now st)"
  by (auto simp: startRefresher_def schedule_def refresherInv_def taskInv_def chainInv_def)

lemma stopRefresher_inv: "refresherInv st \<Longrightarrow> refresherInv (stopRefresher st)"
  by (auto simp: stopRefresher_def refresherInv_def taskInv_def chainInv_def split: option.split)

lemma refresherInv_step:
  assumes "refresher_step st st'" "refresherInv st"
  shows "refresherInv st'"
  using assms
proof (cases rule: refresher_step.cases)
  case (Mint ports)
  obtain m st'' where m: "mintPorts ports st = (m, st'')" by fastforce
  show ?thesis
    using Mint m mintPorts_pending [OF _ m] taskInv_mint [OF m] chainInv_mint [OF m] assms(2)
    by (simp add: refresherInv_def)
next
  case (Ensure p)
  obtain m st'' where m: "mintPorts [singlePort p] st = (m, st'')" by fastforce
  show ?thesis
    using Ensure m mintPorts_pending [OF _ m] taskInv_mint [OF m] chainInv_mint [OF m] assms(2)
    by (simp add: refresherInv_def ensurePort_def split: option.split)
next
  case Cleared
  then show ?thesis using assms(2) by (simp add: refresherInv_def mintInv_def taskInv_def chainInv_def)
qed (simp_all add: mintLanded_inv allLoop_inv resumeTask_inv timerFired_inv startRefresher_inv stopRefresher_inv)

lemma refresherInv_reach:
  assumes "refresher_reach (newTokenRefresher []) st"
  shows "refresherInv st"
  using assms
proof (induction rule: rtranclp_induct)
  case base
  show ?case
    by (simp add: newTokenRefresher_def refresherInv_def mintInv_def taskInv_def chainInv_def)
qed (rule refresherInv_step)

section \<open>Properties\<close>

text \<open>C9: the renewal never dies silently.  In every state of a refresher that was started and not
  stopped, whatever mints failed and however the calls interleave, a timer is waiting or a loop of
  \<open>#tick\<close> awaits a mint that has been sent to the control plane or has already settled, so that
  the next renewal follows from the answer.\<close>

theorem refresher_keeps_running:
  assumes "refresher_reach (newTokenRefresher []) st" and "currentTimer st \<noteq> None"
  shows "liveTimers st \<noteq> [] \<or>
    (\<exists>current ts ok m. TickAwaits current ts ok m \<in># tokenTasks st \<and>
       (map_of (pendingMints st) m \<noteq> None \<or> map_of (settledMints st) m \<noteq> None))"
proof -
  have inv: "taskInv st" "chainInv st" using refresherInv_reach [OF assms(1)] by (simp_all add: refresherInv_def)
  show ?thesis
  proof (cases "liveTimers st = []")
    case True
    then obtain task where "task \<in># tokenTasks st" "isTick task"
      using inv(2) assms(2) unfolding chainInv_def by blast
    then show ?thesis using inv(1) unfolding taskInv_def isTick_def by force
  qed simp
qed

lemma msUntilRefresh_le_iff: "msUntilRefresh t now \<le> d \<longleftrightarrow> 0 \<le> d \<and> refreshDue t (now + d)"
  by (auto simp: msUntilRefresh_def refreshDue_def)

text \<open>C36: the timer is set for the first moment at which a token is due.  With tokens in the store,
  \<open>msUntilNextRefresh\<close> is never negative, some token is due once that time has passed, and none is
  due at any earlier moment from now on; so a delay is at most the one asked for exactly when it
  has come to that.\<close>

theorem msUntilNextRefresh_exact:
  "ts \<noteq> [] \<Longrightarrow> msUntilNextRefresh now ts \<le> d \<longleftrightarrow> 0 \<le> d \<and> list_ex (\<lambda>t. refreshDue t (now + d)) ts"
  by (auto simp: msUntilNextRefresh_def Min_le_iff msUntilRefresh_le_iff list_ex_iff)

theorem msUntilNextRefresh_exact_witness:
  "msUntilNextRefresh 1000 [\<lparr>jwe = ''a'', tokenPorts = [singlePort 80], mintedAt = 0\<rparr>] \<le> 2699000 \<and>
   \<not> msUntilNextRefresh 1000 [\<lparr>jwe = ''a'', tokenPorts = [singlePort 80], mintedAt = 0\<rparr>] \<le> 2698999"
  by (subst (1 2) msUntilNextRefresh_exact) (simp_all add: refreshDue_def TOKEN_REFRESH_AFTER_MS_def)


section \<open>Runs\<close>

text \<open>A token for port 80, the renewal started, its timer fired, its mint on the way.\<close>

definition runMinting :: TokenRefresher where
  "runMinting = timerFired 0 2700000 (startRefresher 0 (mintLanded 0 (Some ''a'') 0
     (snd (mintPorts [singlePort 80] (newTokenRefresher [])))))"

text \<open>\<open>stop()\<close> and \<open>start()\<close> while the tick awaits, then the answer.\<close>

definition runRestarted :: TokenRefresher where
  "runRestarted = resumeTask (TickAwaits 2700000 [] True 1) True 2700003
     (mintLanded 1 (Some ''b'') 2700002 (startRefresher 2700001 (stopRefresher runMinting)))"

lemma refresher_steps:
  "refresher_reach st0 st \<Longrightarrow> refresher_step st st' \<Longrightarrow> refresher_reach st0 st'"
  by (rule rtranclp.rtrancl_into_rtrancl)

lemma runMinting_timer:
  "map_of (liveTimers (startRefresher 0 (mintLanded 0 (Some ''a'') 0
     (snd (mintPorts [singlePort 80] (newTokenRefresher [])))))) 0 = Some 2700000"
  by code_simp

lemma runMinting_reach: "refresher_reach (newTokenRefresher []) runMinting"
  unfolding runMinting_def
  by (rule refresher_steps [OF _ Fired [OF runMinting_timer order_refl]])
    (rule refresher_steps [OF refresher_steps [OF refresher_steps [OF rtranclp.rtrancl_refl Mint] Landed] Start])

lemma runRestarted_resumes:
  "TickAwaits 2700000 [] True 1 \<in># tokenTasks (mintLanded 1 (Some ''b'') 2700002 (startRefresher 2700001 (stopRefresher runMinting)))"
  "map_of (settledMints (mintLanded 1 (Some ''b'') 2700002 (startRefresher 2700001 (stopRefresher runMinting))))
     (awaitedMint (TickAwaits 2700000 [] True 1)) = Some True"
  by code_simp+

lemma runRestarted_reach: "refresher_reach (newTokenRefresher []) runRestarted"
  unfolding runRestarted_def
  by (rule refresher_steps [OF _ Resumed [OF runRestarted_resumes]])
    (rule refresher_steps [OF refresher_steps [OF refresher_steps [OF runMinting_reach Stop] Start] Landed])

theorem refresher_keeps_running_witness:
  "currentTimer runMinting = Some 0 \<and> liveTimers runMinting = [] \<and>
   (\<exists>current ts ok m. TickAwaits current ts ok m \<in># tokenTasks runMinting)"
proof -
  have "currentTimer runMinting = Some 0" "liveTimers runMinting = []" by code_simp+
  then show ?thesis using refresher_keeps_running [OF runMinting_reach] by auto
qed



end
