(* ===== verification/Rpc_Errors.thy ===== *)
theory Rpc_Errors
  imports Lifecycle "HOL-Library.Sublist"
begin

text \<open>
  \<open>transport/errors.ts\<close> and \<open>sandbox/stream-errors.ts\<close>: how the failures of a call are told apart
  and what the SDK throws for them.  An error of Connect has its code, its raw message and the chain
  of its causes; an error of the SDK has its class and the text of its message by its parts (the
  wording around them is left out, and so is the \<open>cause\<close> of an error that is built here, which is
  always the error it comes from).
\<close>

section \<open>Errors\<close>

datatype Code =
    Canceled | Unknown | InvalidArgument | DeadlineExceeded | NotFound | AlreadyExists | PermissionDenied
  | ResourceExhausted | FailedPrecondition | Aborted | OutOfRange | Unimplemented | Internal | Unavailable
  | DataLoss | Unauthenticated

datatype ErrorClass =
    SandboxError | TimeoutError | InvalidArgumentError | NotFoundError | FileNotFoundError | SandboxNotFoundError
  | SandboxNotReadyError | SandboxStateError | DiskFullError | RateLimitError | LifetimeBeyondCapError
  | AuthenticationError | QuotaExceededError | CapacityError | UnimplementedError | LifecycleUnsupportedError
  | AnotherError

text \<open>The classes of \<open>errors.ts\<close> that extend \<open>SandboxError\<close>, itself included.\<close>

definition sandboxErrorClass :: "ErrorClass \<Rightarrow> bool" where
  "sandboxErrorClass c \<longleftrightarrow> c \<notin> {AuthenticationError, QuotaExceededError, CapacityError, UnimplementedError,
     LifecycleUnsupportedError, AnotherError}"

datatype ErrorText =
    Plain string | PhaseIs string | KernelNotReady string | TimeoutReached | CanceledByClient string
  | FeatureMissing string string | CodeAndMessage string string | BeyondCapText int | UnmanagedText | UnsupportedText
  | CutButAlive string | CutInState string string | CutAndSilent string "string option"
  | TerminalText string "string option" | SuspendedNoResume | BootTerminated string "string option"
  | NotReadyIn rat "(string \<times> string option) option" bool | ClosedWhileReconnecting | PhaseUntil string rat | SilentFor rat

record SdkError =
  errorClass :: ErrorClass
  errorText :: ErrorText
  errorGrpcCode :: "Code option"
  proxyRejected :: bool
  errorCapUnixMs :: "int option"

definition sdkError :: "ErrorClass \<Rightarrow> ErrorText \<Rightarrow> Code option \<Rightarrow> SdkError" where
  "sdkError c txt gc = \<lparr>errorClass = c, errorText = txt, errorGrpcCode = gc, proxyRejected = False, errorCapUnixMs = None\<rparr>"

text \<open>An object in a chain of causes: its \<open>syscall\<close> and \<open>code\<close> when they are strings, the error of
  the SDK it is when it is one, and its own cause.\<close>

datatype JsCause = JsCause (causeSyscall: "string option") (causeCode: "string option")
  (causeSdk: "SdkError option") (causeOf: "JsCause option")

record ConnectError =
  connectCode :: Code
  rawMessage :: string
  connectCause :: "JsCause option"

text \<open>What a promise may reject with.\<close>

datatype Thrown = ConnectThrown ConnectError | SdkThrown SdkError | ValueThrown string

definition asConnectError :: "Thrown \<Rightarrow> ConnectError option" where
  "asConnectError e = (case e of ConnectThrown c \<Rightarrow> Some c | _ \<Rightarrow> None)"

section \<open>Classes of failures\<close>

definition PROXY_FORBIDDEN_MESSAGE :: string where "PROXY_FORBIDDEN_MESSAGE = ''HTTP 403''"
definition PHASE_GATE_DETAILS :: "string list" where "PHASE_GATE_DETAILS = [''suspending'', ''terminating'']"
definition KERNEL_GATE_PREFIX :: string where "KERNEL_GATE_PREFIX = ''kernel not ready''"
definition H2_CLOSED_PREFIX :: string where "H2_CLOSED_PREFIX = ''http/2 stream closed''"
definition MISSING_STATUS_MESSAGE :: string where "MISSING_STATUS_MESSAGE = ''protocol error: missing status''"
definition DISK_FULL_DETAILS :: "string list" where "DISK_FULL_DETAILS = [''disk_reserve'', ''disk_full'']"
definition RESET_NODE_CODES :: "string list" where "RESET_NODE_CODES = [''ECONNRESET'', ''EPIPE'']"
definition CONNECT_SYSCALL :: string where "CONNECT_SYSCALL = ''connect''"
definition CONNECT_RETRY_DELAYS_MS :: "rat list" where "CONNECT_RETRY_DELAYS_MS = [250, 500, 1000, 2000, 4000]"
definition SANDBOX_TIMEOUT_DETAIL :: string where "SANDBOX_TIMEOUT_DETAIL = ''sandbox_timeout''"
definition LIFECYCLE_UNMANAGED_DETAIL :: string where "LIFECYCLE_UNMANAGED_DETAIL = ''lifecycle_unmanaged''"
definition BEYOND_CAP_PREFIX :: string where "BEYOND_CAP_PREFIX = ''timeout beyond cap''"

text \<open>The loop over the first eight causes.\<close>

fun causeChain :: "nat \<Rightarrow> (JsCause \<Rightarrow> bool) \<Rightarrow> JsCause option \<Rightarrow> bool" where
  "causeChain (Suc n) P (Some c) \<longleftrightarrow> P c \<or> causeChain n P (causeOf c)"
| "causeChain _ P _ \<longleftrightarrow> False"

definition isConnectionNotEstablished :: "Thrown \<Rightarrow> bool" where
  "isConnectionNotEstablished e =
     (case asConnectError e of
        None \<Rightarrow> False
      | Some c \<Rightarrow> connectCode c = Unavailable \<and>
          causeChain 8 (\<lambda>cause. causeSyscall cause = Some CONNECT_SYSCALL) (connectCause c))"

definition isProxyForbidden :: "Thrown \<Rightarrow> bool" where
  "isProxyForbidden e =
     (case asConnectError e of None \<Rightarrow> False
      | Some c \<Rightarrow> connectCode c = PermissionDenied \<and> rawMessage c = PROXY_FORBIDDEN_MESSAGE)"

definition isPhaseGate :: "Thrown \<Rightarrow> bool" where
  "isPhaseGate e =
     (case asConnectError e of None \<Rightarrow> False
      | Some c \<Rightarrow> connectCode c = Unavailable \<and> rawMessage c \<in> set PHASE_GATE_DETAILS)"

definition isKernelGate :: "Thrown \<Rightarrow> bool" where
  "isKernelGate e =
     (case asConnectError e of None \<Rightarrow> False
      | Some c \<Rightarrow> connectCode c = Unavailable \<and> prefix KERNEL_GATE_PREFIX (rawMessage c))"

definition isOwnAbort :: "Thrown \<Rightarrow> bool" where
  "isOwnAbort e =
     (case asConnectError e of None \<Rightarrow> False
      | Some c \<Rightarrow> connectCode c = Canceled \<and> \<not> prefix H2_CLOSED_PREFIX (rawMessage c))"

definition causeChainHasNodeResetCode :: "ConnectError \<Rightarrow> bool" where
  "causeChainHasNodeResetCode c =
     causeChain 8 (\<lambda>cause. case causeCode cause of None \<Rightarrow> False
       | Some nc \<Rightarrow> prefix ''ERR_HTTP2_'' nc \<or> nc \<in> set RESET_NODE_CODES) (connectCause c)"

definition isStreamReset :: "Thrown \<Rightarrow> bool" where
  "isStreamReset e =
     (case asConnectError e of
        None \<Rightarrow> False
      | Some c \<Rightarrow>
          (case connectCode c of
             Unavailable \<Rightarrow> \<not> (isPhaseGate e \<or> isKernelGate e)
           | Aborted \<Rightarrow> True
           | Canceled \<Rightarrow> prefix H2_CLOSED_PREFIX (rawMessage c)
           | Internal \<Rightarrow> prefix H2_CLOSED_PREFIX (rawMessage c) \<or> rawMessage c = MISSING_STATUS_MESSAGE \<or>
               causeChainHasNodeResetCode c
           | _ \<Rightarrow> False))"

definition isNotYetReachable :: "Thrown \<Rightarrow> bool" where
  "isNotYetReachable e =
     (case asConnectError e of None \<Rightarrow> False
      | Some c \<Rightarrow> connectCode c = Unavailable \<or> connectCode c = DeadlineExceeded \<or> isStreamReset e)"

definition isSandboxTimeout :: "Thrown \<Rightarrow> bool" where
  "isSandboxTimeout e =
     (case asConnectError e of None \<Rightarrow> False
      | Some c \<Rightarrow> connectCode c = FailedPrecondition \<and> rawMessage c = SANDBOX_TIMEOUT_DETAIL)"

definition isReconnectable :: "Thrown \<Rightarrow> bool" where
  "isReconnectable e \<longleftrightarrow> isStreamReset e \<or> isPhaseGate e"

section \<open>Retries\<close>

text \<open>\<open>retryUnestablished\<close> over a state of the world that the call, the pauses and the signal share;
  the delays are those that are left.\<close>

fun retryDelays ::
  "rat list \<Rightarrow> ('w \<Rightarrow> (Thrown + 'a) \<times> 'w) \<Rightarrow> (rat \<Rightarrow> 'w \<Rightarrow> 'w) \<Rightarrow> ('w \<Rightarrow> Thrown option) \<Rightarrow> 'w \<Rightarrow> (Thrown + 'a) \<times> 'w" where
  "retryDelays [] call pause aborted w = call w"
| "retryDelays (d # ds) call pause aborted w =
     (case call w of
        (Inr v, w1) \<Rightarrow> (Inr v, w1)
      | (Inl e, w1) \<Rightarrow>
          if \<not> isConnectionNotEstablished e \<or> aborted w1 \<noteq> None then (Inl e, w1)
          else let w2 = pause d w1
               in case aborted w2 of
                    Some reason \<Rightarrow> (Inl reason, w2)
                  | None \<Rightarrow> retryDelays ds call pause aborted w2)"

definition retryUnestablished ::
  "('w \<Rightarrow> (Thrown + 'a) \<times> 'w) \<Rightarrow> (rat \<Rightarrow> 'w \<Rightarrow> 'w) \<Rightarrow> ('w \<Rightarrow> Thrown option) \<Rightarrow> 'w \<Rightarrow> (Thrown + 'a) \<times> 'w" where
  "retryUnestablished = retryDelays CONNECT_RETRY_DELAYS_MS"

section \<open>Translation\<close>

definition GENERIC_RPC_FEATURE :: string where "GENERIC_RPC_FEATURE = ''esta llamada''"

definition sandboxTimeoutError :: "Code option \<Rightarrow> SdkError" where
  "sandboxTimeoutError gc = sdkError TimeoutError TimeoutReached gc"

text \<open>An \<open>UnimplementedError\<close> keeps no code.\<close>

definition unimplementedRpcError :: "ConnectError \<Rightarrow> string \<Rightarrow> SdkError" where
  "unimplementedRpcError c feature = sdkError UnimplementedError (FeatureMissing feature (rawMessage c)) None"

definition ownErrorInCause :: "ConnectError \<Rightarrow> SdkError option" where
  "ownErrorInCause c =
     (case connectCause c of
        None \<Rightarrow> None
      | Some cause \<Rightarrow>
          (case causeSdk cause of
             None \<Rightarrow> None
           | Some e \<Rightarrow>
               if sandboxErrorClass (errorClass e) \<or> errorClass e \<in> {AuthenticationError, QuotaExceededError, CapacityError}
               then Some e else None))"

text \<open>The table of codes, once the gates and the timeout are out of the way.\<close>

definition translateCode :: "ConnectError \<Rightarrow> bool \<Rightarrow> SdkError" where
  "translateCode c filesystem =
     (let message = rawMessage c; gc = Some (connectCode c)
      in case connectCode c of
           InvalidArgument \<Rightarrow> sdkError InvalidArgumentError (Plain message) gc
         | FailedPrecondition \<Rightarrow> sdkError InvalidArgumentError (Plain message) gc
         | Unimplemented \<Rightarrow> unimplementedRpcError c GENERIC_RPC_FEATURE
         | Unauthenticated \<Rightarrow> sdkError AuthenticationError (Plain message) gc
         | PermissionDenied \<Rightarrow>
             (sdkError AuthenticationError (Plain message) gc)\<lparr>proxyRejected := isProxyForbidden (ConnectThrown c)\<rparr>
         | NotFound \<Rightarrow> sdkError (if filesystem then FileNotFoundError else NotFoundError) (Plain message) gc
         | OutOfRange \<Rightarrow> sdkError NotFoundError (Plain message) gc
         | ResourceExhausted \<Rightarrow>
             sdkError (if message \<in> set DISK_FULL_DETAILS then DiskFullError else RateLimitError) (Plain message) gc
         | DeadlineExceeded \<Rightarrow> sdkError TimeoutError (Plain message) gc
         | Canceled \<Rightarrow> sdkError SandboxError (CanceledByClient message) gc
         | _ \<Rightarrow> sdkError SandboxError (Plain message) gc)"

definition translateRpcError :: "Thrown \<Rightarrow> bool \<Rightarrow> SdkError" where
  "translateRpcError e filesystem =
     (case e of
        SdkThrown own \<Rightarrow> own
      | ValueThrown v \<Rightarrow> sdkError SandboxError (Plain v) None
      | ConnectThrown c \<Rightarrow>
          (case ownErrorInCause c of
             Some own \<Rightarrow> own
           | None \<Rightarrow>
               if isPhaseGate e then sdkError SandboxStateError (PhaseIs (rawMessage c)) (Some (connectCode c))
               else if isKernelGate e then sdkError SandboxError (KernelNotReady (rawMessage c)) (Some (connectCode c))
               else if isSandboxTimeout e then sandboxTimeoutError (Some (connectCode c))
               else translateCode c filesystem))"

definition translateStreamError :: "string \<Rightarrow> string \<Rightarrow> bool \<Rightarrow> SdkError" where
  "translateStreamError sc message filesystem =
     (if sc = ''not_found'' then sdkError (if filesystem then FileNotFoundError else NotFoundError) (Plain message) None
      else if sc = ''permission_denied'' then sdkError AuthenticationError (Plain message) None
      else if sc = ''deadline_exceeded'' then sdkError TimeoutError (Plain message) None
      else if sc = SANDBOX_TIMEOUT_DETAIL then sandboxTimeoutError None
      else if sc \<in> {''unimplemented'', ''invalid_argument'', ''failed_precondition''}
        then sdkError InvalidArgumentError (Plain message) None
      else if sc = ''resource_exhausted''
        then sdkError (if message \<in> set DISK_FULL_DETAILS then DiskFullError else RateLimitError) (Plain message) None
      else if sc = ''suspending'' then sdkError SandboxStateError (Plain message) None
      else sdkError SandboxError (CodeAndMessage sc message) None)"

definition beyondCapError :: "int \<Rightarrow> int option \<Rightarrow> Code option \<Rightarrow> SdkError" where
  "beyondCapError timeoutMs cap gc = (sdkError LifetimeBeyondCapError (BeyondCapText timeoutMs) gc)\<lparr>errorCapUnixMs := cap\<rparr>"

definition unmanagedLifecycleError :: "Code option \<Rightarrow> SdkError" where
  "unmanagedLifecycleError gc = sdkError InvalidArgumentError UnmanagedText gc"

definition setTimeoutUnsupportedError :: SdkError where
  "setTimeoutUnsupportedError = sdkError LifecycleUnsupportedError UnsupportedText None"

definition translateSetTimeoutError :: "Thrown \<Rightarrow> int \<Rightarrow> SdkError" where
  "translateSetTimeoutError e timeoutMs =
     (case e of
        ConnectThrown c \<Rightarrow>
          (if ownErrorInCause c \<noteq> None then translateRpcError e False
           else if connectCode c = InvalidArgument \<and> prefix BEYOND_CAP_PREFIX (rawMessage c)
             then beyondCapError timeoutMs (capFromDetail (rawMessage c)) (Some (connectCode c))
           else if connectCode c = FailedPrecondition \<and> rawMessage c = LIFECYCLE_UNMANAGED_DETAIL
             then unmanagedLifecycleError (Some (connectCode c))
           else if connectCode c = Unimplemented then setTimeoutUnsupportedError
           else translateRpcError e False)
      | _ \<Rightarrow> translateRpcError e False)"

definition TERMINAL_STATES :: "string list" where "TERMINAL_STATES = [''TERMINATING'', ''TERMINATED'']"
definition SUSPENDED_STATES :: "string list" where "SUSPENDED_STATES = [''SUSPENDING'', ''SUSPENDED'']"

definition streamFailureError :: "ConnectError \<Rightarrow> bool \<Rightarrow> string option \<Rightarrow> SdkError" where
  "streamFailureError c healthOk state =
     (let detail = rawMessage c; gc = Some (connectCode c)
      in if \<not> isStreamReset (ConnectThrown c) then translateRpcError (ConnectThrown c) False
         else if healthOk then sdkError SandboxError (CutButAlive detail) gc
         else case state of
                None \<Rightarrow> sdkError SandboxError (CutAndSilent detail None) gc
              | Some st \<Rightarrow>
                  if st \<in> set TERMINAL_STATES then sdkError SandboxNotFoundError (CutInState st detail) gc
                  else if st \<in> set SUSPENDED_STATES then sdkError SandboxStateError (CutInState st detail) gc
                  else sdkError SandboxError (CutAndSilent detail (Some st)) gc)"

section \<open>Properties\<close>

lemmas failure_class_defs =
  isPhaseGate_def isKernelGate_def isProxyForbidden_def isOwnAbort_def isStreamReset_def isReconnectable_def
  isSandboxTimeout_def isNotYetReachable_def isConnectionNotEstablished_def asConnectError_def

text \<open>What a run of \<open>retryUnestablished\<close> sends, for any record \<open>sent\<close> of the answers to the call:
  every answer but the last is a connection that was not established.\<close>

lemma retryDelays_sent:
  assumes call: "\<And>w. sent (snd (call w)) = sent w @ [fst (call w)]"
    and pause: "\<And>d w. sent (pause d w) = sent w"
  shows "retryDelays ds call pause aborted w = (r, w') \<Longrightarrow>
    \<exists>es x. sent w' = sent w @ map Inl es @ [x] \<and> length es \<le> length ds \<and> list_all isConnectionNotEstablished es \<and>
      (r = x \<or> (\<exists>e reason. x = Inl e \<and> isConnectionNotEstablished e \<and> aborted w' = Some reason \<and> r = Inl reason))"
proof (induction ds arbitrary: w)
  case Nil
  then show ?case using call [of w] by (intro exI [of _ "[]"] exI [of _ r]) simp
next
  case (Cons d ds)
  obtain x w1 where x: "call w = (x, w1)" by fastforce
  have w1: "sent w1 = sent w @ [x]" using call [of w] x by simp
  show ?case
  proof (cases "\<exists>e. x = Inl e \<and> isConnectionNotEstablished e \<and> aborted w1 = None")
    case False
    then have "r = x" "w' = w1" using Cons.prems x by (auto split: sum.splits)
    then show ?thesis using w1 by (intro exI [of _ "[]"] exI [of _ x]) simp
  next
    case True
    then obtain e where e: "x = Inl e" "isConnectionNotEstablished e" "aborted w1 = None" by blast
    have w2: "sent (pause d w1) = sent w @ [Inl e]" using pause w1 e by simp
    show ?thesis
    proof (cases "aborted (pause d w1)")
      case (Some reason)
      then have "r = Inl reason" "w' = pause d w1" using Cons.prems x e by simp_all
      then show ?thesis using w2 e Some by (intro exI [of _ "[]"] exI [of _ "Inl e"]) simp
    next
      case None
      then have "retryDelays ds call pause aborted (pause d w1) = (r, w')" using Cons.prems x e by simp
      from Cons.IH [OF this] obtain es y where *: "sent w' = sent (pause d w1) @ map Inl es @ [y]"
          "length es \<le> length ds" "list_all isConnectionNotEstablished es"
          "r = y \<or> (\<exists>e reason. y = Inl e \<and> isConnectionNotEstablished e \<and> aborted w' = Some reason \<and> r = Inl reason)"
        by blast
      then show ?thesis using w2 e by (intro exI [of _ "e # es"] exI [of _ y]) simp
    qed
  qed
qed

text \<open>C29: what starts a reconnection never is what must not: an error that triggers it is not a
  deadline the caller chose, not the gate of the kernel, not a refusal of the proxy, not an abort
  of the client and not the timeout of the sandbox; it is always one that a probe of \<open>Health\<close> takes
  for \<open>not yet\<close>; and an error with code \<open>Unavailable\<close> is exactly one of a phase gate, the gate of
  the kernel and a reset.\<close>

theorem reconnectable_classes:
  "(isReconnectable e \<longrightarrow>
      \<not> isKernelGate e \<and> \<not> isProxyForbidden e \<and> \<not> isOwnAbort e \<and> \<not> isSandboxTimeout e \<and> isNotYetReachable e \<and>
      (\<forall>c. asConnectError e = Some c \<longrightarrow> connectCode c \<noteq> DeadlineExceeded)) \<and>
   (\<forall>c. e = ConnectThrown c \<and> connectCode c = Unavailable \<longrightarrow>
      length (filter (\<lambda>b. b) [isPhaseGate e, isKernelGate e, isStreamReset e]) = 1)"
proof -
  have gates: "prefix KERNEL_GATE_PREFIX m \<Longrightarrow> m \<notin> set PHASE_GATE_DETAILS" for m
    by (auto simp: KERNEL_GATE_PREFIX_def PHASE_GATE_DETAILS_def)
  show ?thesis
    using gates by (auto simp: failure_class_defs split: option.splits Thrown.splits Code.splits)
qed

theorem reconnectable_classes_witness:
  "isReconnectable (ConnectThrown \<lparr>connectCode = Unavailable, rawMessage = ''HTTP 503'', connectCause = None\<rparr>) \<and>
   isNotYetReachable (ConnectThrown \<lparr>connectCode = Unavailable, rawMessage = ''HTTP 503'', connectCause = None\<rparr>)"
proof
  show *: "isReconnectable (ConnectThrown \<lparr>connectCode = Unavailable, rawMessage = ''HTTP 503'', connectCause = None\<rparr>)"
    by code_simp
  show "isNotYetReachable (ConnectThrown \<lparr>connectCode = Unavailable, rawMessage = ''HTTP 503'', connectCause = None\<rparr>)"
    using reconnectable_classes [of "ConnectThrown \<lparr>connectCode = Unavailable, rawMessage = ''HTTP 503'', connectCause = None\<rparr>"] * by blast
qed

end
