(* ===== verification/Readiness.thy ===== *)
theory Readiness
  imports Rpc_Errors Sandbox_Info
begin

text \<open>
  \<open>sandbox/readiness.ts\<close> and the \<open>TakePoll\<close> of \<open>pool/core.ts\<close>: the calendars of the probes of
  \<open>Health\<close>, the budget of reconnections, when a reconnection gives up and when an answer counts as
  ready.  Times are rational milliseconds; the clock and the random number are arguments.
\<close>

section \<open>Calendars\<close>

record PollTiming =
  initialDelayMs :: rat
  maxDelayMs :: rat
  stateCheckIntervalMs :: rat
  maxRpcTimeoutMs :: rat
  minRpcTimeoutMs :: rat
  jitter :: rat

definition ReadinessPoll :: PollTiming where
  "ReadinessPoll = \<lparr>initialDelayMs = 250, maxDelayMs = 2000, stateCheckIntervalMs = 5000, maxRpcTimeoutMs = 5000,
     minRpcTimeoutMs = 500, jitter = 0\<rparr>"

definition ReconnectPoll :: PollTiming where
  "ReconnectPoll = \<lparr>initialDelayMs = 500, maxDelayMs = 4000, stateCheckIntervalMs = 5000, maxRpcTimeoutMs = 5000,
     minRpcTimeoutMs = 500, jitter = 1 / 4\<rparr>"

definition TakePoll :: PollTiming where
  "TakePoll = \<lparr>initialDelayMs = 100, maxDelayMs = 500, stateCheckIntervalMs = 5000, maxRpcTimeoutMs = 5000,
     minRpcTimeoutMs = 500, jitter = 0\<rparr>"

record Poll =
  timing :: PollTiming
  pollStarted :: rat
  pollDeadline :: rat
  lastStateCheck :: rat
  pollDelay :: rat

definition newPoll :: "PollTiming \<Rightarrow> rat \<Rightarrow> rat \<Rightarrow> Poll" where
  "newPoll t timeoutMs now = \<lparr>timing = t, pollStarted = now, pollDeadline = now + timeoutMs, lastStateCheck = now,
     pollDelay = initialDelayMs t\<rparr>"

definition elapsedMs :: "Poll \<Rightarrow> rat \<Rightarrow> rat" where
  "elapsedMs p now = max 0 (now - pollStarted p)"

definition pollRemainingMs :: "Poll \<Rightarrow> rat \<Rightarrow> rat" where
  "pollRemainingMs p now = max 0 (pollDeadline p - now)"

definition pollTimedOut :: "Poll \<Rightarrow> rat \<Rightarrow> bool" where
  "pollTimedOut p now \<longleftrightarrow> pollRemainingMs p now \<le> 0"

definition rpcTimeoutMs :: "Poll \<Rightarrow> rat \<Rightarrow> int" where
  "rpcTimeoutMs p now =
     \<lceil>min (maxRpcTimeoutMs (timing p)) (max (minRpcTimeoutMs (timing p)) (pollRemainingMs p now))\<rceil>"

definition shouldCheckState :: "Poll \<Rightarrow> rat \<Rightarrow> bool \<times> Poll" where
  "shouldCheckState p now =
     (if now - lastStateCheck p < stateCheckIntervalMs (timing p) then (False, p) else (True, p\<lparr>lastStateCheck := now\<rparr>))"

definition jittered :: "Poll \<Rightarrow> rat \<Rightarrow> rat \<Rightarrow> rat" where
  "jittered p random delay =
     (if jitter (timing p) = 0 then delay else delay * (1 + jitter (timing p) * (2 * random - 1)))"

definition pollNextDelayMs :: "Poll \<Rightarrow> rat \<Rightarrow> rat \<Rightarrow> rat \<times> Poll" where
  "pollNextDelayMs p now random =
     (let delay = min (jittered p random (pollDelay p)) (pollRemainingMs p now)
      in (max 0 delay, p\<lparr>pollDelay := min (pollDelay p * 2) (maxDelayMs (timing p))\<rparr>))"

section \<open>Reconnections\<close>

record ReconnectOutcome =
  resumed :: bool
  generationChanged :: bool
  outcomeGeneration :: nat
  outcomeError :: "Thrown option"

definition MAX_FUTILE_RECONNECTS :: nat where "MAX_FUTILE_RECONNECTS = 3"

text \<open>\<open>ReconnectBudget.allows\<close>, with the count of futile reconnections as the state.\<close>

definition budgetAllows :: "ReconnectOutcome \<Rightarrow> nat \<Rightarrow> bool \<times> nat" where
  "budgetAllows outcome futile =
     (if generationChanged outcome then (True, 0) else (futile + 1 \<le> MAX_FUTILE_RECONNECTS, futile + 1))"

definition alreadySuspended :: "SandboxInfo \<Rightarrow> bool" where
  "alreadySuspended info \<longleftrightarrow> infoState info \<in> set SUSPENDED_STATES"

definition isSuspendingReason :: "Thrown \<Rightarrow> bool" where
  "isSuspendingReason reason =
     (case reason of
        ConnectThrown c \<Rightarrow> isPhaseGate reason
      | SdkThrown e \<Rightarrow> errorClass e = SandboxStateError
      | ValueThrown v \<Rightarrow> False)"

definition terminalStateError :: "SandboxInfo \<Rightarrow> SdkError" where
  "terminalStateError info = sdkError SandboxNotFoundError (TerminalText (infoState info) (infoStateReason info)) None"

definition reconnectFailure :: "Thrown \<Rightarrow> SandboxInfo option \<Rightarrow> rat option \<Rightarrow> bool \<Rightarrow> SdkError option" where
  "reconnectFailure reason info timeoutMs wake =
     (case info of
        Some i \<Rightarrow>
          if infoState i \<in> set TERMINAL_STATES then Some (terminalStateError i)
          else if wake \<and> infoState i = ''SUSPENDED'' \<and>
              \<not> (case infoIdle i of None \<Rightarrow> False | Some p \<Rightarrow> idleAutoResume p)
            then Some (sdkError SandboxStateError SuspendedNoResume None)
          else None
      | None \<Rightarrow>
          (case timeoutMs of
             None \<Rightarrow> None
           | Some ms \<Rightarrow>
               if isSuspendingReason reason
               then Some (sdkError SandboxStateError
                 (PhaseUntil (case reason of ConnectThrown c \<Rightarrow> rawMessage c | _ \<Rightarrow> ''suspending'') ms) None)
               else Some (sdkError SandboxError (SilentFor ms) None)))"

section \<open>Answers of Health\<close>

record HealthResponse =
  agentReady :: bool
  kernelReady :: bool
  healthAgentVersion :: string
  healthSandboxId :: string
  healthGeneration :: nat
  kernelStateLost :: bool
  healthLifecycle :: "LifecycleState option"
  healthCpuCount :: nat
  memoryTotalBytes :: nat
  healthMetadata :: "(string \<times> string) list"
  healthFeatures :: "(string \<times> bool) list option"

record GuestFacts =
  factAgentVersion :: "string option"
  factCpuCount :: "nat option"
  factMemoryMb :: "nat option"

definition BYTES_PER_MIB :: nat where "BYTES_PER_MIB = 1024 * 1024"

definition UNKNOWN_GUEST_FACTS :: GuestFacts where
  "UNKNOWN_GUEST_FACTS = \<lparr>factAgentVersion = None, factCpuCount = None, factMemoryMb = None\<rparr>"

definition guestFactsFromHealth :: "HealthResponse \<Rightarrow> GuestFacts" where
  "guestFactsFromHealth r =
     (let memoryMb = memoryTotalBytes r div BYTES_PER_MIB
      in \<lparr>factAgentVersion = (if healthAgentVersion r = [] then None else Some (healthAgentVersion r)),
          factCpuCount = (if healthCpuCount r = 0 then None else Some (healthCpuCount r)),
          factMemoryMb = (if memoryMb = 0 then None else Some memoryMb)\<rparr>)"

definition metadataFromHealth :: "HealthResponse \<Rightarrow> (string \<times> string) list" where
  "metadataFromHealth r = healthMetadata r"

definition healthReady :: "HealthResponse option \<Rightarrow> bool" where
  "healthReady response =
     (case response of None \<Rightarrow> False | Some r \<Rightarrow> agentReady r \<and> kernelReady r \<and> healthSandboxId r \<noteq> [])"

definition healthReconnected :: "HealthResponse option \<Rightarrow> nat \<Rightarrow> bool \<Rightarrow> bool" where
  "healthReconnected response seenGeneration suspending =
     (case response of
        None \<Rightarrow> False
      | Some r \<Rightarrow> agentReady r \<and> kernelReady r \<and> (\<not> suspending \<or> healthGeneration r \<noteq> seenGeneration))"

definition notReadyError :: "SandboxInfo option \<Rightarrow> rat \<Rightarrow> bool \<Rightarrow> SdkError" where
  "notReadyError info readyTimeoutMs terminated =
     sdkError SandboxNotReadyError
       (NotReadyIn readyTimeoutMs (map_option (\<lambda>i. (infoState i, infoStateReason i)) info) terminated) None"

definition terminatedDuringBootError :: "SandboxInfo \<Rightarrow> SdkError" where
  "terminatedDuringBootError info =
     sdkError SandboxNotReadyError (BootTerminated (infoState info) (infoStateReason info)) None"

definition closedDuringReconnect :: SdkError where
  "closedDuringReconnect = sdkError SandboxError ClosedWhileReconnecting None"

section \<open>The contract of a calendar\<close>

text \<open>What the loops rely on, whichever of the three calendars they were given.\<close>

definition pollDelayAfter :: "PollTiming \<Rightarrow> nat \<Rightarrow> rat" where
  "pollDelayAfter t n = min (initialDelayMs t * 2 ^ n) (maxDelayMs t)"

locale poll_schedule =
  fixes t :: PollTiming
  assumes initial_pos: "0 < initialDelayMs t" and initial_le_max: "initialDelayMs t \<le> maxDelayMs t"
    and jitter_range: "0 \<le> jitter t" "jitter t < 1"
    and rpc_range: "0 < minRpcTimeoutMs t" "minRpcTimeoutMs t \<le> maxRpcTimeoutMs t"
begin

definition poll_ok :: "Poll \<Rightarrow> bool" where
  "poll_ok p \<longleftrightarrow> timing p = t \<and> initialDelayMs t \<le> pollDelay p \<and> pollDelay p \<le> maxDelayMs t"

lemma poll_ok_new: "poll_ok (newPoll t timeoutMs now)"
  using initial_le_max by (simp add: poll_ok_def newPoll_def)

lemma poll_ok_check: "poll_ok p \<Longrightarrow> poll_ok (snd (shouldCheckState p now))"
  by (simp add: poll_ok_def shouldCheckState_def)

lemma poll_ok_next: "poll_ok p \<Longrightarrow> poll_ok (snd (pollNextDelayMs p now r))"
  using initial_pos initial_le_max by (auto simp: poll_ok_def pollNextDelayMs_def Let_def)

lemma deadline_fixed:
  "pollDeadline (snd (shouldCheckState p now)) = pollDeadline p" "pollDeadline (snd (pollNextDelayMs p now r)) = pollDeadline p"
  by (simp_all add: shouldCheckState_def pollNextDelayMs_def Let_def)

lemma jittered_lower:
  assumes "poll_ok p" "0 \<le> r" "r \<le> 1"
  shows "initialDelayMs t * (1 - jitter t) \<le> jittered p r (pollDelay p)"
proof -
  have "1 - jitter t \<le> 1 + jitter t * (2 * r - 1)"
    using mult_nonneg_nonneg [of "jitter t" r] assms jitter_range by (simp add: algebra_simps)
  then have "initialDelayMs t * (1 - jitter t) \<le> pollDelay p * (1 + jitter t * (2 * r - 1))"
    using assms(1) initial_pos jitter_range unfolding poll_ok_def by (intro mult_mono) linarith+
  then show ?thesis
    using assms(1) by (auto simp: jittered_def poll_ok_def)
qed

lemma next_delay_lower:
  assumes "poll_ok p" "0 \<le> r" "r \<le> 1"
  shows "min (initialDelayMs t * (1 - jitter t)) (pollRemainingMs p now) \<le> fst (pollNextDelayMs p now r)"
  using jittered_lower [OF assms] by (auto simp: pollNextDelayMs_def Let_def)

lemma next_delay_upper: "fst (pollNextDelayMs p now r) \<le> pollRemainingMs p now"
  by (auto simp: pollNextDelayMs_def Let_def pollRemainingMs_def)

lemma rpc_timeout_range:
  "poll_ok p \<Longrightarrow> 0 < rpcTimeoutMs p now \<and> of_int (rpcTimeoutMs p now) < maxRpcTimeoutMs t + 1"
  using rpc_range ceiling_correct [of "min (maxRpcTimeoutMs t) (max (minRpcTimeoutMs t) (pollRemainingMs p now))"]
  by (simp add: poll_ok_def rpcTimeoutMs_def zero_less_ceiling)

lemma delay_after:
  "pollDelay (fold (\<lambda>(now, r) p. snd (pollNextDelayMs p now r)) calls (newPoll t timeoutMs now0)) = pollDelayAfter t (length calls) \<and>
   timing (fold (\<lambda>(now, r) p. snd (pollNextDelayMs p now r)) calls (newPoll t timeoutMs now0)) = t \<and>
   pollDeadline (fold (\<lambda>(now, r) p. snd (pollNextDelayMs p now r)) calls (newPoll t timeoutMs now0)) = now0 + timeoutMs"
proof (induction calls rule: rev_induct)
  case Nil
  show ?case using initial_le_max by (simp add: newPoll_def pollDelayAfter_def)
next
  case (snoc x xs)
  have "min (min (initialDelayMs t * 2 ^ n) (maxDelayMs t) * 2) (maxDelayMs t) = min (initialDelayMs t * 2 ^ Suc n) (maxDelayMs t)" for n
    using initial_pos initial_le_max by (auto simp: min_def field_simps)
  with snoc show ?case
    by (simp add: pollNextDelayMs_def Let_def pollDelayAfter_def case_prod_beta mult.commute)
qed

lemma delay_shape:
  assumes "p = fold (\<lambda>(now, r) p. snd (pollNextDelayMs p now r)) calls (newPoll t timeoutMs now0)" "0 \<le> r" "r \<le> 1"
  shows "fst (pollNextDelayMs p now r) =
      min (pollDelayAfter t (length calls) * (1 + jitter t * (2 * r - 1))) (max 0 (now0 + timeoutMs - now)) \<and>
    (now < now0 + timeoutMs \<longrightarrow> 0 < fst (pollNextDelayMs p now r))"
proof -
  note after = delay_after [of calls timeoutMs now0, folded assms(1)]
  have "0 < 1 - jitter t" using jitter_range by simp
  moreover have "1 - jitter t \<le> 1 + jitter t * (2 * r - 1)"
    using mult_nonneg_nonneg [of "jitter t" r] assms jitter_range by (simp add: algebra_simps)
  moreover have "0 < pollDelayAfter t (length calls)"
    using initial_pos initial_le_max by (simp add: pollDelayAfter_def)
  ultimately have "0 < pollDelayAfter t (length calls) * (1 + jitter t * (2 * r - 1))" by simp
  moreover have "fst (pollNextDelayMs p now r) = max 0 (min (pollDelayAfter t (length calls) * (1 + jitter t * (2 * r - 1)))
      (max 0 (now0 + timeoutMs - now)))"
    using after by (simp add: pollNextDelayMs_def Let_def jittered_def pollRemainingMs_def)
  ultimately show ?thesis by simp
qed

end

interpretation readiness_poll: poll_schedule ReadinessPoll
  by unfold_locales (simp_all add: ReadinessPoll_def)

interpretation reconnect_poll: poll_schedule ReconnectPoll
  by unfold_locales (simp_all add: ReconnectPoll_def)

interpretation take_poll: poll_schedule TakePoll
  by unfold_locales (simp_all add: TakePoll_def)

text \<open>Every calendar doubles up to its limit and never sleeps past its deadline.  Whichever of the
  three calendars, after any number of earlier delays the next one is the initial delay doubled that
  many times, at most the maximum, spread by the jitter, and at most what is left until the deadline;
  and it is positive as long as something is left.\<close>

theorem poll_delay_shape:
  assumes "t \<in> {ReadinessPoll, ReconnectPoll, TakePoll}"
    and "p = fold (\<lambda>(now, r) p. snd (pollNextDelayMs p now r)) calls (newPoll t timeoutMs now0)"
    and "0 \<le> r" and "r \<le> 1"
  shows "fst (pollNextDelayMs p now r) =
      min (min (initialDelayMs t * 2 ^ length calls) (maxDelayMs t) * (1 + jitter t * (2 * r - 1)))
        (max 0 (now0 + timeoutMs - now)) \<and>
    (now < now0 + timeoutMs \<longrightarrow> 0 < fst (pollNextDelayMs p now r))"
proof -
  have "poll_schedule t"
    using assms(1) readiness_poll.poll_schedule_axioms reconnect_poll.poll_schedule_axioms take_poll.poll_schedule_axioms
    by auto
  from poll_schedule.delay_shape [OF this assms(2-4), unfolded pollDelayAfter_def] show ?thesis .
qed

end
