(* ===== verification/Sandbox_Core.thy ===== *)
theory Sandbox_Core
  imports Readiness
begin

text \<open>
  The calls of a sandbox handle (\<open>sandbox/core.ts\<close>): unary calls with their retries, the probe of
  \<open>Health\<close>, the wait for readiness, the reconnection and the deadline of the pause mode.  The state
  is the record of the handle, extended by the rest of the world; what other code does is a record
  of functions on that state (\<open>CoreEnv\<close>): a call that is awaited returns an answer and a new state,
  in which other callers of the handle may have run.  A loop that may not end is a partial function
  whose value is then \<open>None\<close>.  Log lines are left out.
\<close>

section \<open>State and surroundings\<close>

record SandboxCore =
  coreInfo :: SandboxInfo
  requestTimeoutMs :: rat
  readyTimeoutMs :: rat
  reconnectTimeoutMs :: rat
  coreClosed :: bool
  resumeGeneration :: nat
  corePaused :: bool
  coreLifecycle :: "SandboxLifecycle option"
  guestFacts :: GuestFacts
  coreMetadata :: "(string \<times> string) list option"
  agentFeatures :: "(string \<times> bool) list option"
  triggerArmed :: "rat option"
  deadlineFiring :: bool
  deadlinePauseGeneration :: "nat option"
  reopenInFlight :: bool
  reopens :: nat
  reconnectLocked :: bool
  resumedNotices :: nat

type_synonym ('m, 'a) rpc = "'m SandboxCore_scheme \<Rightarrow> (Thrown + 'a) \<times> 'm SandboxCore_scheme"

record 'm CoreEnv =
  envHealth :: "rat \<Rightarrow> ('m, HealthResponse) rpc"
  envSetTimeout :: "int \<Rightarrow> ('m, LifecycleState) rpc"
  envRefreshAll :: "('m, unit) rpc"
  envGetMicrovm :: "('m, SandboxInfo) rpc"
  envSuspendMicrovm :: "('m, bool) rpc"
  envTerminateMicrovm :: "('m, unit) rpc"
  envSleep :: "rat \<Rightarrow> 'm SandboxCore_scheme \<Rightarrow> 'm SandboxCore_scheme"
  envWaitForResume :: "rat \<Rightarrow> 'm SandboxCore_scheme \<Rightarrow> 'm SandboxCore_scheme"
  envAwaitLock :: "'m SandboxCore_scheme \<Rightarrow> 'm SandboxCore_scheme"
  envAwaitReopen :: "'m SandboxCore_scheme \<Rightarrow> bool \<times> 'm SandboxCore_scheme"
  envMonotonic :: "'m \<Rightarrow> rat"
  envDateNow :: "'m \<Rightarrow> rat"
  envRandom :: "'m \<Rightarrow> rat"

type_synonym 'm signal = "'m SandboxCore_scheme \<Rightarrow> Thrown option"

definition noSignal :: "'m signal" where "noSignal = (\<lambda>w. None)"

definition abortReasonOr :: "'m signal \<Rightarrow> Thrown \<Rightarrow> 'm SandboxCore_scheme \<Rightarrow> Thrown" where
  "abortReasonOr signal e w = (case signal w of Some reason \<Rightarrow> reason | None \<Rightarrow> e)"

text \<open>\<open>raceAbort\<close> of an answer: the signal wins when it is aborted by then.\<close>

definition raceAbort :: "'m signal \<Rightarrow> (Thrown + 'a) \<times> 'm SandboxCore_scheme \<Rightarrow> (Thrown + 'a) \<times> 'm SandboxCore_scheme" where
  "raceAbort signal rw = (case signal (snd rw) of Some reason \<Rightarrow> (Inl reason, snd rw) | None \<Rightarrow> rw)"

definition monotonicNow :: "'m CoreEnv \<Rightarrow> 'm SandboxCore_scheme \<Rightarrow> rat" where
  "monotonicNow env w = envMonotonic env (SandboxCore.more w)"

section \<open>Unary calls\<close>

definition callUnaryOnce :: "'m CoreEnv \<Rightarrow> bool \<Rightarrow> 'm signal \<Rightarrow> ('m, 'a) rpc \<Rightarrow> ('m, 'a) rpc" where
  "callUnaryOnce env retryConnect signal call w =
     (let attempt = (if retryConnect then retryUnestablished call (envSleep env) signal else call)
      in case attempt w of
           (Inr v, w1) \<Rightarrow> (Inr v, w1)
         | (Inl e, w1) \<Rightarrow>
             if \<not> isProxyForbidden e then (Inl e, w1)
             else case envRefreshAll env w1 of
                    (Inl e', w2) \<Rightarrow> (Inl e', w2)
                  | (Inr _, w2) \<Rightarrow> attempt w2)"

definition probeHealth :: "'m CoreEnv \<Rightarrow> rat \<Rightarrow> 'm signal \<Rightarrow> ('m, HealthResponse option) rpc" where
  "probeHealth env timeoutMs signal w =
     (case signal w of
        Some reason \<Rightarrow> (Inl reason, w)
      | None \<Rightarrow>
          (case callUnaryOnce env False noSignal (envHealth env timeoutMs) w of
             (Inr response, w1) \<Rightarrow> (Inr (Some response), w1)
           | (Inl e, w1) \<Rightarrow>
               if signal w1 = None \<and> isNotYetReachable e then (Inr None, w1)
               else (Inl (abortReasonOr signal (SdkThrown (translateRpcError e False)) w1), w1)))"

section \<open>What a Health says\<close>

definition recordLifecycle :: "'m CoreEnv \<Rightarrow> SandboxLifecycle option \<Rightarrow> 'm SandboxCore_scheme \<Rightarrow> 'm SandboxCore_scheme" where
  "recordLifecycle env life w =
     (let w' = w\<lparr>coreLifecycle := life\<rparr>
      in if coreClosed w' \<or> deadlineFiring w' then w'
         else w'\<lparr>triggerArmed := pauseTriggerDelayMs life (envDateNow env (SandboxCore.more w'))\<rparr>)"

definition notifyResumed :: "'m SandboxCore_scheme \<Rightarrow> 'm SandboxCore_scheme" where
  "notifyResumed w = w\<lparr>resumedNotices := Suc (resumedNotices w)\<rparr>"

definition recordHealth :: "'m CoreEnv \<Rightarrow> HealthResponse \<Rightarrow> 'm SandboxCore_scheme \<Rightarrow> 'm SandboxCore_scheme" where
  "recordHealth env response w =
     (let w' = (recordLifecycle env (lifecycleFromProto (healthLifecycle response)) w)
            \<lparr>guestFacts := guestFactsFromHealth response, coreMetadata := Some (metadataFromHealth response),
             agentFeatures := healthFeatures response\<rparr>
      in if healthGeneration response = resumeGeneration w' then w'
         else notifyResumed (w'\<lparr>resumeGeneration := healthGeneration response, corePaused := False\<rparr>))"

section \<open>Readiness\<close>

definition failIfTerminal :: "'m CoreEnv \<Rightarrow> ('m, unit) rpc" where
  "failIfTerminal env w =
     (case envGetMicrovm env w of
        (Inl e, w1) \<Rightarrow> (Inl e, w1)
      | (Inr info, w1) \<Rightarrow>
          (if infoState info \<in> set TERMINAL_STATES then Inl (SdkThrown (terminatedDuringBootError info)) else Inr (),
           w1\<lparr>coreInfo := info\<rparr>))"

text \<open>\<open>#notReady\<close>: the error it returns, or the one it throws.\<close>

definition notReady :: "'m CoreEnv \<Rightarrow> bool \<Rightarrow> 'm SandboxCore_scheme \<Rightarrow> Thrown \<times> 'm SandboxCore_scheme" where
  "notReady env terminate w =
     (case (case envGetMicrovm env w of
              (Inr info, w1) \<Rightarrow> (Inr (Some info), w1)
            | (Inl (SdkThrown e), w1) \<Rightarrow>
                (if sandboxErrorClass (errorClass e) then Inr None else Inl (SdkThrown e), w1)
            | (Inl e, w1) \<Rightarrow> (Inl e, w1)) of
        (Inl e, w1) \<Rightarrow> (e, w1)
      | (Inr info, w1) \<Rightarrow>
          if terminate \<and> (case info of None \<Rightarrow> True | Some i \<Rightarrow> infoState i \<notin> set TERMINAL_STATES)
          then (case envTerminateMicrovm env w1 of
                  (Inl e, w2) \<Rightarrow> (e, w2)
                | (Inr _, w2) \<Rightarrow> (SdkThrown (notReadyError info (readyTimeoutMs w2) True), w2))
          else (SdkThrown (notReadyError info (readyTimeoutMs w1) False), w1))"

partial_function (option) readyLoop ::
  "'m CoreEnv \<Rightarrow> bool \<Rightarrow> 'm signal \<Rightarrow> Poll \<Rightarrow> 'm SandboxCore_scheme \<Rightarrow> ((Thrown + HealthResponse) \<times> 'm SandboxCore_scheme) option" where
  "readyLoop env terminate signal p w =
     (case signal w of
        Some reason \<Rightarrow> Some (Inl reason, w)
      | None \<Rightarrow>
          (case raceAbort signal (probeHealth env (of_int (rpcTimeoutMs p (monotonicNow env w))) noSignal w) of
             (Inl e, w1) \<Rightarrow> Some (Inl e, w1)
           | (Inr response, w1) \<Rightarrow>
               if healthReady response then Some (Inr (the response), recordHealth env (the response) w1)
               else case shouldCheckState p (monotonicNow env w1) of (due, p1) \<Rightarrow>
                 (case (if due then failIfTerminal env w1 else (Inr (), w1)) of
                    (Inl e, w2) \<Rightarrow> Some (Inl e, w2)
                  | (Inr _, w2) \<Rightarrow>
                      if pollTimedOut p1 (monotonicNow env w2)
                      then (case notReady env terminate w2 of (e, w3) \<Rightarrow> Some (Inl e, w3))
                      else case pollNextDelayMs p1 (monotonicNow env w2) (envRandom env (SandboxCore.more w2)) of (d, p2) \<Rightarrow>
                        (case raceAbort signal (Inr (), envSleep env d w2) of
                           (Inl e, w3) \<Rightarrow> Some (Inl e, w3)
                         | (Inr _, w3) \<Rightarrow> readyLoop env terminate signal p2 w3))))"

declare readyLoop.simps [code]

definition waitUntilReady ::
  "'m CoreEnv \<Rightarrow> PollTiming \<Rightarrow> bool \<Rightarrow> 'm signal \<Rightarrow> 'm SandboxCore_scheme \<Rightarrow> ((Thrown + HealthResponse) \<times> 'm SandboxCore_scheme) option" where
  "waitUntilReady env t terminate signal w =
     readyLoop env terminate signal (newPoll t (readyTimeoutMs w) (monotonicNow env w)) w"

section \<open>Termination of the wait for readiness\<close>

text \<open>What the wait relies on: the monotonic clock never goes back, a sleep lasts at least as long as
  asked, and a random number is between 0 and 1.\<close>

definition clockForward :: "'m CoreEnv \<Rightarrow> bool" where
  "clockForward env \<longleftrightarrow>
     (\<forall>t w. monotonicNow env w \<le> monotonicNow env (snd (envHealth env t w))) \<and>
     (\<forall>w. monotonicNow env w \<le> monotonicNow env (snd (envRefreshAll env w))) \<and>
     (\<forall>w. monotonicNow env w \<le> monotonicNow env (snd (envGetMicrovm env w))) \<and>
     (\<forall>d w. 0 \<le> d \<longrightarrow> monotonicNow env w + d \<le> monotonicNow env (envSleep env d w)) \<and>
     (\<forall>m. 0 \<le> envRandom env m \<and> envRandom env m \<le> 1)"

lemma monotonicNow_updates [simp]:
  "monotonicNow env (w\<lparr>coreInfo := x1\<rparr>) = monotonicNow env w"
  "monotonicNow env (w\<lparr>reconnectLocked := x2\<rparr>) = monotonicNow env w"
  by (simp_all add: monotonicNow_def)

lemma callOnce_clock:
  assumes "\<And>w. monotonicNow env w \<le> monotonicNow env (snd (call w))" "clockForward env"
  shows "monotonicNow env w \<le> monotonicNow env (snd (callUnaryOnce env False signal call w))"
proof -
  obtain r w1 where c: "call w = (r, w1)" by fastforce
  obtain r2 w2 where f: "envRefreshAll env w1 = (r2, w2)" by fastforce
  have "monotonicNow env w \<le> monotonicNow env w1" "monotonicNow env w1 \<le> monotonicNow env w2"
    "monotonicNow env w2 \<le> monotonicNow env (snd (call w2))"
    using assms(1) [of w] assms(1) [of w2] assms(2) c f by (auto simp: clockForward_def) (metis snd_conv)
  then show ?thesis by (auto simp: callUnaryOnce_def c f split: sum.split)
qed

lemma probeHealth_clock:
  assumes "clockForward env"
  shows "monotonicNow env w \<le> monotonicNow env (snd (probeHealth env t signal w))"
  using callOnce_clock [OF _ assms, of "envHealth env t" w noSignal] assms
  by (auto simp: probeHealth_def clockForward_def split: option.split prod.split sum.split)

lemma failIfTerminal_clock:
  assumes "clockForward env"
  shows "monotonicNow env w \<le> monotonicNow env (snd (failIfTerminal env w))"
  using assms by (auto simp: failIfTerminal_def clockForward_def split: prod.split sum.split) (metis snd_conv)+

lemma readyLoop_step:
  assumes t: "poll_schedule t" and ok: "poll_schedule.poll_ok t p" and clock: "clockForward env"
  shows "(\<exists>r. readyLoop env terminate signal p w = Some r) \<or>
    (\<exists>p' w'. readyLoop env terminate signal p w = readyLoop env terminate signal p' w' \<and> poll_schedule.poll_ok t p' \<and>
       pollDeadline p' = pollDeadline p \<and> monotonicNow env w < pollDeadline p \<and>
       min (monotonicNow env w + initialDelayMs t * (1 - jitter t)) (pollDeadline p) \<le> monotonicNow env w')"
proof (cases "\<exists>r. readyLoop env terminate signal p w = Some r")
  case False
  define rw where "rw = probeHealth env (of_int (rpcTimeoutMs p (monotonicNow env w))) noSignal w"
  obtain res w1 where rw: "rw = (res, w1)" by fastforce
  obtain due p1 where check: "shouldCheckState p (monotonicNow env w1) = (due, p1)" by fastforce
  obtain r2 w2 where terminal: "(if due then failIfTerminal env w1 else (Inr (), w1)) = (r2, w2)" by fastforce
  obtain d p2 where delay: "pollNextDelayMs p1 (monotonicNow env w2) (envRandom env (SandboxCore.more w2)) = (d, p2)" by fastforce
  note body = readyLoop.simps [of env terminate signal p w, folded rw_def, unfolded rw]
  have again: "readyLoop env terminate signal p w = readyLoop env terminate signal p2 (envSleep env d w2)"
    and open': "\<not> pollTimedOut p1 (monotonicNow env w2)"
    using False unfolding body
    by (auto simp: check terminal delay raceAbort_def split: option.splits sum.splits if_splits prod.splits)
  have "monotonicNow env w \<le> monotonicNow env w1"
    using probeHealth_clock [OF clock, of w] rw unfolding rw_def by (metis snd_conv)
  moreover have "monotonicNow env w1 \<le> monotonicNow env w2"
    using failIfTerminal_clock [OF clock, of w1] terminal by (cases due) auto
  ultimately have forward: "monotonicNow env w \<le> monotonicNow env w2" by simp
  have p1: "poll_schedule.poll_ok t p1" "pollDeadline p1 = pollDeadline p"
    using poll_schedule.poll_ok_check [OF t ok] poll_schedule.deadline_fixed(1) [OF t] check by (metis snd_conv)+
  have p2: "poll_schedule.poll_ok t p2" "pollDeadline p2 = pollDeadline p"
    using poll_schedule.poll_ok_next [OF t p1(1)] poll_schedule.deadline_fixed(2) [OF t] p1(2) delay by (metis snd_conv)+
  have d: "min (initialDelayMs t * (1 - jitter t)) (pollRemainingMs p1 (monotonicNow env w2)) \<le> d"
    using poll_schedule.next_delay_lower [OF t p1(1)] delay clock unfolding clockForward_def by (metis fst_conv)
  have left: "pollRemainingMs p1 (monotonicNow env w2) = pollDeadline p - monotonicNow env w2" "monotonicNow env w2 < pollDeadline p"
    using open' p1(2) by (auto simp: pollTimedOut_def pollRemainingMs_def)
  have "0 \<le> d" using delay by (auto simp: pollNextDelayMs_def Let_def)
  then have "monotonicNow env w2 + d \<le> monotonicNow env (envSleep env d w2)"
    using clock by (simp add: clockForward_def)
  with d left forward have "min (monotonicNow env w + initialDelayMs t * (1 - jitter t)) (pollDeadline p) \<le> monotonicNow env (envSleep env d w2)"
    by (auto simp: min_def split: if_splits)
  with again p2 left forward show ?thesis by (intro disjI2 exI [of _ p2] exI [of _ "envSleep env d w2"]) auto
qed simp

lemma readyLoop_returns:
  assumes t: "poll_schedule t" and clock: "clockForward env"
  shows "poll_schedule.poll_ok t p \<Longrightarrow> pollDeadline p \<le> monotonicNow env w + of_nat n * (initialDelayMs t * (1 - jitter t)) \<Longrightarrow>
    \<exists>r. readyLoop env terminate signal p w = Some r"
proof (induction n arbitrary: p w)
  case 0
  then show ?case using readyLoop_step [OF t 0(1) clock, of terminate signal w] by auto
next
  case (Suc n)
  let ?q = "initialDelayMs t * (1 - jitter t)"
  have q: "0 \<le> of_nat n * ?q"
    using poll_schedule.initial_pos [OF t] poll_schedule.jitter_range [OF t] by simp
  from readyLoop_step [OF t Suc.prems(1) clock, of terminate signal w] show ?case
  proof (elim disjE exE conjE)
    fix p' w'
    assume step: "readyLoop env terminate signal p w = readyLoop env terminate signal p' w'" "poll_schedule.poll_ok t p'"
      "pollDeadline p' = pollDeadline p" "min (monotonicNow env w + ?q) (pollDeadline p) \<le> monotonicNow env w'"
    have "pollDeadline p' \<le> monotonicNow env w' + of_nat n * ?q"
      using step(3,4) Suc.prems(2) q by (auto simp: min_def algebra_simps split: if_splits)
    from Suc.IH [OF step(2) this] step(1) show ?thesis by simp
  qed simp
qed

lemmas readyLoop_induct = readyLoop.raw_induct [rotated, consumes 1, case_names step]

lemma readyLoop_ready:
  "readyLoop env terminate signal p w = Some rw \<Longrightarrow>
     (case fst rw of Inl e \<Rightarrow> True | Inr response \<Rightarrow> healthReady (Some response) \<and> (\<exists>w0. snd rw = recordHealth env response w0))"
proof (induction env terminate signal p w rw rule: readyLoop_induct)
  case (step rec env terminate signal p w rw)
  from step(2) show ?case
    by (auto split: option.splits sum.splits prod.splits if_splits simp: healthReady_def dest!: step(1))
qed

lemma recordHealth_generation [simp]: "resumeGeneration (recordHealth env response w) = healthGeneration response"
  by (simp add: recordHealth_def recordLifecycle_def notifyResumed_def Let_def)

text \<open>C10: the wait for readiness always ends, and only a ready agent ends it well.  With a clock that
  does not go back and sleeps that last, \<open>waitUntilReady\<close> returns with each of the three calendars,
  whatever the probes, the control plane and other callers do, with a signal or without; and when it
  returns an answer, the agent and the kernel of that answer are ready, it names its sandbox, and its
  generation is the one the handle keeps.\<close>

theorem waitUntilReady_returns:
  assumes "t \<in> {ReadinessPoll, ReconnectPoll, TakePoll}" and "clockForward env"
  shows "\<exists>r w'. waitUntilReady env t terminate signal w = Some (r, w') \<and>
    (case r of Inl e \<Rightarrow> True | Inr response \<Rightarrow> healthReady (Some response) \<and> resumeGeneration w' = healthGeneration response)"
proof -
  have t: "poll_schedule t"
    using assms(1) readiness_poll.poll_schedule_axioms reconnect_poll.poll_schedule_axioms take_poll.poll_schedule_axioms
    by auto
  let ?q = "initialDelayMs t * (1 - jitter t)"
  have "0 < ?q" using poll_schedule.initial_pos [OF t] poll_schedule.jitter_range [OF t] by simp
  then obtain n where "readyTimeoutMs w < of_nat n * ?q" using ex_less_of_nat_mult by blast
  then have "pollDeadline (newPoll t (readyTimeoutMs w) (monotonicNow env w)) \<le> monotonicNow env w + of_nat n * ?q"
    by (simp add: newPoll_def)
  from readyLoop_returns [OF t assms(2) poll_schedule.poll_ok_new [OF t] this, of terminate signal]
  obtain r w' where "waitUntilReady env t terminate signal w = Some (r, w')"
    unfolding waitUntilReady_def by fastforce
  with readyLoop_ready [of env terminate signal _ w "(r, w')"] show ?thesis
    unfolding waitUntilReady_def by (fastforce split: sum.split)
qed

section \<open>A world to run in\<close>

text \<open>A sandbox whose agent answers once the clock has reached 200 ms, with a generation that grows
  by one; a probe takes 10 ms.  The extension of the handle is the clock.\<close>

definition demoInfo :: SandboxInfo where
  "demoInfo = sandboxInfo \<lparr>infoSandboxId = ''mvm-1'', infoState = ''RUNNING'', infoEndpoint = ''e'', infoTemplate = ''t'',
     infoTemplateVersion = ''1'', infoStartedAt = 0, infoMaximumDurationSeconds = 3600, infoTerminatedAt = None,
     infoStateReason = None, infoIdle = None, infoExecutionRoleArn = None, infoIngress = None, infoEgress = None,
     infoLifecycle = None, infoAgentVersion = None, infoCpuCount = None, infoMemoryMb = None, infoMetadata = None,
     infoSize = None, infoBaselineMemoryMib = None, infoBaselineCpu = None\<rparr>"

definition demoHealth :: "nat \<Rightarrow> HealthResponse" where
  "demoHealth g = \<lparr>agentReady = True, kernelReady = True, healthAgentVersion = ''0.6.0'', healthSandboxId = ''mvm-1'',
     healthGeneration = g, kernelStateLost = False, healthLifecycle = None, healthCpuCount = 2,
     memoryTotalBytes = 0, healthMetadata = [], healthFeatures = None\<rparr>"

definition demoCore :: "rat SandboxCore_scheme" where
  "demoCore = SandboxCore.extend
     \<lparr>coreInfo = demoInfo, requestTimeoutMs = 60000, readyTimeoutMs = 30000, reconnectTimeoutMs = 60000, coreClosed = False,
      resumeGeneration = 0, corePaused = False, coreLifecycle = None, guestFacts = UNKNOWN_GUEST_FACTS, coreMetadata = None,
      agentFeatures = None, triggerArmed = None, deadlineFiring = False, deadlinePauseGeneration = None,
      reopenInFlight = False, reopens = 0, reconnectLocked = False, resumedNotices = 0\<rparr> 0"

definition demoTick :: "rat \<Rightarrow> rat SandboxCore_scheme \<Rightarrow> rat SandboxCore_scheme" where
  "demoTick d w = SandboxCore.more_update (\<lambda>now. now + d) w"

definition demoEnv :: "rat CoreEnv" where
  "demoEnv =
     \<lparr>envHealth = (\<lambda>timeoutMs w. let w' = demoTick 10 w
        in (if SandboxCore.more w' < 200
            then Inl (ConnectThrown \<lparr>connectCode = Unavailable, rawMessage = ''HTTP 503'', connectCause = None\<rparr>)
            else Inr (demoHealth 1), w')),
      envSetTimeout = (\<lambda>ms w. (Inl (ValueThrown ''none''), w)),
      envRefreshAll = (\<lambda>w. (Inr (), w)),
      envGetMicrovm = (\<lambda>w. (Inr demoInfo, demoTick 10 w)),
      envSuspendMicrovm = (\<lambda>w. (Inr True, w)),
      envTerminateMicrovm = (\<lambda>w. (Inr (), w)),
      envSleep = demoTick,
      envWaitForResume = demoTick,
      envAwaitLock = (\<lambda>w. w\<lparr>reconnectLocked := False\<rparr>),
      envAwaitReopen = (\<lambda>w. (False, w\<lparr>reopenInFlight := False\<rparr>)),
      envMonotonic = (\<lambda>now. now), envDateNow = (\<lambda>now. now), envRandom = (\<lambda>now. 1 / 2)\<rparr>"

lemma demoEnv_clock: "clockForward demoEnv"
  by (simp add: clockForward_def demoEnv_def monotonicNow_def demoTick_def Let_def)

lemma demoEnv_probe:
  "probeHealth demoEnv t noSignal w =
     (Inr (if SandboxCore.more w < 190 then None else Some (demoHealth 1)), demoTick 10 w)"
  by (simp add: probeHealth_def callUnaryOnce_def demoEnv_def demoTick_def Let_def noSignal_def isProxyForbidden_def
      asConnectError_def isNotYetReachable_def)

lemmas demo_poll_simps =
  demoCore_def monotonicNow_def newPoll_def ReadinessPoll_def shouldCheckState_def pollTimedOut_def pollRemainingMs_def
  pollNextDelayMs_def jittered_def raceAbort_def demoTick_def SandboxCore.defs Let_def

lemma demoEnv_ready:
  "\<exists>w'. waitUntilReady demoEnv ReadinessPoll True noSignal demoCore = Some (Inr (demoHealth 1), w')"
proof -
  have "noSignal w = None" "envMonotonic demoEnv m = m" "envSleep demoEnv = demoTick" for w :: "rat SandboxCore_scheme" and m
    by (simp_all add: noSignal_def demoEnv_def)
  note env = this
  show ?thesis
    unfolding waitUntilReady_def
    by (subst readyLoop.simps, subst readyLoop.simps)
      (simp add: demoEnv_probe env demo_poll_simps healthReady_def demoHealth_def)
qed

theorem waitUntilReady_returns_witness:
  "\<exists>w'. waitUntilReady demoEnv ReadinessPoll True noSignal demoCore = Some (Inr (demoHealth 1), w') \<and>
     healthReady (Some (demoHealth 1)) \<and> resumeGeneration w' = 1"
  using waitUntilReady_returns [of ReadinessPoll demoEnv True noSignal demoCore] demoEnv_clock demoEnv_ready
  by (auto simp: demoHealth_def)

end
