(* ===== verification/Sandbox_Reconnect.thy ===== *)
theory Sandbox_Reconnect
  imports Sandbox_Core
begin

text \<open>
  The rest of the calls of \<open>sandbox/core.ts\<close>: the reconnection after a cut, unary calls and streams
  that wait for it, the reopening after a pause at the deadline, and the trigger of that pause.
\<close>

type_synonym ('m, 'a) prog = "'m SandboxCore_scheme \<Rightarrow> ((Thrown + 'a) \<times> 'm SandboxCore_scheme) option"

section \<open>Reconnection\<close>

definition failedReconnect :: "Thrown \<Rightarrow> 'm SandboxCore_scheme \<Rightarrow> ReconnectOutcome" where
  "failedReconnect e w = \<lparr>resumed = False, generationChanged = False, outcomeGeneration = resumeGeneration w, outcomeError = Some e\<rparr>"

definition alreadyBack :: "nat \<Rightarrow> 'm SandboxCore_scheme \<Rightarrow> ReconnectOutcome option" where
  "alreadyBack seen w =
     (if resumeGeneration w > seen
      then Some \<lparr>resumed = True, generationChanged = True, outcomeGeneration = resumeGeneration w, outcomeError = None\<rparr>
      else if coreClosed w then Some (failedReconnect (SdkThrown closedDuringReconnect) w)
      else None)"

definition probeFailure :: "Thrown \<Rightarrow> 'm SandboxCore_scheme \<Rightarrow> Thrown" where
  "probeFailure e w =
     (if coreClosed w then SdkThrown closedDuringReconnect
      else case e of ValueThrown v \<Rightarrow> SdkThrown (sdkError SandboxError (Plain v) None) | _ \<Rightarrow> e)"

text \<open>\<open>#checkState\<close>: the reason to give up, if there is one.\<close>

definition checkState :: "'m CoreEnv \<Rightarrow> Thrown \<Rightarrow> bool \<Rightarrow> ('m, SdkError option) rpc" where
  "checkState env reason wake w =
     (case envGetMicrovm env w of
        (Inr info, w1) \<Rightarrow> (Inr (reconnectFailure reason (Some info) None wake), w1\<lparr>coreInfo := info\<rparr>)
      | (Inl (SdkThrown e), w1) \<Rightarrow>
          (if errorClass e = SandboxNotFoundError then Inr (Some e)
           else if sandboxErrorClass (errorClass e) then Inr None
           else Inl (SdkThrown e), w1)
      | (Inl e, w1) \<Rightarrow> (Inl e, w1))"

definition reconnectTimedOut :: "Thrown \<Rightarrow> 'm SandboxCore_scheme \<Rightarrow> Thrown" where
  "reconnectTimedOut reason w =
     (case reconnectFailure reason None (Some (reconnectTimeoutMs w)) True of None \<Rightarrow> reason | Some e \<Rightarrow> SdkThrown e)"

definition reconnected :: "'m CoreEnv \<Rightarrow> HealthResponse \<Rightarrow> nat \<Rightarrow> 'm SandboxCore_scheme \<Rightarrow> ReconnectOutcome \<times> 'm SandboxCore_scheme" where
  "reconnected env response seen w =
     (\<lparr>resumed = True, generationChanged = (healthGeneration response \<noteq> seen),
       outcomeGeneration = healthGeneration response, outcomeError = None\<rparr>,
      recordHealth env response w)"

text \<open>\<open>#pollUntilBack\<close>; no outcome means that the handle goes back to sleep.\<close>

partial_function (option) pollUntilBack ::
  "'m CoreEnv \<Rightarrow> Thrown \<Rightarrow> nat \<Rightarrow> bool \<Rightarrow> Poll \<Rightarrow> ('m, ReconnectOutcome option) prog" where
  "pollUntilBack env reason seen wake p w =
     (case alreadyBack seen w of
        Some out \<Rightarrow> Some (Inr (Some out), w)
      | None \<Rightarrow>
          if pollTimedOut p (monotonicNow env w)
          then Some (Inr (Some (failedReconnect (reconnectTimedOut reason w) w)), w)
          else case (if wake then shouldCheckState p (monotonicNow env w) else (False, p)) of (due, p1) \<Rightarrow>
            (case (if due then checkState env reason True w else (Inr None, w)) of
               (Inl e, w1) \<Rightarrow> Some (Inl e, w1)
             | (Inr (Some f), w1) \<Rightarrow> Some (Inr (Some (failedReconnect (SdkThrown f) w1)), w1)
             | (Inr None, w1) \<Rightarrow>
                 (case probeHealth env (of_int (rpcTimeoutMs p1 (monotonicNow env w1))) noSignal w1 of
                    (Inl e, w2) \<Rightarrow> Some (Inr (Some (failedReconnect (probeFailure e w2) w2)), w2)
                  | (Inr response, w2) \<Rightarrow>
                      if healthReconnected response seen (isSuspendingReason reason)
                      then (case reconnected env (the response) seen w2 of (out, w3) \<Rightarrow> Some (Inr (Some out), w3))
                      else (case (if wake then (Inr None, w2) else checkState env reason False w2) of
                              (Inl e, w3) \<Rightarrow> Some (Inl e, w3)
                            | (Inr (Some f), w3) \<Rightarrow> Some (Inr (Some (failedReconnect (SdkThrown f) w3)), w3)
                            | (Inr None, w3) \<Rightarrow>
                                if \<not> wake \<and> infoState (coreInfo w3) \<in> set SUSPENDED_STATES then Some (Inr None, w3)
                                else case pollNextDelayMs p1 (monotonicNow env w3) (envRandom env (SandboxCore.more w3)) of (d, p2) \<Rightarrow>
                                  pollUntilBack env reason seen wake p2 (envWaitForResume env d w3)))))"

text \<open>\<open>#withReconnectLock\<close>: the wait for the lock, then the poll under it.\<close>

partial_function (option) awaitUnlocked :: "'m CoreEnv \<Rightarrow> 'm SandboxCore_scheme \<Rightarrow> 'm SandboxCore_scheme option" where
  "awaitUnlocked env w = (if reconnectLocked w then awaitUnlocked env (envAwaitLock env w) else Some w)"

definition pollHoldingTheLock :: "'m CoreEnv \<Rightarrow> Thrown \<Rightarrow> nat \<Rightarrow> bool \<Rightarrow> ('m, ReconnectOutcome option) prog" where
  "pollHoldingTheLock env reason seen wake w =
     Option.bind (awaitUnlocked env w) (\<lambda>w1.
       Option.bind
         (case alreadyBack seen (w1\<lparr>reconnectLocked := True\<rparr>) of
            Some out \<Rightarrow> Some (Inr (Some out), w1\<lparr>reconnectLocked := True\<rparr>)
          | None \<Rightarrow> pollUntilBack env reason seen wake
              (newPoll ReconnectPoll (reconnectTimeoutMs w1) (monotonicNow env w1)) (w1\<lparr>reconnectLocked := True\<rparr>))
         (\<lambda>(r, w2). Some (r, w2\<lparr>reconnectLocked := False\<rparr>)))"

partial_function (option) sleepLoop :: "'m CoreEnv \<Rightarrow> Thrown \<Rightarrow> nat \<Rightarrow> ('m, ReconnectOutcome option) prog" where
  "sleepLoop env reason seen w =
     (case alreadyBack seen w of
        Some out \<Rightarrow> Some (Inr (Some out), w)
      | None \<Rightarrow>
          (case checkState env reason False w of
             (Inl e, w1) \<Rightarrow> Some (Inl e, w1)
           | (Inr (Some f), w1) \<Rightarrow> Some (Inr (Some (failedReconnect (SdkThrown f) w1)), w1)
           | (Inr None, w1) \<Rightarrow>
               if infoState (coreInfo w1) \<notin> set SUSPENDED_STATES then Some (Inr None, w1)
               else sleepLoop env reason seen (envWaitForResume env (stateCheckIntervalMs ReconnectPoll) w1)))"

definition sleepWhileSuspended :: "'m CoreEnv \<Rightarrow> Thrown \<Rightarrow> nat \<Rightarrow> ('m, ReconnectOutcome option) prog" where
  "sleepWhileSuspended env reason seen w =
     sleepLoop env reason seen (envWaitForResume env (initialDelayMs ReconnectPoll) w)"

partial_function (option) reconnect :: "'m CoreEnv \<Rightarrow> Thrown \<Rightarrow> nat \<Rightarrow> bool \<Rightarrow> ('m, ReconnectOutcome) prog" where
  "reconnect env reason seen wake w =
     Option.bind
       (case alreadyBack seen w of
          Some out \<Rightarrow> Some (Inr (Some out), w)
        | None \<Rightarrow> if wake then Some (Inr None, w) else sleepWhileSuspended env reason seen w)
       (\<lambda>(r, w1).
          case r of
            Inl e \<Rightarrow> Some (Inl e, w1)
          | Inr (Some out) \<Rightarrow> Some (Inr out, w1)
          | Inr None \<Rightarrow>
              Option.bind (pollHoldingTheLock env reason seen wake w1) (\<lambda>(r, w2).
                case r of
                  Inl e \<Rightarrow> Some (Inl e, w2)
                | Inr (Some out) \<Rightarrow> Some (Inr out, w2)
                | Inr None \<Rightarrow> reconnect env reason seen wake w2))"

declare pollUntilBack.simps [code] awaitUnlocked.simps [code] sleepLoop.simps [code] reconnect.simps [code]

definition reconnectError :: "ReconnectOutcome \<Rightarrow> Thrown \<Rightarrow> Thrown" where
  "reconnectError out reason = (case outcomeError out of None \<Rightarrow> reason | Some e \<Rightarrow> e)"

section \<open>Unary calls that reconnect\<close>

text \<open>\<open>#callUnary\<close>, over what is done about a timeout of the sandbox.\<close>

definition callUnaryWith ::
  "'m CoreEnv \<Rightarrow> (Thrown \<Rightarrow> nat \<Rightarrow> 'm SandboxCore_scheme \<Rightarrow> (bool \<times> 'm SandboxCore_scheme) option) \<Rightarrow> ('m, 'a) rpc \<Rightarrow> ('m, 'a) prog" where
  "callUnaryWith env reopen call w =
     (case callUnaryOnce env True noSignal call w of
        (Inr v, w1) \<Rightarrow> Some (Inr v, w1)
      | (Inl e, w1) \<Rightarrow>
          Option.bind (reopen e (reopens w) w1) (\<lambda>(reopened, w2).
            if reopened then Some (callUnaryOnce env True noSignal call w2)
            else if coreClosed w2 \<or> \<not> isReconnectable e then Some (Inl e, w2)
            else Option.bind (reconnect env e (resumeGeneration w) True w2) (\<lambda>(r, w3).
              case r of
                Inl e' \<Rightarrow> Some (Inl e', w3)
              | Inr out \<Rightarrow>
                  if \<not> resumed out then Some (Inl (reconnectError out e), w3)
                  else Some (retryUnestablished call (envSleep env) noSignal w3))))"

definition callUnaryPlain :: "'m CoreEnv \<Rightarrow> ('m, 'a) rpc \<Rightarrow> ('m, 'a) prog" where
  "callUnaryPlain env call w = callUnaryWith env (\<lambda>e seen w'. Some (False, w')) call w"

definition consumeDeadlinePause :: "nat \<Rightarrow> 'm SandboxCore_scheme \<Rightarrow> 'm SandboxCore_scheme" where
  "consumeDeadlinePause g w = (if deadlinePauseGeneration w = Some g then w\<lparr>deadlinePauseGeneration := None\<rparr> else w)"

definition reopenAfterDeadlinePause :: "'m CoreEnv \<Rightarrow> nat \<Rightarrow> 'm SandboxCore_scheme \<Rightarrow> (bool \<times> 'm SandboxCore_scheme) option" where
  "reopenAfterDeadlinePause env g w =
     (case probeHealth env (min (maxRpcTimeoutMs ReadinessPoll) (requestTimeoutMs w)) noSignal w of
        (Inl e, w1) \<Rightarrow> Some (False, w1)
      | (Inr response, w1) \<Rightarrow>
          let w2 = (case response of None \<Rightarrow> w1 | Some r \<Rightarrow> recordHealth env r w1)
          in if resumeGeneration w2 \<le> g then Some (False, w2)
             else case autoResumeReopenMs (coreLifecycle w2)
                    \<lparr>pausedGeneration = Some g, generation = resumeGeneration w2,
                     resumeNowUnixMs = envDateNow env (SandboxCore.more w2)\<rparr> of
                    None \<Rightarrow> Some (False, consumeDeadlinePause g w2)
                  | Some ms \<Rightarrow>
                      Option.bind (callUnaryPlain env (envSetTimeout env ms) w2) (\<lambda>(r, w3).
                        case r of
                          Inl e \<Rightarrow> Some (False, w3)
                        | Inr st \<Rightarrow>
                            let w4 = consumeDeadlinePause g (recordLifecycle env (lifecycleFromProto (Some st)) w3)
                            in Some (True, w4\<lparr>reopens := Suc (reopens w4)\<rparr>)))"

definition reopenedAfterDeadlinePause ::
  "'m CoreEnv \<Rightarrow> Thrown \<Rightarrow> nat \<Rightarrow> 'm SandboxCore_scheme \<Rightarrow> (bool \<times> 'm SandboxCore_scheme) option" where
  "reopenedAfterDeadlinePause env e seenReopens w =
     (if coreClosed w \<or> \<not> isSandboxTimeout e then Some (False, w)
      else if reopens w > seenReopens then Some (True, w)
      else if reopenInFlight w then Some (envAwaitReopen env w)
      else case deadlinePauseGeneration w of
             None \<Rightarrow> Some (False, w)
           | Some g \<Rightarrow>
               Option.bind (reopenAfterDeadlinePause env g (w\<lparr>reopenInFlight := True\<rparr>))
                 (\<lambda>(ok, w'). Some (ok, w'\<lparr>reopenInFlight := False\<rparr>)))"

definition callUnary :: "'m CoreEnv \<Rightarrow> ('m, 'a) rpc \<Rightarrow> ('m, 'a) prog" where
  "callUnary env call w = callUnaryWith env (reopenedAfterDeadlinePause env) call w"

definition signalledUnary :: "'m CoreEnv \<Rightarrow> 'm signal \<Rightarrow> (Thrown \<Rightarrow> Thrown) \<Rightarrow> ('m, 'a) rpc \<Rightarrow> ('m, 'a) prog" where
  "signalledUnary env signal translate call w =
     (case signal w of
        Some reason \<Rightarrow> Some (Inl reason, w)
      | None \<Rightarrow>
          Option.bind (callUnary env call w) (\<lambda>(r, w1).
            case r of Inr v \<Rightarrow> Some (Inr v, w1)
            | Inl e \<Rightarrow> Some (Inl (abortReasonOr signal (translate e) w1), w1)))"

definition translatedUnary :: "'m CoreEnv \<Rightarrow> bool \<Rightarrow> 'm signal \<Rightarrow> ('m, 'a) rpc \<Rightarrow> ('m, 'a) prog" where
  "translatedUnary env filesystem signal call w =
     signalledUnary env signal (\<lambda>e. SdkThrown (translateRpcError e filesystem)) call w"

section \<open>Streams\<close>

text \<open>The opening of a stream consumes its first message; \<open>first\<close> is \<open>#firstMessage\<close>.\<close>

definition firstMessageReminting :: "'m CoreEnv \<Rightarrow> 'm signal \<Rightarrow> ('m, 'a) rpc \<Rightarrow> ('m, 'a) rpc" where
  "firstMessageReminting env signal first w =
     (case retryUnestablished first (envSleep env) signal w of
        (Inr v, w1) \<Rightarrow> (Inr v, w1)
      | (Inl e, w1) \<Rightarrow>
          if \<not> isProxyForbidden e then (Inl e, w1)
          else case envRefreshAll env w1 of
                 (Inl e', w2) \<Rightarrow> (Inl e', w2)
               | (Inr _, w2) \<Rightarrow> retryUnestablished first (envSleep env) signal w2)"

definition STREAM_PROBE_TIMEOUT_MS :: rat where "STREAM_PROBE_TIMEOUT_MS = 5000"

definition healthAnswers :: "'m CoreEnv \<Rightarrow> 'm SandboxCore_scheme \<Rightarrow> bool \<times> 'm SandboxCore_scheme" where
  "healthAnswers env w =
     (case probeHealth env STREAM_PROBE_TIMEOUT_MS noSignal w of
        (Inl e, w1) \<Rightarrow> (False, w1)
      | (Inr response, w1) \<Rightarrow> (response \<noteq> None, w1))"

definition stateAfterReset :: "'m CoreEnv \<Rightarrow> ('m, string option) rpc" where
  "stateAfterReset env w =
     (case envGetMicrovm env w of
        (Inr info, w1) \<Rightarrow> (Inr (Some (infoState info)), w1\<lparr>coreInfo := info\<rparr>)
      | (Inl (SdkThrown e), w1) \<Rightarrow>
          (if errorClass e = SandboxNotFoundError then Inr (Some ''TERMINATED'')
           else if sandboxErrorClass (errorClass e) then Inr None
           else Inl (SdkThrown e), w1)
      | (Inl e, w1) \<Rightarrow> (Inl e, w1))"

text \<open>\<open>streamFailure\<close>: the error to throw.\<close>

definition streamFailure :: "'m CoreEnv \<Rightarrow> bool \<Rightarrow> Thrown \<Rightarrow> 'm SandboxCore_scheme \<Rightarrow> Thrown \<times> 'm SandboxCore_scheme" where
  "streamFailure env filesystem e w =
     (case e of
        ConnectThrown c \<Rightarrow>
          if \<not> isStreamReset e then (SdkThrown (translateRpcError e filesystem), w)
          else (case healthAnswers env w of (healthOk, w1) \<Rightarrow>
                  (case (if healthOk then (Inr None, w1) else stateAfterReset env w1) of
                     (Inl e', w2) \<Rightarrow> (e', w2)
                   | (Inr state, w2) \<Rightarrow> (SdkThrown (streamFailureError c healthOk state), w2)))
      | _ \<Rightarrow> (SdkThrown (translateRpcError e filesystem), w))"

definition openFailure ::
  "'m CoreEnv \<Rightarrow> (Thrown \<Rightarrow> Thrown) option \<Rightarrow> bool \<Rightarrow> Thrown \<Rightarrow> 'm SandboxCore_scheme \<Rightarrow> Thrown \<times> 'm SandboxCore_scheme" where
  "openFailure env translate filesystem e w =
     (case translate of
        Some f \<Rightarrow> if \<not> isStreamReset e then (f e, w) else streamFailure env filesystem e w
      | None \<Rightarrow> streamFailure env filesystem e w)"

definition openStreamOnce ::
  "'m CoreEnv \<Rightarrow> (Thrown \<Rightarrow> Thrown) option \<Rightarrow> bool \<Rightarrow> bool \<Rightarrow> 'm signal \<Rightarrow> ('m, 'a) rpc \<Rightarrow> ('m, 'a) prog" where
  "openStreamOnce env translate filesystem reconnecting signal first w =
     (let failed = (\<lambda>e w'. case openFailure env translate filesystem e w' of (e', w'') \<Rightarrow> (Inl e', w''));
          again = (\<lambda>w'. case retryUnestablished first (envSleep env) signal w' of
                     (Inr v, w'') \<Rightarrow> (Inr v, w'') | (Inl e, w'') \<Rightarrow> failed e w'')
      in case firstMessageReminting env signal first w of
           (Inr v, w1) \<Rightarrow> Some (Inr v, w1)
         | (Inl e, w1) \<Rightarrow>
             Option.bind (reopenedAfterDeadlinePause env e (reopens w) w1) (\<lambda>(reopened, w2).
               if reopened then Some (again w2)
               else if \<not> (reconnecting \<and> \<not> coreClosed w2 \<and> isReconnectable e) then Some (failed e w2)
               else Option.bind (reconnect env e (resumeGeneration w) True w2) (\<lambda>(r, w3).
                 case r of
                   Inl e' \<Rightarrow> Some (Inl e', w3)
                 | Inr out \<Rightarrow>
                     if \<not> resumed out then Some (Inl (reconnectError out e), w3) else Some (again w3))))"

definition openStream ::
  "'m CoreEnv \<Rightarrow> (Thrown \<Rightarrow> Thrown) option \<Rightarrow> bool \<Rightarrow> bool \<Rightarrow> 'm signal \<Rightarrow> ('m, 'a) rpc \<Rightarrow> ('m, 'a) prog" where
  "openStream env translate filesystem reconnecting signal first w =
     (case signal w of
        Some reason \<Rightarrow> Some (Inl reason, w)
      | None \<Rightarrow>
          Option.bind (openStreamOnce env translate filesystem reconnecting signal first w) (\<lambda>(r, w1).
            case r of Inr v \<Rightarrow> Some (Inr v, w1) | Inl e \<Rightarrow> Some (Inl (abortReasonOr signal e w1), w1)))"

section \<open>Pauses and the deadline\<close>

definition suspendMarkingPaused :: "'m CoreEnv \<Rightarrow> ('m, bool) rpc" where
  "suspendMarkingPaused env w =
     (case envSuspendMicrovm env (w\<lparr>corePaused := True\<rparr>) of
        (Inl e, w1) \<Rightarrow> (Inl e, w1\<lparr>corePaused := corePaused w\<rparr>)
      | (Inr suspended, w1) \<Rightarrow> (Inr suspended, if suspended then w1 else w1\<lparr>corePaused := corePaused w\<rparr>))"

definition suspendForDeadline :: "'m CoreEnv \<Rightarrow> ('m, unit) rpc" where
  "suspendForDeadline env w =
     (case envSuspendMicrovm env w of
        (Inl e, w1) \<Rightarrow> (Inl e, w1)
      | (Inr suspended, w1) \<Rightarrow>
          (Inr (), if suspended then w1\<lparr>deadlinePauseGeneration := Some (resumeGeneration w)\<rparr> else w1))"

definition suspendIfExpired :: "'m CoreEnv \<Rightarrow> ('m, unit) rpc" where
  "suspendIfExpired env w =
     (if coreClosed w then (Inr (), w)
      else case envGetMicrovm env w of
             (Inl e, w1) \<Rightarrow> (Inl e, w1)
           | (Inr info, w1) \<Rightarrow>
               let w2 = w1\<lparr>coreInfo := info\<rparr>
               in if infoState info \<noteq> ''RUNNING'' then (Inr (), w2)
                  else case callUnaryOnce env True noSignal (envHealth env (maxRpcTimeoutMs ReadinessPoll)) w2 of
                         (Inl e, w3) \<Rightarrow> (Inl e, w3)
                       | (Inr response, w3) \<Rightarrow>
                           let w4 = recordHealth env response w3
                           in case coreLifecycle w4 of
                                None \<Rightarrow> (Inr (), w4)
                              | Some l \<Rightarrow> if lifePhase l = Expired then suspendForDeadline env w4 else (Inr (), w4))"

definition stillActiveAhead :: "SandboxLifecycle option \<Rightarrow> rat \<Rightarrow> bool" where
  "stillActiveAhead life now =
     (case life of
        None \<Rightarrow> False
      | Some l \<Rightarrow> lifePhase l = Active \<and> (case lifeDeadline l of None \<Rightarrow> False | Some d \<Rightarrow> now < of_int d))"

text \<open>\<open>#onDeadline\<close>, when the trigger fires: its timer is no longer armed, and a failure is swallowed.\<close>

definition onDeadline :: "'m CoreEnv \<Rightarrow> 'm SandboxCore_scheme \<Rightarrow> 'm SandboxCore_scheme" where
  "onDeadline env w =
     (let w1 = (snd (suspendIfExpired env (w\<lparr>triggerArmed := None, deadlineFiring := True\<rparr>)))\<lparr>deadlineFiring := False\<rparr>;
          now = envDateNow env (SandboxCore.more w1)
      in if \<not> coreClosed w1 \<and> stillActiveAhead (coreLifecycle w1) now
         then w1\<lparr>triggerArmed := pauseTriggerDelayMs (coreLifecycle w1) now\<rparr> else w1)"

text \<open>\<open>close\<close>: what it changes of the handle.\<close>

definition closeCore :: "'m SandboxCore_scheme \<Rightarrow> 'm SandboxCore_scheme" where
  "closeCore w = (if coreClosed w then w else notifyResumed (w\<lparr>coreClosed := True, triggerArmed := None\<rparr>))"

end
