(* ===== verification/Sandbox_Calls.thy ===== *)
theory Sandbox_Calls
  imports Sandbox_Reconnect
begin

text \<open>
  What the calls of a sandbox handle guarantee: what a reconnection reports, that it ends, and how
  often a call is sent.
\<close>

section \<open>Outcomes of a reconnection\<close>

definition soundOutcome :: "Thrown \<Rightarrow> nat \<Rightarrow> ReconnectOutcome \<Rightarrow> 'm SandboxCore_scheme \<Rightarrow> bool" where
  "soundOutcome reason seen out w \<longleftrightarrow>
     (if resumed out
      then outcomeGeneration out = resumeGeneration w \<and> generationChanged out = (outcomeGeneration out \<noteq> seen) \<and>
        (isSuspendingReason reason \<longrightarrow> generationChanged out) \<and> outcomeError out = None
      else \<not> generationChanged out \<and> outcomeError out \<noteq> None)"

lemma soundOutcome_unlock [simp]: "soundOutcome reason seen out (w\<lparr>reconnectLocked := b\<rparr>) = soundOutcome reason seen out w"
  by (simp add: soundOutcome_def)

lemma soundOutcome_failed [simp]: "soundOutcome reason seen (failedReconnect e w) w'"
  by (simp add: soundOutcome_def failedReconnect_def)

lemma soundOutcome_alreadyBack: "alreadyBack seen w = Some out \<Longrightarrow> soundOutcome reason seen out w"
  by (auto simp: alreadyBack_def soundOutcome_def failedReconnect_def split: if_splits)

lemma soundOutcome_reconnected:
  "healthReconnected response seen (isSuspendingReason reason) \<Longrightarrow> reconnected env (the response) seen w = (out, w') \<Longrightarrow>
     soundOutcome reason seen out w'"
  by (auto simp: healthReconnected_def reconnected_def soundOutcome_def split: option.splits)

lemmas pollUntilBack_induct = pollUntilBack.raw_induct [rotated, consumes 1, case_names step]
lemmas sleepLoop_induct = sleepLoop.raw_induct [rotated, consumes 1, case_names step]
lemmas reconnect_induct = reconnect.raw_induct [rotated, consumes 1, case_names step]
lemmas awaitUnlocked_induct = awaitUnlocked.raw_induct [rotated, consumes 1, case_names step]

text \<open>The outcome of a piece, when it has one.\<close>

definition soundResult :: "Thrown \<Rightarrow> nat \<Rightarrow> (Thrown + ReconnectOutcome option) \<times> 'm SandboxCore_scheme \<Rightarrow> bool" where
  "soundResult reason seen rw = (case fst rw of Inr (Some out) \<Rightarrow> soundOutcome reason seen out (snd rw) | _ \<Rightarrow> True)"

lemma soundResult_simps [simp]:
  "soundResult reason seen (Inl e, w)" "soundResult reason seen (Inr None, w)"
  "soundResult reason seen (Inr (Some out), w) = soundOutcome reason seen out w"
  by (simp_all add: soundResult_def)

lemma pollUntilBack_sound:
  "pollUntilBack env reason seen wake p w = Some rw \<Longrightarrow> soundResult reason seen rw"
proof (induction env reason seen wake p w rw rule: pollUntilBack_induct)
  case (step rec env reason seen wake p w rw)
  from step(2) show ?case
    by (auto simp: soundResult_def soundOutcome_alreadyBack soundOutcome_reconnected
        split: option.splits sum.splits prod.splits if_splits dest!: step(1))
qed

lemma sleepLoop_sound: "sleepLoop env reason seen w = Some rw \<Longrightarrow> soundResult reason seen rw"
proof (induction env reason seen w rw rule: sleepLoop_induct)
  case (step rec env reason seen w rw)
  from step(2) show ?case
    by (auto simp: soundResult_def soundOutcome_alreadyBack
        split: option.splits sum.splits prod.splits if_splits dest!: step(1))
qed

lemma pollHoldingTheLock_sound:
  assumes "pollHoldingTheLock env reason seen wake w = Some rw"
  shows "soundResult reason seen rw"
proof -
  obtain w1 r w2 where "(case alreadyBack seen (w1\<lparr>reconnectLocked := True\<rparr>) of
            Some out \<Rightarrow> Some (Inr (Some out), w1\<lparr>reconnectLocked := True\<rparr>)
          | None \<Rightarrow> pollUntilBack env reason seen wake
              (newPoll ReconnectPoll (reconnectTimeoutMs w1) (monotonicNow env w1)) (w1\<lparr>reconnectLocked := True\<rparr>)) = Some (r, w2)"
    and rw: "rw = (r, w2\<lparr>reconnectLocked := False\<rparr>)"
    using assms by (auto simp: pollHoldingTheLock_def bind_eq_Some_conv)
  then have "soundResult reason seen (r, w2)"
    using soundOutcome_alreadyBack pollUntilBack_sound by (fastforce split: option.splits)
  then show ?thesis by (auto simp: rw soundResult_def split: sum.splits option.splits)
qed

text \<open>One round of \<open>reconnect\<close>: the first piece has a result, or the poll has, or there is another
  round.\<close>

lemma reconnect_body [consumes 1, case_names First Polled Again]:
  assumes "Option.bind first (\<lambda>(r, w1).
      case r of Inl e \<Rightarrow> Some (Inl e, w1) | Inr (Some out) \<Rightarrow> Some (Inr out, w1)
      | Inr None \<Rightarrow> Option.bind (poll w1) (\<lambda>(r, w2).
          case r of Inl e \<Rightarrow> Some (Inl e, w2) | Inr (Some out) \<Rightarrow> Some (Inr out, w2) | Inr None \<Rightarrow> again w2)) = Some rw"
  obtains r where "first = Some (r, snd rw)" "r = map_sum id Some (fst rw)"
    | w1 r where "first = Some (Inr None, w1)" "poll w1 = Some (r, snd rw)" "r = map_sum id Some (fst rw)"
    | w1 w2 where "first = Some (Inr None, w1)" "poll w1 = Some (Inr None, w2)" "again w2 = Some rw"
proof -
  obtain r w1 where first: "first = Some (r, w1)" using assms by (cases first) auto
  consider e where "r = Inl e" | out where "r = Inr (Some out)" | "r = Inr None" by (metis obj_sumE option.exhaust)
  then show thesis
  proof cases
    case 3
    obtain r2 w2 where poll: "poll w1 = Some (r2, w2)" using assms first 3 by (cases "poll w1") auto
    consider e where "r2 = Inl e" | out where "r2 = Inr (Some out)" | "r2 = Inr None" by (metis obj_sumE option.exhaust)
    then show thesis by cases (use assms first 3 poll that(2,3) in auto)
  qed (use assms first that(1) in auto)
qed

lemma soundResult_map: "soundResult reason seen (map_sum id Some x, w) =
    (case x of Inr out \<Rightarrow> soundOutcome reason seen out w | Inl e \<Rightarrow> True)"
  by (cases x) simp_all

lemma reconnect_sound:
  "reconnect env reason seen wake w = Some rw \<Longrightarrow> (case fst rw of Inr out \<Rightarrow> soundOutcome reason seen out (snd rw) | Inl e \<Rightarrow> True)"
proof (induction env reason seen wake w rw rule: reconnect_induct)
  case (step rec env reason seen wake w rw)
  have first: "soundResult reason seen (r, w1)" if "(case alreadyBack seen w of
        Some out \<Rightarrow> Some (Inr (Some out), w)
      | None \<Rightarrow> if wake then Some (Inr None, w) else sleepWhileSuspended env reason seen w) = Some (r, w1)" for r w1
    using that soundOutcome_alreadyBack sleepLoop_sound unfolding sleepWhileSuspended_def
    by (fastforce split: option.splits if_splits)
  from step(2) show ?case
  proof (cases rule: reconnect_body)
    case (First r)
    then show ?thesis using first soundResult_map by blast
  next
    case (Polled w1 r)
    then show ?thesis using pollHoldingTheLock_sound soundResult_map by blast
  next
    case (Again w1 w2)
    then show ?thesis using step(1) by blast
  qed
qed

section \<open>A reconnection that wakes the sandbox ends\<close>

text \<open>What it relies on besides the clock: the generation of a sandbox only grows; \<open>#waitForResume\<close>
  ends early only on a notice, which is sent for a new generation and by \<open>close\<close>; and the holder of
  the lock gives it back.\<close>

definition resumesForward :: "'m CoreEnv \<Rightarrow> bool" where
  "resumesForward env \<longleftrightarrow>
     (\<forall>t w. resumeGeneration w \<le> resumeGeneration (snd (envHealth env t w))) \<and>
     (\<forall>w. resumeGeneration w \<le> resumeGeneration (snd (envRefreshAll env w))) \<and>
     (\<forall>w. resumeGeneration w \<le> resumeGeneration (snd (envGetMicrovm env w))) \<and>
     (\<forall>d w. resumeGeneration w \<le> resumeGeneration (envWaitForResume env d w)) \<and>
     (\<forall>w. resumeGeneration w \<le> resumeGeneration (envAwaitLock env w)) \<and>
     (\<forall>d w. 0 \<le> d \<longrightarrow>
        monotonicNow env w + d \<le> monotonicNow env (envWaitForResume env d w) \<or>
        resumeGeneration w < resumeGeneration (envWaitForResume env d w) \<or> coreClosed (envWaitForResume env d w)) \<and>
     (\<forall>w. \<not> reconnectLocked (envAwaitLock env w))"

lemma checkState_clock:
  assumes "clockForward env"
  shows "monotonicNow env w \<le> monotonicNow env (snd (checkState env reason wake w))"
proof -
  have "monotonicNow env w \<le> monotonicNow env (snd (envGetMicrovm env w))" using assms by (simp add: clockForward_def)
  then show ?thesis by (auto simp: checkState_def split: prod.split sum.split Thrown.split)
qed

lemma checkState_generation:
  assumes "resumesForward env"
  shows "resumeGeneration w \<le> resumeGeneration (snd (checkState env reason wake w))"
proof -
  have "resumeGeneration w \<le> resumeGeneration (snd (envGetMicrovm env w))" using assms by (simp add: resumesForward_def)
  then show ?thesis by (auto simp: checkState_def split: prod.split sum.split Thrown.split)
qed

lemma probeHealth_generation:
  assumes "resumesForward env"
  shows "resumeGeneration w \<le> resumeGeneration (snd (probeHealth env t noSignal w))"
proof -
  obtain r1 w1 where c: "envHealth env t w = (r1, w1)" by fastforce
  obtain r2 w2 where f: "envRefreshAll env w1 = (r2, w2)" by fastforce
  obtain r3 w3 where c': "envHealth env t w2 = (r3, w3)" by fastforce
  have "resumeGeneration w \<le> resumeGeneration w1" "resumeGeneration w1 \<le> resumeGeneration w2" "resumeGeneration w2 \<le> resumeGeneration w3"
    using assms c f c' unfolding resumesForward_def by (metis snd_conv)+
  then show ?thesis
    by (auto simp: probeHealth_def callUnaryOnce_def noSignal_def c f c' split: sum.split if_splits)
qed

lemma pollUntilBack_back: "alreadyBack seen w \<noteq> None \<Longrightarrow> \<exists>r. pollUntilBack env reason seen wake p w = Some r"
  by (subst pollUntilBack.simps) auto

lemma alreadyBack_None: "alreadyBack seen w = None \<longleftrightarrow> resumeGeneration w \<le> seen \<and> \<not> coreClosed w"
  by (auto simp: alreadyBack_def)

lemma reconnect_poll_least: "initialDelayMs ReconnectPoll * (1 - jitter ReconnectPoll) = 375"
  by (simp add: ReconnectPoll_def)

lemma pollUntilBack_step:
  assumes ok: "reconnect_poll.poll_ok p" and clock: "clockForward env" and resumes: "resumesForward env"
    and seen: "seen \<le> resumeGeneration w"
  shows "(\<exists>r. pollUntilBack env reason seen True p w = Some r) \<or>
    (\<exists>p' w'. pollUntilBack env reason seen True p w = pollUntilBack env reason seen True p' w' \<and> reconnect_poll.poll_ok p' \<and>
       seen \<le> resumeGeneration w' \<and> pollDeadline p' = pollDeadline p \<and> monotonicNow env w < pollDeadline p \<and>
       min (monotonicNow env w + 375) (pollDeadline p) \<le> monotonicNow env w')"
proof (cases "\<exists>r. pollUntilBack env reason seen True p w = Some r")
  case False
  obtain due p1 where check: "shouldCheckState p (monotonicNow env w) = (due, p1)" by fastforce
  obtain r1 w1 where state: "(if due then checkState env reason True w else (Inr None, w)) = (r1, w1)" by fastforce
  obtain r2 w2 where probe: "probeHealth env (of_int (rpcTimeoutMs p1 (monotonicNow env w1))) noSignal w1 = (r2, w2)" by fastforce
  obtain d p2 where delay: "pollNextDelayMs p1 (monotonicNow env w2) (envRandom env (SandboxCore.more w2)) = (d, p2)" by fastforce
  let ?w3 = "envWaitForResume env d w2"
  have again: "pollUntilBack env reason seen True p w = pollUntilBack env reason seen True p2 ?w3"
    and open': "\<not> pollTimedOut p (monotonicNow env w)"
    using False unfolding pollUntilBack.simps [of env reason seen True p w]
    by (auto simp: check state probe delay split: option.splits sum.splits if_splits prod.splits)
  show ?thesis
  proof (cases "alreadyBack seen ?w3")
    case (Some out)
    with pollUntilBack_back [of seen ?w3] again show ?thesis by auto
  next
    case None
    have "monotonicNow env w \<le> monotonicNow env w1 \<and> seen \<le> resumeGeneration w1"
      using checkState_clock [OF clock, of w reason True] checkState_generation [OF resumes, of w reason True] state seen
      by (cases due) auto
    then have w1: "monotonicNow env w \<le> monotonicNow env w1" "seen \<le> resumeGeneration w1" by auto
    have w2: "monotonicNow env w \<le> monotonicNow env w2" "seen \<le> resumeGeneration w2"
      using probeHealth_clock [OF clock, of w1] probeHealth_generation [OF resumes, of w1] probe w1
      by (metis order_trans snd_conv)+
    have p1: "reconnect_poll.poll_ok p1" "pollDeadline p1 = pollDeadline p"
      using reconnect_poll.poll_ok_check [OF ok] reconnect_poll.deadline_fixed(1) check by (metis snd_conv)+
    have p2: "reconnect_poll.poll_ok p2" "pollDeadline p2 = pollDeadline p"
      using reconnect_poll.poll_ok_next [OF p1(1)] reconnect_poll.deadline_fixed(2) p1(2) delay by (metis snd_conv)+
    have "min 375 (pollRemainingMs p1 (monotonicNow env w2)) \<le> d"
      using reconnect_poll.next_delay_lower [OF p1(1), of "envRandom env (SandboxCore.more w2)" "monotonicNow env w2"] delay clock
      by (simp add: clockForward_def reconnect_poll_least)
    moreover have "0 \<le> d" using delay by (auto simp: pollNextDelayMs_def Let_def)
    then have "monotonicNow env w2 + d \<le> monotonicNow env ?w3"
      using None w2(2) resumes unfolding alreadyBack_None resumesForward_def by (metis le_less_trans not_le)
    moreover have "monotonicNow env w < pollDeadline p"
      using open' by (auto simp: pollTimedOut_def pollRemainingMs_def)
    moreover have "seen \<le> resumeGeneration ?w3" using w2(2) resumes unfolding resumesForward_def by (meson order_trans)
    ultimately show ?thesis
      using again p2 p1(2) w2(1)
      by (intro disjI2 exI [of _ p2] exI [of _ ?w3]) (auto simp: pollRemainingMs_def min_def split: if_splits)
  qed
qed simp

lemma pollUntilBack_returns:
  assumes clock: "clockForward env" and resumes: "resumesForward env"
  shows "reconnect_poll.poll_ok p \<Longrightarrow> seen \<le> resumeGeneration w \<Longrightarrow> pollDeadline p \<le> monotonicNow env w + of_nat n * 375 \<Longrightarrow>
    \<exists>r. pollUntilBack env reason seen True p w = Some r"
proof (induction n arbitrary: p w)
  case 0
  then show ?case using pollUntilBack_step [OF 0(1) clock resumes 0(2), of reason] by auto
next
  case (Suc n)
  from pollUntilBack_step [OF Suc.prems(1) clock resumes Suc.prems(2), of reason] show ?case
  proof (elim disjE exE conjE)
    fix p' w'
    assume step: "pollUntilBack env reason seen True p w = pollUntilBack env reason seen True p' w'" "reconnect_poll.poll_ok p'"
      "seen \<le> resumeGeneration w'" "pollDeadline p' = pollDeadline p"
      "min (monotonicNow env w + 375) (pollDeadline p) \<le> monotonicNow env w'"
    have "pollDeadline p' \<le> monotonicNow env w' + of_nat n * 375"
      using step(4,5) Suc.prems(3) by (auto simp: min_def algebra_simps split: if_splits)
    from Suc.IH [OF step(2,3) this] step(1) show ?thesis by simp
  qed simp
qed

lemma pollUntilBack_outcome: "pollUntilBack env reason seen wake p w = Some rw \<Longrightarrow> wake \<Longrightarrow> fst rw \<noteq> Inr None"
proof (induction env reason seen wake p w rw rule: pollUntilBack_induct)
  case (step rec env reason seen wake p w rw)
  from step(2,3) show ?case
    by (auto split: option.splits sum.splits prod.splits if_splits dest: step(1))
qed

lemma awaitUnlocked_returns:
  assumes "resumesForward env"
  shows "\<exists>w'. awaitUnlocked env w = Some w' \<and> resumeGeneration w \<le> resumeGeneration w'"
proof (cases "reconnectLocked w")
  case True
  have "\<not> reconnectLocked (envAwaitLock env w)" "resumeGeneration w \<le> resumeGeneration (envAwaitLock env w)"
    using assms by (simp_all add: resumesForward_def)
  with True show ?thesis by (simp add: awaitUnlocked.simps [of env w] awaitUnlocked.simps [of env "envAwaitLock env w"])
qed (simp add: awaitUnlocked.simps [of env w])

lemma pollHoldingTheLock_returns:
  assumes clock: "clockForward env" and resumes: "resumesForward env" and seen: "seen \<le> resumeGeneration w"
  shows "\<exists>r w'. pollHoldingTheLock env reason seen True w = Some (r, w') \<and> r \<noteq> Inr None"
proof -
  obtain w1 where w1: "awaitUnlocked env w = Some w1" "resumeGeneration w \<le> resumeGeneration w1"
    using awaitUnlocked_returns [OF resumes] by blast
  let ?w = "w1\<lparr>reconnectLocked := True\<rparr>" and ?p = "newPoll ReconnectPoll (reconnectTimeoutMs w1) (monotonicNow env w1)"
  obtain n where n: "reconnectTimeoutMs w1 < of_nat n * 375" using ex_less_of_nat_mult [of 375] by auto
  then have "pollDeadline ?p \<le> monotonicNow env ?w + of_nat n * 375" by (simp add: newPoll_def)
  moreover have "seen \<le> resumeGeneration ?w" using seen w1(2) by simp
  ultimately obtain rw where "pollUntilBack env reason seen True ?p ?w = Some rw"
    using pollUntilBack_returns [OF clock resumes reconnect_poll.poll_ok_new] by blast
  then show ?thesis
    using w1(1) pollUntilBack_outcome [of env reason seen True ?p ?w rw]
    by (cases rw) (auto simp: pollHoldingTheLock_def split: option.split)
qed


lemma demoEnv_resumes: "resumesForward demoEnv"
  by (simp add: resumesForward_def demoEnv_def demoTick_def Let_def monotonicNow_def)


section \<open>How often a call is sent\<close>

text \<open>An observation of the rest of the world that no other call changes; it will be the record of the
  answers to one call.\<close>

definition silentEnv :: "'m CoreEnv \<Rightarrow> ('m \<Rightarrow> 'x) \<Rightarrow> bool" where
  "silentEnv env obs \<longleftrightarrow>
     (\<forall>t w. obs (SandboxCore.more (snd (envHealth env t w))) = obs (SandboxCore.more w)) \<and>
     (\<forall>ms w. obs (SandboxCore.more (snd (envSetTimeout env ms w))) = obs (SandboxCore.more w)) \<and>
     (\<forall>w. obs (SandboxCore.more (snd (envRefreshAll env w))) = obs (SandboxCore.more w)) \<and>
     (\<forall>w. obs (SandboxCore.more (snd (envGetMicrovm env w))) = obs (SandboxCore.more w)) \<and>
     (\<forall>d w. obs (SandboxCore.more (envSleep env d w)) = obs (SandboxCore.more w)) \<and>
     (\<forall>d w. obs (SandboxCore.more (envWaitForResume env d w)) = obs (SandboxCore.more w)) \<and>
     (\<forall>w. obs (SandboxCore.more (envAwaitLock env w)) = obs (SandboxCore.more w)) \<and>
     (\<forall>w. obs (SandboxCore.more (snd (envAwaitReopen env w))) = obs (SandboxCore.more w))"

lemma more_recordLifecycle [simp]: "SandboxCore.more (recordLifecycle env life w) = SandboxCore.more w"
  by (simp add: recordLifecycle_def Let_def)

lemma more_recordHealth [simp]: "SandboxCore.more (recordHealth env response w) = SandboxCore.more w"
  by (simp add: recordHealth_def notifyResumed_def Let_def)

lemma more_consume [simp]: "SandboxCore.more (consumeDeadlinePause g w) = SandboxCore.more w"
  by (simp add: consumeDeadlinePause_def)

lemma silent_pieces:
  assumes "silentEnv env obs"
  shows "envHealth env t w = (r1, w1) \<Longrightarrow> obs (SandboxCore.more w1) = obs (SandboxCore.more w)"
    and "envSetTimeout env ms w = (r2, w1) \<Longrightarrow> obs (SandboxCore.more w1) = obs (SandboxCore.more w)"
    and "envRefreshAll env w = (r3, w1) \<Longrightarrow> obs (SandboxCore.more w1) = obs (SandboxCore.more w)"
    and "envGetMicrovm env w = (r4, w1) \<Longrightarrow> obs (SandboxCore.more w1) = obs (SandboxCore.more w)"
    and "envAwaitReopen env w = (b, w1) \<Longrightarrow> obs (SandboxCore.more w1) = obs (SandboxCore.more w)"
    and "obs (SandboxCore.more (envSleep env d w)) = obs (SandboxCore.more w)"
    and "obs (SandboxCore.more (envWaitForResume env d w)) = obs (SandboxCore.more w)"
    and "obs (SandboxCore.more (envAwaitLock env w)) = obs (SandboxCore.more w)"
  using assms unfolding silentEnv_def by (metis snd_conv)+

lemma retryDelays_silent:
  assumes "\<And>w. f (snd (call w)) = f w" "\<And>d w. f (pause d w) = f w"
  shows "f (snd (retryDelays ds call pause aborted w)) = f w"
proof (induction ds arbitrary: w)
  case (Cons d ds)
  obtain r w1 where "call w = (r, w1)" by fastforce
  with Cons assms(1) [of w] assms(2) [of d w1] show ?case by (auto simp: Let_def split: sum.split option.split)
qed (simp add: assms)

lemma callUnaryOnce_silent:
  assumes silent: "silentEnv env obs" and call: "\<And>w. obs (SandboxCore.more (snd (call w))) = obs (SandboxCore.more w)"
    and "callUnaryOnce env retry signal call w = (r, w')"
  shows "obs (SandboxCore.more w') = obs (SandboxCore.more w)"
proof -
  define attempt where "attempt = (if retry then retryUnestablished call (envSleep env) signal else call)"
  have "obs (SandboxCore.more (snd (attempt v))) = obs (SandboxCore.more v)" for v
    using retryDelays_silent [of "\<lambda>w. obs (SandboxCore.more w)" call "envSleep env" CONNECT_RETRY_DELAYS_MS signal v]
      call silent_pieces(6) [OF silent]
    by (simp add: attempt_def retryUnestablished_def)
  then have attempt: "attempt v = (x, v') \<Longrightarrow> obs (SandboxCore.more v') = obs (SandboxCore.more v)" for v x v'
    by (metis snd_conv)
  show ?thesis
    using assms(3) unfolding callUnaryOnce_def attempt_def [symmetric] Let_def
    by (auto split: prod.splits sum.splits if_splits dest!: attempt silent_pieces(3) [OF silent])
qed

lemma probeHealth_silent:
  assumes "silentEnv env obs" "probeHealth env t signal w = (r, w')"
  shows "obs (SandboxCore.more w') = obs (SandboxCore.more w)"
proof -
  have "obs (SandboxCore.more (snd (envHealth env t v))) = obs (SandboxCore.more v)" for v
    using assms(1) by (simp add: silentEnv_def)
  from callUnaryOnce_silent [OF assms(1) this] assms(2) show ?thesis
    by (auto simp: probeHealth_def split: option.splits prod.splits sum.splits if_splits)
qed

lemma checkState_silent:
  "silentEnv env obs \<Longrightarrow> checkState env reason wake w = (r, w') \<Longrightarrow> obs (SandboxCore.more w') = obs (SandboxCore.more w)"
  by (auto simp: checkState_def split: prod.splits sum.splits Thrown.splits dest!: silent_pieces(4))

lemma pollUntilBack_silent:
  "pollUntilBack env reason seen wake p w = Some rw \<Longrightarrow> silentEnv env obs \<Longrightarrow>
     obs (SandboxCore.more (snd rw)) = obs (SandboxCore.more w)"
proof (induction env reason seen wake p w rw rule: pollUntilBack_induct)
  case (step rec env reason seen wake p w rw)
  note silent = step(3)
  from step(2) show ?case
    by (auto simp: reconnected_def silent_pieces(7) [OF silent] split: option.splits sum.splits prod.splits if_splits
        dest!: step(1) [OF _ silent] checkState_silent [OF silent] probeHealth_silent [OF silent])
qed

lemma sleepLoop_silent:
  "sleepLoop env reason seen w = Some rw \<Longrightarrow> silentEnv env obs \<Longrightarrow> obs (SandboxCore.more (snd rw)) = obs (SandboxCore.more w)"
proof (induction env reason seen w rw rule: sleepLoop_induct)
  case (step rec env reason seen w rw)
  note silent = step(3)
  from step(2) show ?case
    by (auto simp: silent_pieces(7) [OF silent] split: option.splits sum.splits prod.splits if_splits
        dest!: step(1) [OF _ silent] checkState_silent [OF silent])
qed

lemma awaitUnlocked_silent:
  "awaitUnlocked env w = Some w' \<Longrightarrow> silentEnv env obs \<Longrightarrow> obs (SandboxCore.more w') = obs (SandboxCore.more w)"
proof (induction env w w' rule: awaitUnlocked_induct)
  case (step rec env w w')
  from step(2) show ?case
    by (auto simp: silent_pieces(8) [OF step(3)] split: if_splits dest!: step(1) [OF _ step(3)])
qed

lemma pollHoldingTheLock_silent:
  assumes "pollHoldingTheLock env reason seen wake w = Some rw" "silentEnv env obs"
  shows "obs (SandboxCore.more (snd rw)) = obs (SandboxCore.more w)"
  using assms(1)
  by (auto simp: pollHoldingTheLock_def bind_eq_Some_conv split: option.splits
      dest!: awaitUnlocked_silent [OF _ assms(2)] pollUntilBack_silent [OF _ assms(2)])

lemma reconnect_silent:
  "reconnect env reason seen wake w = Some rw \<Longrightarrow> silentEnv env obs \<Longrightarrow> obs (SandboxCore.more (snd rw)) = obs (SandboxCore.more w)"
proof (induction env reason seen wake w rw rule: reconnect_induct)
  case (step rec env reason seen wake w rw)
  note silent = step(3)
  have first: "obs (SandboxCore.more w1) = obs (SandboxCore.more w)" if "(case alreadyBack seen w of
        Some out \<Rightarrow> Some (Inr (Some out), w)
      | None \<Rightarrow> if wake then Some (Inr None, w) else sleepWhileSuspended env reason seen w) = Some (r, w1)" for r w1
    using that by (auto simp: sleepWhileSuspended_def silent_pieces(7) [OF silent] split: option.splits if_splits
        dest!: sleepLoop_silent [OF _ silent])
  from step(2) show ?case
    by (cases rule: reconnect_body)
      (auto dest!: first pollHoldingTheLock_silent [OF _ silent] step(1) [OF _ silent])
qed

text \<open>The ways a call ends: at its first answer, after a reopening, with the error thrown on, or after a
  reconnection.\<close>

lemma callUnaryWith_cases [consumes 1, case_names Answered Reopened Thrown Broken Lost Resent]:
  assumes "callUnaryWith env reopen call w = Some rw"
  obtains v w1 where "callUnaryOnce env True noSignal call w = (Inr v, w1)" "rw = (Inr v, w1)"
  | e w1 w2 where "callUnaryOnce env True noSignal call w = (Inl e, w1)" "reopen e (reopens w) w1 = Some (True, w2)"
      "rw = callUnaryOnce env True noSignal call w2"
  | e w1 w2 where "callUnaryOnce env True noSignal call w = (Inl e, w1)" "reopen e (reopens w) w1 = Some (False, w2)"
      "coreClosed w2 \<or> \<not> isReconnectable e" "rw = (Inl e, w2)"
  | e w1 w2 e' w3 where "callUnaryOnce env True noSignal call w = (Inl e, w1)" "reopen e (reopens w) w1 = Some (False, w2)"
      "isReconnectable e" "reconnect env e (resumeGeneration w) True w2 = Some (Inl e', w3)" "rw = (Inl e', w3)"
  | e w1 w2 out w3 where "callUnaryOnce env True noSignal call w = (Inl e, w1)" "reopen e (reopens w) w1 = Some (False, w2)"
      "isReconnectable e" "reconnect env e (resumeGeneration w) True w2 = Some (Inr out, w3)" "\<not> resumed out"
      "rw = (Inl (reconnectError out e), w3)"
  | e w1 w2 out w3 where "callUnaryOnce env True noSignal call w = (Inl e, w1)" "reopen e (reopens w) w1 = Some (False, w2)"
      "isReconnectable e" "reconnect env e (resumeGeneration w) True w2 = Some (Inr out, w3)" "resumed out"
      "rw = retryUnestablished call (envSleep env) noSignal w3"
proof -
  obtain r w1 where once: "callUnaryOnce env True noSignal call w = (r, w1)" by fastforce
  show thesis
  proof (cases r)
    case (Inr v)
    note once = once [unfolded Inr]
    with assms that(1) [OF once] show thesis by (simp add: callUnaryWith_def)
  next
    case (Inl e)
    note once = once [unfolded Inl]
    obtain b w2 where b: "reopen e (reopens w) w1 = Some (b, w2)"
      using assms by (cases "reopen e (reopens w) w1") (auto simp: callUnaryWith_def once)
    show thesis
    proof (cases "b \<or> coreClosed w2 \<or> \<not> isReconnectable e")
      case True
      with assms that(2,3) [OF once] b show thesis by (cases b) (auto simp: callUnaryWith_def once)
    next
      case False
      then have b: "reopen e (reopens w) w1 = Some (False, w2)" and False: "\<not> coreClosed w2" "isReconnectable e"
        using b by auto
      obtain r w3 where r: "reconnect env e (resumeGeneration w) True w2 = Some (r, w3)"
        using assms False b by (cases "reconnect env e (resumeGeneration w) True w2") (auto simp: callUnaryWith_def once)
      show thesis
      proof (cases r)
        case (Inl e')
        with assms False b r that(4) [OF once] show thesis by (auto simp: callUnaryWith_def once)
      next
        case (Inr out)
        with assms False b r that(5,6) [OF once] show thesis by (auto simp: callUnaryWith_def once split: if_splits)
      qed
    qed
  qed
qed

lemma callUnaryPlain_silent:
  assumes silent: "silentEnv env obs" and call: "\<And>w. obs (SandboxCore.more (snd (call w))) = obs (SandboxCore.more w)"
    and "callUnaryPlain env call w = Some (r, w')"
  shows "obs (SandboxCore.more w') = obs (SandboxCore.more w)"
proof -
  have retry: "obs (SandboxCore.more v') = obs (SandboxCore.more v)"
    if "(x, v') = retryUnestablished call (envSleep env) noSignal v" for x v v'
    using retryDelays_silent [of "\<lambda>w. obs (SandboxCore.more w)" call "envSleep env" CONNECT_RETRY_DELAYS_MS noSignal v]
      call silent_pieces(6) [OF silent] that by (simp add: retryUnestablished_def) (metis snd_conv)
  note once = callUnaryOnce_silent [OF silent call]
  from assms(3) [unfolded callUnaryPlain_def] show ?thesis
    by (cases rule: callUnaryWith_cases) (auto dest!: once reconnect_silent [OF _ silent] retry)
qed

lemma reopenAfter_silent:
  assumes silent: "silentEnv env obs" and reopen: "reopenAfterDeadlinePause env g w = Some (b, w')"
  shows "obs (SandboxCore.more w') = obs (SandboxCore.more w)"
proof -
  have "obs (SandboxCore.more (snd (envSetTimeout env ms v))) = obs (SandboxCore.more v)" for ms v
    using silent by (simp add: silentEnv_def)
  note plain = callUnaryPlain_silent [OF silent this]
  obtain r w1 where probe: "probeHealth env (min (maxRpcTimeoutMs ReadinessPoll) (requestTimeoutMs w)) noSignal w = (r, w1)"
    by fastforce
  have w1: "obs (SandboxCore.more w1) = obs (SandboxCore.more w)" using probeHealth_silent [OF silent probe] .
  show ?thesis
  proof (cases r)
    case (Inr response)
    define w2 where "w2 = (case response of None \<Rightarrow> w1 | Some h \<Rightarrow> recordHealth env h w1)"
    have w2: "obs (SandboxCore.more w2) = obs (SandboxCore.more w)" using w1 by (simp add: w2_def split: option.split)
    from reopen w2 show ?thesis
      unfolding reopenAfterDeadlinePause_def probe Inr prod.case sum.case Let_def w2_def [symmetric]
      by (auto simp: bind_eq_Some_conv split: if_splits option.splits dest!: plain) (auto split: sum.splits)
  qed (use reopen probe w1 in \<open>simp add: reopenAfterDeadlinePause_def\<close>)
qed

lemma reopened_silent:
  assumes silent: "silentEnv env obs" and "reopenedAfterDeadlinePause env e seen w = Some (b, w')"
  shows "obs (SandboxCore.more w') = obs (SandboxCore.more w)"
  using assms(2)
  by (auto simp: reopenedAfterDeadlinePause_def bind_eq_Some_conv split: if_splits option.splits
      dest!: reopenAfter_silent [OF silent] silent_pieces(5) [OF silent])

text \<open>An answer after which a call may be sent again.\<close>

definition resendable :: "Thrown \<Rightarrow> bool" where
  "resendable e \<longleftrightarrow> isConnectionNotEstablished e \<or> isProxyForbidden e \<or> isSandboxTimeout e \<or> isReconnectable e"

text \<open>A run of a call over the record \<open>sent\<close> of its answers: at most \<open>n\<close> of them before the last one,
  each with an error after which it may be sent again.\<close>

definition sends :: "('m \<Rightarrow> (Thrown + 'a) list) \<Rightarrow> nat \<Rightarrow> 'm SandboxCore_scheme \<Rightarrow> (Thrown + 'a) \<Rightarrow> 'm SandboxCore_scheme \<Rightarrow> bool" where
  "sends sent n w x w' \<longleftrightarrow> (\<exists>es. sent (SandboxCore.more w') = sent (SandboxCore.more w) @ map Inl es @ [x] \<and>
     length es \<le> n \<and> list_all resendable es)"

lemma sends_again:
  assumes "sends sent n w (Inl e) w1" "resendable e" "sent (SandboxCore.more w2) = sent (SandboxCore.more w1)"
    "sends sent m w2 x w3" "n + m + 1 \<le> k"
  shows "sends sent k w x w3"
proof -
  obtain es where es: "sent (SandboxCore.more w1) = sent (SandboxCore.more w) @ map Inl es @ [Inl e]" "length es \<le> n" "list_all resendable es"
    using assms(1) by (auto simp: sends_def)
  obtain es' where es': "sent (SandboxCore.more w3) = sent (SandboxCore.more w2) @ map Inl es' @ [x]" "length es' \<le> m" "list_all resendable es'"
    using assms(4) by (auto simp: sends_def)
  show ?thesis
    unfolding sends_def using es es' assms(2,3,5) by (intro exI [of _ "es @ e # es'"]) simp
qed

lemma sends_same: "sends sent n w x w1 \<Longrightarrow> sent (SandboxCore.more w2) = sent (SandboxCore.more w1) \<Longrightarrow> n \<le> k \<Longrightarrow> sends sent k w x w2"
  by (auto simp: sends_def)

lemma retryUnestablished_sends:
  assumes silent: "silentEnv env sent" and call: "\<And>w. sent (SandboxCore.more (snd (call w))) = sent (SandboxCore.more w) @ [fst (call w)]"
    and "retryUnestablished call (envSleep env) noSignal w = (r, w')"
  shows "sends sent (length CONNECT_RETRY_DELAYS_MS) w r w'"
proof -
  have "list_all resendable es" if "list_all isConnectionNotEstablished es" for es
    using that by (induction es) (auto simp: resendable_def)
  with retryDelays_sent [of "\<lambda>w. sent (SandboxCore.more w)" call "envSleep env" CONNECT_RETRY_DELAYS_MS noSignal w r w']
    call silent_pieces(6) [OF silent] assms(3)
  show ?thesis unfolding sends_def retryUnestablished_def by (fastforce simp: noSignal_def)
qed

lemma callUnaryOnce_sends:
  assumes silent: "silentEnv env sent" and call: "\<And>w. sent (SandboxCore.more (snd (call w))) = sent (SandboxCore.more w) @ [fst (call w)]"
    and once: "callUnaryOnce env True noSignal call w = (r, w')"
  shows "\<exists>x. sends sent (2 * length CONNECT_RETRY_DELAYS_MS + 1) w x w' \<and> (r = x \<or> (\<exists>e e'. x = Inl e \<and> isProxyForbidden e \<and> r = Inl e'))"
proof -
  obtain r1 w1 where first: "retryUnestablished call (envSleep env) noSignal w = (r1, w1)" by fastforce
  obtain f w2 where refresh: "envRefreshAll env w1 = (f, w2)" by fastforce
  obtain r3 w3 where second: "retryUnestablished call (envSleep env) noSignal w2 = (r3, w3)" by fastforce
  have sent1: "sends sent (length CONNECT_RETRY_DELAYS_MS) w r1 w1" using retryUnestablished_sends [OF silent call first] .
  have sent3: "sends sent (length CONNECT_RETRY_DELAYS_MS) w2 r3 w3" using retryUnestablished_sends [OF silent call second] .
  have same: "sent (SandboxCore.more w2) = sent (SandboxCore.more w1)" using silent_pieces(3) [OF silent refresh] .
  show ?thesis
  proof (cases "\<exists>e. r1 = Inl e \<and> isProxyForbidden e")
    case False
    then have "r = r1 \<and> w' = w1" using once by (auto simp: callUnaryOnce_def first split: sum.splits if_splits)
    with sends_same [OF sent1 refl, of "2 * length CONNECT_RETRY_DELAYS_MS + 1"] show ?thesis by auto
  next
    case True
    then obtain e where e: "r1 = Inl e" "isProxyForbidden e" by blast
    have again: "sends sent (2 * length CONNECT_RETRY_DELAYS_MS + 1) w r3 w3"
      using sends_again [OF sent1 [unfolded e(1)] _ same sent3] e(2) by (simp add: resendable_def)
    show ?thesis
    proof (cases f)
      case (Inl e')
      then have "w' = w2 \<and> r = Inl e'" using once e by (simp add: callUnaryOnce_def first refresh)
      with sends_same [OF sent1 same, of "2 * length CONNECT_RETRY_DELAYS_MS + 1"] e show ?thesis by auto
    next
      case (Inr u)
      then have "r = r3 \<and> w' = w3" using once e by (simp add: callUnaryOnce_def first refresh second)
      with again show ?thesis by blast
    qed
  qed
qed

lemma reopened_timeout: "reopenedAfterDeadlinePause env e seen w = Some (True, w') \<Longrightarrow> isSandboxTimeout e"
  by (auto simp: reopenedAfterDeadlinePause_def split: if_splits)

lemma attempts_bound: "length CONNECT_RETRY_DELAYS_MS = 5"
  by (simp add: CONNECT_RETRY_DELAYS_MS_def)

lemma callUnary_sends:
  assumes silent: "silentEnv env sent" and call: "\<And>w. sent (SandboxCore.more (snd (call w))) = sent (SandboxCore.more w) @ [fst (call w)]"
    and run: "callUnary env call w = Some (r, w')"
  shows "\<exists>x. sends sent 23 w x w' \<and> (r = x \<or> (\<exists>e e'. x = Inl e \<and> (isProxyForbidden e \<or> isReconnectable e) \<and> r = Inl e'))"
proof -
  note once = callUnaryOnce_sends [OF silent call, unfolded attempts_bound]
  obtain r1 w1 where first: "callUnaryOnce env True noSignal call w = (r1, w1)" by fastforce
  obtain x where x: "sends sent 11 w x w1" "r1 = x \<or> (\<exists>e e'. x = Inl e \<and> isProxyForbidden e \<and> r1 = Inl e')" using once [OF first] by auto
  have later: "sends sent 23 w x v" if "sent (SandboxCore.more v) = sent (SandboxCore.more w1)" for v
    using sends_same [OF x(1) that] by simp
  have again: "sends sent 23 w y w3" if prem: "r1 = Inl e" "isSandboxTimeout e \<or> isReconnectable e"
      "sent (SandboxCore.more w2) = sent (SandboxCore.more w1)" "sends sent 11 w2 y w3" for e w2 y w3
  proof -
    obtain e' where e': "x = Inl e'" "resendable e'" using x(2) prem(1,2) by (auto simp: resendable_def)
    show ?thesis using sends_again [OF x(1) [unfolded e'(1)] e'(2) prem(3,4)] by simp
  qed
  from run [unfolded callUnary_def] show ?thesis
  proof (cases rule: callUnaryWith_cases)
    case (Answered v w1')
    then show ?thesis using first x later [of w1] by auto
  next
    case (Reopened e w1' w2)
    obtain y where "sends sent 11 w2 y w'" "r = y \<or> (\<exists>e e'. y = Inl e \<and> isProxyForbidden e \<and> r = Inl e')"
      using once [of w2 r w'] Reopened(3) by auto
    then show ?thesis
      using again [of e w2 y w'] Reopened(1,2) first reopened_timeout reopened_silent [OF silent] by fastforce
  next
    case (Thrown e w1' w2)
    then show ?thesis using first x later [of w2] reopened_silent [OF silent] by fastforce
  next
    case (Broken e w1' w2 e' w3)
    then show ?thesis using first x later [of w3] reopened_silent [OF silent Broken(2)] reconnect_silent [OF Broken(4) silent] by auto
  next
    case (Lost e w1' w2 out w3)
    then show ?thesis using first x later [of w3] reopened_silent [OF silent Lost(2)] reconnect_silent [OF Lost(4) silent] by auto
  next
    case (Resent e w1' w2 out w3)
    have "sends sent 11 w3 r w'"
      using retryUnestablished_sends [OF silent call, of w3 r w'] Resent(6) sends_same [of sent 5 w3 r w' w' 11]
      by (simp add: attempts_bound)
    then show ?thesis
      using again [of e w3 r w'] Resent(1,3) first reopened_silent [OF silent Resent(2)] reconnect_silent [OF Resent(4) silent] by auto
  qed
qed

text \<open>C23: how often \<open>callUnary\<close> sends a call.  Take any call that records its answers, in surroundings that do
  not touch the record.  A run that returns sent the call at most twenty-four times, and every answer
  but the last was one after which it is safe to send again: a connection that was not established, a 403 of
  the proxy, a timeout of the sandbox or a cut the handle reconnects after.  What the run returns is its
  last answer, or another error when that was a 403 or a reconnectable cut.  So a value is returned as it
  came and every other error is thrown as it came, without a resend.\<close>

theorem callUnary_resends:
  assumes "silentEnv env sent"
    and "\<And>w. sent (SandboxCore.more (snd (call w))) = sent (SandboxCore.more w) @ [fst (call w)]"
    and "callUnary env call w = Some (r, w')"
  shows "\<exists>es x. sent (SandboxCore.more w') = sent (SandboxCore.more w) @ map Inl es @ [x] \<and> length es < 24 \<and>
    list_all (\<lambda>e. isConnectionNotEstablished e \<or> isProxyForbidden e \<or> isSandboxTimeout e \<or> isReconnectable e) es \<and>
    (r = x \<or> (\<exists>e e'. x = Inl e \<and> (isProxyForbidden e \<or> isReconnectable e) \<and> r = Inl e'))"
  using callUnary_sends [OF assms] unfolding sends_def resendable_def [abs_def] by (auto simp: less_Suc_eq_le)

text \<open>Surroundings where nothing else happens, with a call that the proxy rejects the first time.\<close>

definition ledgerEnv :: "(Thrown + nat) list CoreEnv" where
  "ledgerEnv =
     \<lparr>envHealth = (\<lambda>timeoutMs w. (Inr (demoHealth 0), w)), envSetTimeout = (\<lambda>ms w. (Inl (ValueThrown ''none''), w)),
      envRefreshAll = (\<lambda>w. (Inr (), w)), envGetMicrovm = (\<lambda>w. (Inr demoInfo, w)),
      envSuspendMicrovm = (\<lambda>w. (Inr True, w)), envTerminateMicrovm = (\<lambda>w. (Inr (), w)),
      envSleep = (\<lambda>d w. w), envWaitForResume = (\<lambda>d w. w), envAwaitLock = (\<lambda>w. w), envAwaitReopen = (\<lambda>w. (False, w)),
      envMonotonic = (\<lambda>m. 0), envDateNow = (\<lambda>m. 0), envRandom = (\<lambda>m. 0)\<rparr>"

definition ledgerCall :: "((Thrown + nat) list, nat) rpc" where
  "ledgerCall w =
     (let a = (if SandboxCore.more w = [] then Inl (ConnectThrown \<lparr>connectCode = PermissionDenied,
                 rawMessage = PROXY_FORBIDDEN_MESSAGE, connectCause = None\<rparr>) else Inr 7)
      in (a, SandboxCore.more_update (\<lambda>l. l @ [a]) w))"

definition ledgerCore :: "(Thrown + nat) list SandboxCore_scheme" where
  "ledgerCore = SandboxCore.extend (SandboxCore.truncate demoCore) []"

lemma ledgerEnv_silent: "silentEnv ledgerEnv (\<lambda>l. l)"
  by (simp add: silentEnv_def ledgerEnv_def)

lemma ledger_records: "SandboxCore.more (snd (ledgerCall w)) = SandboxCore.more w @ [fst (ledgerCall w)]"
  by (simp add: ledgerCall_def Let_def)

lemma ledger_run: "\<exists>w'. callUnary ledgerEnv ledgerCall ledgerCore = Some (Inr 7, w')"
  by (simp add: callUnary_def callUnaryWith_def callUnaryOnce_def retryUnestablished_def CONNECT_RETRY_DELAYS_MS_def ledgerCall_def
      ledgerCore_def SandboxCore.defs Let_def ledgerEnv_def isConnectionNotEstablished_def isProxyForbidden_def asConnectError_def
      PROXY_FORBIDDEN_MESSAGE_def)

theorem callUnary_resends_witness:
  "\<exists>w' es. callUnary ledgerEnv ledgerCall ledgerCore = Some (Inr 7, w') \<and>
     SandboxCore.more w' = map Inl es @ [Inr 7] \<and> length es < 24"
proof -
  obtain w' where run: "callUnary ledgerEnv ledgerCall ledgerCore = Some (Inr 7, w')" using ledger_run by blast
  have "SandboxCore.more ledgerCore = []" by (simp add: ledgerCore_def SandboxCore.defs)
  with callUnary_resends [OF ledgerEnv_silent ledger_records run] run show ?thesis by (elim exE conjE) auto
qed

end
