(* ===== verification/Access_Token.thy ===== *)
theory Access_Token
  imports Prelude "HOL-Library.Word"
begin

text \<open>
  Access tokens of the agent (\<open>payload.ts\<close>): the token is the base64url text, without padding, of a
  random secret, and the agent is given only the hash of the secret.  Text is a list of code units.
  \<open>Buffer.toString("base64url")\<close> and \<open>Buffer.from(text, "base64url")\<close> are written out on groups of
  three bytes and four digits of six bits.
\<close>

section \<open>Base64url\<close>

fun sextets :: "nat list \<Rightarrow> nat list" where
  "sextets (a # b # c # rest) =
     [a div 4, (a mod 4) * 16 + b div 16, (b mod 16) * 4 + c div 64, c mod 64] @ sextets rest"
| "sextets [a, b] = [a div 4, (a mod 4) * 16 + b div 16, (b mod 16) * 4]"
| "sextets [a] = [a div 4, (a mod 4) * 16]"
| "sextets [] = []"

fun octets :: "nat list \<Rightarrow> nat list" where
  "octets (p # q # r # s # rest) = [p * 4 + q div 16, (q mod 16) * 16 + r div 4, (r mod 4) * 64 + s] @ octets rest"
| "octets [p, q, r] = [p * 4 + q div 16, (q mod 16) * 16 + r div 4]"
| "octets [p, q] = [p * 4 + q div 16]"
| "octets [p] = []"
| "octets [] = []"

definition base64Digit :: "nat \<Rightarrow> nat" where
  "base64Digit n = (if n < 26 then 65 + n else if n < 52 then 71 + n else if n < 62 then n - 4 else if n = 62 then 45 else 95)"

text \<open>The value of a code unit of \<open>BASE64URL_ALPHABET\<close>.\<close>

definition base64Value :: "nat \<Rightarrow> nat option" where
  "base64Value c =
     (if 65 \<le> c \<and> c \<le> 90 then Some (c - 65)
      else if 97 \<le> c \<and> c \<le> 122 then Some (c - 71)
      else if 48 \<le> c \<and> c \<le> 57 then Some (c + 4)
      else if c = 45 then Some 62 else if c = 95 then Some 63 else None)"

text \<open>\<open>Buffer.from(text, "base64url")\<close>, for text of the alphabet.\<close>

definition bufferFromBase64url :: "codepoints \<Rightarrow> 8 word list" where
  "bufferFromBase64url text = map of_nat (octets (List.map_filter base64Value text))"

section \<open>Tokens\<close>

datatype TokenError = NotBase64url | TokenTooShort

definition ACCESS_TOKEN_MIN_BYTES :: nat where "ACCESS_TOKEN_MIN_BYTES = 16"
definition ACCESS_TOKEN_BYTES :: nat where "ACCESS_TOKEN_BYTES = 32"
definition BASE64_PADDING :: nat where "BASE64_PADDING = 61"

definition stripTrailing :: "'a list \<Rightarrow> 'a \<Rightarrow> 'a list" where
  "stripTrailing text c = rev (dropWhile (\<lambda>x. x = c) (rev text))"

definition encodeAccessToken :: "8 word list \<Rightarrow> codepoints" where
  "encodeAccessToken secret = map base64Digit (sextets (map unat secret))"

text \<open>\<open>randomBytes(n)\<close> is a parameter.\<close>

definition generateAccessToken :: "(nat \<Rightarrow> 8 word list) \<Rightarrow> codepoints" where
  "generateAccessToken randomBytes = encodeAccessToken (randomBytes ACCESS_TOKEN_BYTES)"

definition decodeAccessToken :: "codepoints \<Rightarrow> TokenError + 8 word list" where
  "decodeAccessToken accessToken =
     (let stripped = stripTrailing accessToken BASE64_PADDING
      in if stripped = [] \<or> \<not> list_all (\<lambda>c. base64Value c \<noteq> None) stripped then Inl NotBase64url
         else let secret = bufferFromBase64url stripped
              in if secret = [] \<or> encodeAccessToken secret \<noteq> stripped then Inl NotBase64url
                 else if length secret < ACCESS_TOKEN_MIN_BYTES then Inl TokenTooShort
                 else Inr secret)"

definition validateAccessToken :: "codepoints \<Rightarrow> TokenError + codepoints" where
  "validateAccessToken accessToken = andThen (decodeAccessToken accessToken) (\<lambda>_. Inr accessToken)"

text \<open>The hash, in hexadecimal, is a parameter.\<close>

definition accessTokenSha256 :: "(8 word list \<Rightarrow> codepoints) \<Rightarrow> codepoints \<Rightarrow> TokenError + codepoints" where
  "accessTokenSha256 sha256 accessToken = andThen (decodeAccessToken accessToken) (\<lambda>secret. Inr (sha256 secret))"

section \<open>Tokens and secrets\<close>

lemma high_low:
  fixes x y :: nat
  assumes "y < m"
  shows "(x * m + y) div m = x" "(x * m + y) mod m = y"
  using assms by simp_all

lemma byte_parts:
  fixes b :: nat
  assumes "b < 256"
  shows "b div 16 < 16" "b div 64 < 4" "b div 4 < 64" "x mod 4 * 16 + b div 16 < 64" "x mod 16 * 4 + b div 64 < 64"
proof -
  show "b div 16 < 16" "b div 64 < 4" "b div 4 < 64" using assms by (simp_all add: less_mult_imp_div_less)
  moreover have "x mod 4 \<le> 3" "x mod 16 \<le> 15" by simp_all
  ultimately show "x mod 4 * 16 + b div 16 < 64" "x mod 16 * 4 + b div 64 < 64" by linarith+
qed

lemma octets_sextets: "list_all (\<lambda>b. b < 256) bs \<Longrightarrow> octets (sextets bs) = bs"
  by (induction bs rule: sextets.induct) (simp_all add: high_low byte_parts)

lemma sextets_range: "list_all (\<lambda>b. b < 256) bs \<Longrightarrow> list_all (\<lambda>n. n < 64) (sextets bs)"
proof (induction bs rule: sextets.induct)
  case (2 a b)
  then show ?case using byte_parts(5) [of 0 b] by (simp add: byte_parts)
next
  case (3 a)
  then show ?case using byte_parts(4) [of 0 a] by (simp add: byte_parts)
qed (simp_all add: byte_parts)

lemma base64Value_digit: "n < 64 \<Longrightarrow> base64Value (base64Digit n) = Some n"
  by (auto simp: base64Value_def base64Digit_def)

lemma base64Value_padding [simp]: "base64Value BASE64_PADDING = None"
  by (simp add: base64Value_def BASE64_PADDING_def)

lemma map_filter_digits: "list_all (\<lambda>n. n < 64) ns \<Longrightarrow> List.map_filter base64Value (map base64Digit ns) = ns"
  by (induction ns) (simp_all add: map_filter_simps base64Value_digit)

lemma secret_bytes: "list_all (\<lambda>b. b < 256) (map unat (secret :: 8 word list))"
  using unsigned_less [of "w :: 8 word" for w] by (auto simp: list_all_iff)

lemma decode_encode: "bufferFromBase64url (encodeAccessToken secret) = secret"
  using secret_bytes [of secret]
  by (simp add: bufferFromBase64url_def encodeAccessToken_def map_filter_digits sextets_range octets_sextets comp_def)

lemma encode_alphabet: "list_all (\<lambda>c. base64Value c \<noteq> None) (encodeAccessToken secret)"
  using sextets_range [OF secret_bytes [of secret]] by (auto simp: encodeAccessToken_def list_all_iff base64Value_digit)

lemma encode_Nil [simp]: "encodeAccessToken secret = [] \<longleftrightarrow> secret = []"
  unfolding encodeAccessToken_def by (cases "map unat secret" rule: sextets.cases) auto

lemma stripTrailing_snoc: "stripTrailing (xs @ [x]) c = (if x = c then stripTrailing xs c else xs @ [x])"
  by (simp add: stripTrailing_def)

lemma stripTrailing_padded:
  assumes "xs = [] \<or> last xs \<noteq> c"
  shows "stripTrailing (xs @ replicate k c) c = xs"
proof (induction k)
  case 0
  with assms show ?case by (cases xs rule: rev_cases) (auto simp: stripTrailing_def)
next
  case (Suc k)
  have "xs @ replicate (Suc k) c = (xs @ replicate k c) @ [c]" by (simp add: replicate_append_same)
  with Suc show ?case by (simp only: stripTrailing_snoc simp_thms if_True)
qed

lemma stripTrailing_split: "\<exists>k. xs = stripTrailing xs c @ replicate k c"
proof (induction xs rule: rev_induct)
  case (snoc x xs)
  then obtain k where k: "xs = stripTrailing xs c @ replicate k c" by blast
  show ?case
  proof (cases "x = c")
    case True
    have "xs @ [x] = stripTrailing (xs @ [x]) c @ replicate (Suc k) c"
      using True by (subst k) (simp add: stripTrailing_snoc replicate_append_same)
    then show ?thesis ..
  qed (auto simp: stripTrailing_snoc intro: exI [of _ 0])
qed (simp add: stripTrailing_def)

lemma strip_encoded: "stripTrailing (encodeAccessToken secret @ replicate k BASE64_PADDING) BASE64_PADDING = encodeAccessToken secret"
proof (rule stripTrailing_padded)
  have "base64Value (last (encodeAccessToken secret)) \<noteq> None" if "encodeAccessToken secret \<noteq> []"
    using encode_alphabet [of secret] last_in_set [OF that] by (simp add: list_all_iff)
  then show "encodeAccessToken secret = [] \<or> last (encodeAccessToken secret) \<noteq> BASE64_PADDING" by fastforce
qed

lemma decode_encoded:
  "ACCESS_TOKEN_MIN_BYTES \<le> length secret \<Longrightarrow> decodeAccessToken (encodeAccessToken secret @ replicate k BASE64_PADDING) = Inr secret"
  using encode_alphabet [of secret]
  by (auto simp: decodeAccessToken_def Let_def strip_encoded decode_encode ACCESS_TOKEN_MIN_BYTES_def)

text \<open>C14: the accepted access tokens.  A token is accepted and stands for a secret exactly when it is the
  base64url text of that secret, with any amount of padding after it, and the secret has at least
  sixteen bytes.  So encoding followed by decoding gives every such secret back, and two accepted
  tokens of one secret differ only in their padding.\<close>

theorem decodeAccessToken_iff:
  "decodeAccessToken token = Inr secret \<longleftrightarrow>
     (\<exists>k. token = encodeAccessToken secret @ replicate k BASE64_PADDING) \<and> ACCESS_TOKEN_MIN_BYTES \<le> length secret"
proof
  assume "decodeAccessToken token = Inr secret"
  then have "encodeAccessToken secret = stripTrailing token BASE64_PADDING" "ACCESS_TOKEN_MIN_BYTES \<le> length secret"
    by (auto simp: decodeAccessToken_def Let_def split: if_splits)
  with stripTrailing_split [of token BASE64_PADDING]
  show "(\<exists>k. token = encodeAccessToken secret @ replicate k BASE64_PADDING) \<and> ACCESS_TOKEN_MIN_BYTES \<le> length secret" by simp
next
  assume "(\<exists>k. token = encodeAccessToken secret @ replicate k BASE64_PADDING) \<and> ACCESS_TOKEN_MIN_BYTES \<le> length secret"
  then show "decodeAccessToken token = Inr secret" using decode_encoded by blast
qed

end
