(* ===== verification/Js_Json.thy ===== *)
theory Js_Json
  imports Js_Sort
begin

text \<open>
  JavaScript objects as far as their text is concerned: the order in which the language lists the
  properties of an object, \<open>JSON.stringify\<close>, and the two functions the SDK puts around it
  (\<open>sortedKeys\<close> and \<open>asciiJson\<close> of \<open>payload.ts\<close>).  A reader for the part of JSON that they write says
  what the text means; the text of every value is read back as that value.
\<close>

section \<open>Objects\<close>

text \<open>An object is the list of its properties in the order they were created, with distinct keys.\<close>

datatype Json = JsonNumber int | JsonString codepoints | JsonBool bool | JsonObject "(codepoints \<times> Json) list"

text \<open>A key that is an array index: a number below \<open>2^32 - 1\<close> in its shortest decimal form.\<close>

definition decimalDigit :: "nat \<Rightarrow> bool" where "decimalDigit c \<longleftrightarrow> 48 \<le> c \<and> c \<le> 57"

definition decimalValue :: "codepoints \<Rightarrow> nat" where "decimalValue k = parseDigits 10 (map char_of k)"

definition arrayIndex :: "codepoints \<Rightarrow> bool" where
  "arrayIndex k \<longleftrightarrow> k \<noteq> [] \<and> list_all decimalDigit k \<and> (hd k \<noteq> 48 \<or> k = [48]) \<and> decimalValue k < 4294967295"

text \<open>\<open>Object.entries(value)\<close>: array indices come first, by their number.\<close>

definition ownProperties :: "(codepoints \<times> 'a) list \<Rightarrow> (codepoints \<times> 'a) list" where
  "ownProperties ps =
     sort_key (\<lambda>p. decimalValue (fst p)) (filter (\<lambda>p. arrayIndex (fst p)) ps) @ filter (\<lambda>p. \<not> arrayIndex (fst p)) ps"

lemma ownProperties_mset [simp]: "mset (ownProperties ps) = mset ps"
  by (simp add: ownProperties_def)

lemma ownProperties_set [simp]: "set (ownProperties ps) = set ps"
  by (auto simp: ownProperties_def)

lemma map_of_same_entries:
  assumes "mset ps = mset qs" "distinct (map fst ps)"
  shows "map_of ps = map_of qs" "distinct (map fst qs)"
proof -
  have "mset (map fst ps) = mset (map fst qs)" using assms(1) by simp
  then show "distinct (map fst qs)" using assms(2) mset_eq_imp_distinct_iff by blast
  with assms show "map_of ps = map_of qs" by (metis map_of_inject_set mset_eq_setD)
qed

lemma ownProperties_map_of:
  "distinct (map fst ps) \<Longrightarrow> map_of (ownProperties ps) = map_of ps"
  "distinct (map fst ps) \<Longrightarrow> distinct (map fst (ownProperties ps))"
  using map_of_same_entries [of ps "ownProperties ps"] by simp_all

lemma json_member_size: "p \<in> set ps \<Longrightarrow> size (snd p) < size (JsonObject ps)"
  by (induction ps) auto

section \<open>Text of a value\<close>

text \<open>\<open>n.toString(16).padStart(4, "0")\<close> after \<open>\u\<close>.\<close>

definition unicodeEscape :: "nat \<Rightarrow> codepoints" where
  "unicodeEscape c = (let hex = units (showDigits 16 c) in [92, 117] @ replicate (4 - length hex) 48 @ hex)"

definition highSurrogate :: "nat \<Rightarrow> bool" where "highSurrogate c \<longleftrightarrow> 55296 \<le> c \<and> c \<le> 56319"
definition lowSurrogate :: "nat \<Rightarrow> bool" where "lowSurrogate c \<longleftrightarrow> 56320 \<le> c \<and> c \<le> 57343"

text \<open>The escapes of one letter: backspace, tab, line feed, form feed, carriage return, quote and
  backslash.\<close>

definition letterEscapes :: "(nat \<times> nat) list" where
  "letterEscapes = [(8, 98), (9, 116), (10, 110), (12, 102), (13, 114), (34, 34), (92, 92)]"

definition quoteUnit :: "nat \<Rightarrow> codepoints" where
  "quoteUnit c =
     (case map_of letterEscapes c of
        Some l \<Rightarrow> [92, l]
      | None \<Rightarrow> if c < 32 \<or> highSurrogate c \<or> lowSurrogate c then unicodeEscape c else [c])"

text \<open>\<open>QuoteJSONString\<close> without its quotes: only a surrogate outside a pair is escaped.\<close>

fun quoteBody :: "codepoints \<Rightarrow> codepoints" where
  "quoteBody [] = []"
| "quoteBody [c] = quoteUnit c"
| "quoteBody (c # d # rest) =
     (if highSurrogate c \<and> lowSurrogate d then [c, d] @ quoteBody rest else quoteUnit c @ quoteBody (d # rest))"

definition quoteText :: "codepoints \<Rightarrow> codepoints" where
  "quoteText s = [34] @ quoteBody s @ [34]"

definition numberText :: "int \<Rightarrow> codepoints" where
  "numberText n = (if n < 0 then [45] else []) @ units (showDigits 10 (nat \<bar>n\<bar>))"

function jsonStringify :: "Json \<Rightarrow> codepoints" where
  "jsonStringify (JsonNumber n) = numberText n"
| "jsonStringify (JsonString s) = quoteText s"
| "jsonStringify (JsonBool b) = units (if b then ''true'' else ''false'')"
| "jsonStringify (JsonObject ps) =
     [123] @ joinWith [44] (map (\<lambda>p. quoteText (fst p) @ [58] @ jsonStringify (snd p)) (ownProperties ps)) @ [125]"
  by pat_completeness auto
termination
  by (relation "measure size") (auto dest: json_member_size)

text \<open>The replacement of \<open>asciiJson\<close>, one code unit at a time.\<close>

definition asciiUnit :: "nat \<Rightarrow> codepoints" where
  "asciiUnit c = (if 128 \<le> c then unicodeEscape c else [c])"

definition asciiJson :: "Json \<Rightarrow> codepoints" where
  "asciiJson v = concat (map asciiUnit (jsonStringify v))"

text \<open>\<open>a < b\<close> on strings.\<close>

fun unitsLess :: "codepoints \<Rightarrow> codepoints \<Rightarrow> bool" where
  "unitsLess xs [] = False"
| "unitsLess [] (y # ys) = True"
| "unitsLess (x # xs) (y # ys) = (x < y \<or> x = y \<and> unitsLess xs ys)"

definition compareEntries :: "codepoints \<times> 'a \<Rightarrow> codepoints \<times> 'a \<Rightarrow> int" where
  "compareEntries p q = (if unitsLess (fst p) (fst q) then -1 else if unitsLess (fst q) (fst p) then 1 else 0)"

function sortedKeys :: "Json \<Rightarrow> Json" where
  "sortedKeys (JsonNumber n) = JsonNumber n"
| "sortedKeys (JsonString s) = JsonString s"
| "sortedKeys (JsonBool b) = JsonBool b"
| "sortedKeys (JsonObject ps) =
     JsonObject (map (\<lambda>p. (fst p, sortedKeys (snd p))) (jsSort compareEntries (ownProperties ps)))"
  by pat_completeness auto
termination
  by (relation "measure size") (auto dest: json_member_size)

text \<open>What \<open>text.trim()\<close> takes away.\<close>

definition jsSpace :: "nat \<Rightarrow> bool" where
  "jsSpace c \<longleftrightarrow> 9 \<le> c \<and> c \<le> 13 \<or> c \<in> {32, 160, 5760, 8232, 8233, 8239, 8287, 12288, 65279} \<or> 8192 \<le> c \<and> c \<le> 8202"

section \<open>Reading the text back\<close>

definition hexValue :: "codepoints \<Rightarrow> nat option" where
  "hexValue text =
     (if length text = 4 \<and> list_all (\<lambda>c. c < 256 \<and> isHexDigit (char_of c)) text then Some (parseDigits 16 (map char_of text))
      else None)"

text \<open>The rest of a string after its opening quote.\<close>

fun readBody :: "nat \<Rightarrow> codepoints \<Rightarrow> (codepoints \<times> codepoints) option" where
  "readBody 0 text = None"
| "readBody (Suc n) text =
     (case text of
        [] \<Rightarrow> None
      | c # rest \<Rightarrow>
          if c = 34 then Some ([], rest)
          else if c < 32 then None
          else if c \<noteq> 92 then map_option (apfst (Cons c)) (readBody n rest)
          else (case rest of
                  [] \<Rightarrow> None
                | l # rest' \<Rightarrow>
                    if l = 117
                    then (case hexValue (take 4 rest') of
                            None \<Rightarrow> None
                          | Some u \<Rightarrow> map_option (apfst (Cons u)) (readBody n (drop 4 rest')))
                    else (case map_of (map (\<lambda>(u, l). (l, u)) letterEscapes) l of
                            None \<Rightarrow> None
                          | Some u \<Rightarrow> map_option (apfst (Cons u)) (readBody n rest'))))"

definition readNumber :: "codepoints \<Rightarrow> int \<times> codepoints" where
  "readNumber text = (int (decimalValue (takeWhile decimalDigit text)), dropWhile decimalDigit text)"

fun readValue :: "nat \<Rightarrow> codepoints \<Rightarrow> (Json \<times> codepoints) option"
  and readMembers :: "nat \<Rightarrow> codepoints \<Rightarrow> ((codepoints \<times> Json) list \<times> codepoints) option" where
  "readValue 0 text = None"
| "readValue (Suc n) text =
     (case text of
        [] \<Rightarrow> None
      | c # rest \<Rightarrow>
          if c = 34 then map_option (apfst JsonString) (readBody n rest)
          else if c = 123 then
            (if take 1 rest = [125] then Some (JsonObject [], drop 1 rest)
             else map_option (apfst JsonObject) (readMembers n rest))
          else if c = 116 then (if take 3 rest = units ''rue'' then Some (JsonBool True, drop 3 rest) else None)
          else if c = 102 then (if take 4 rest = units ''alse'' then Some (JsonBool False, drop 4 rest) else None)
          else if c = 45 then Some (map_prod (\<lambda>m. JsonNumber (- m)) id (readNumber rest))
          else if decimalDigit c then Some (map_prod JsonNumber id (readNumber text))
          else None)"
| "readMembers 0 text = None"
| "readMembers (Suc n) text =
     (if take 1 text \<noteq> [34] then None
      else case readBody n (drop 1 text) of
        None \<Rightarrow> None
      | Some (k, rest) \<Rightarrow>
          if take 1 rest \<noteq> [58] then None
          else (case readValue n (drop 1 rest) of
                  None \<Rightarrow> None
                | Some (v, rest') \<Rightarrow>
                    if take 1 rest' = [125] then Some ([(k, v)], drop 1 rest')
                    else if take 1 rest' = [44] then map_option (apfst (Cons (k, v))) (readMembers n (drop 1 rest'))
                    else None))"

definition readJson :: "codepoints \<Rightarrow> Json option" where
  "readJson text = (case readValue (Suc (length text)) text of Some (v, []) \<Rightarrow> Some v | _ \<Rightarrow> None)"

text \<open>JavaScript text: every code unit has sixteen bits.\<close>

definition jsText :: "codepoints \<Rightarrow> bool" where "jsText s = list_all (\<lambda>c. c < 65536) s"

function jsonOk :: "Json \<Rightarrow> bool" where
  "jsonOk (JsonNumber n) = True"
| "jsonOk (JsonString s) = jsText s"
| "jsonOk (JsonBool b) = True"
| "jsonOk (JsonObject ps) = list_all (\<lambda>p. jsText (fst p) \<and> jsonOk (snd p)) ps"
  by pat_completeness auto
termination
  by (relation "measure size") (auto dest: json_member_size)

text \<open>The value as it is listed: the properties in the order of the language.\<close>

function listed :: "Json \<Rightarrow> Json" where
  "listed (JsonNumber n) = JsonNumber n"
| "listed (JsonString s) = JsonString s"
| "listed (JsonBool b) = JsonBool b"
| "listed (JsonObject ps) = JsonObject (map (\<lambda>p. (fst p, listed (snd p))) (ownProperties ps))"
  by pat_completeness auto
termination
  by (relation "measure size") (auto dest: json_member_size)

lemma char_of_units [simp]: "map char_of (units s) = s"
  by (simp add: units_def comp_def)

lemma length_units [simp]: "length (units s) = length s"
  by (simp add: units_def)

lemma units_append [simp]: "units (s @ t) = units s @ units t"
  by (simp add: units_def)

lemma showDigits_at_most: "n < radix ^ Suc k \<Longrightarrow> 2 \<le> radix \<Longrightarrow> length (showDigits radix n) \<le> Suc k"
proof (induction k arbitrary: n)
  case 0
  then show ?case by (subst showDigits.simps) simp
next
  case (Suc k)
  have "n div radix < radix ^ Suc k" using Suc.prems by (simp add: less_mult_imp_div_less mult.commute)
  with Suc show ?case by (subst showDigits.simps) (auto simp: Suc_le_mono)
qed

lemma parseDigits_padded: "parseDigits radix (replicate k (CHR ''0'') @ s) = parseDigits radix s"
proof -
  have "foldl (\<lambda>n c. n * radix + digitValue c) 0 (replicate k (CHR ''0'')) = 0"
    by (induction k) (simp_all add: digitValue_def isDigit_def inRange_def)
  then show ?thesis by (simp add: parseDigits_def)
qed

lemma isHexDigit_code: "isHexDigit x \<Longrightarrow> 32 \<le> code x \<and> code x < 128"
  by (auto simp: isHexDigit_def isDigit_def inRange_def)

lemma unicodeEscape_reads:
  assumes "c < 65536"
  obtains h where "unicodeEscape c = [92, 117] @ h" "length h = 4" "hexValue h = Some c" "list_all (\<lambda>u. 32 \<le> u \<and> u < 128) h"
proof -
  define ds where "ds = replicate (4 - length (showDigits 16 c)) (CHR ''0'') @ showDigits 16 c"
  have len: "length ds = 4" using showDigits_at_most [of c 16 3] assms by (simp add: ds_def)
  have "isHexDigit (CHR ''0'')" by code_simp
  then have hex: "\<forall>x \<in> set ds. isHexDigit x" using showDigits_hex [of _ c] by (auto simp: ds_def)
  then have code: "\<forall>x \<in> set ds. 32 \<le> code x \<and> code x < 128" using isHexDigit_code by blast
  have "parseDigits 16 ds = c" by (simp add: ds_def parseDigits_padded parseDigits_showDigits)
  moreover have "list_all (\<lambda>u. u < 256 \<and> isHexDigit (char_of u)) (units ds)"
    using hex code by (simp add: list_all_iff units_def)
  ultimately have "hexValue (units ds) = Some c" using len by (simp add: hexValue_def)
  moreover have "list_all (\<lambda>u. 32 \<le> u \<and> u < 128) (units ds)" using code by (simp add: list_all_iff units_def)
  moreover have "unicodeEscape c = [92, 117] @ units ds" by (simp add: unicodeEscape_def ds_def Let_def) (simp add: units_def)
  ultimately show ?thesis using len by (intro that [of "units ds"]) simp_all
qed

text \<open>What a code unit of a string becomes.\<close>

definition unitText :: "nat \<Rightarrow> codepoints" where
  "unitText c =
     (case map_of letterEscapes c of
        Some l \<Rightarrow> [92, l]
      | None \<Rightarrow> if c < 32 \<or> 128 \<le> c then unicodeEscape c else [c])"

lemma asciiUnits_id: "list_all (\<lambda>u. u < 128) s \<Longrightarrow> concat (map asciiUnit s) = s"
  by (induction s) (simp_all add: asciiUnit_def)

lemma asciiUnits_escape:
  assumes "c < 65536"
  shows "concat (map asciiUnit (unicodeEscape c)) = unicodeEscape c"
proof -
  obtain h where "unicodeEscape c = [92, 117] @ h" "list_all (\<lambda>u. 32 \<le> u \<and> u < 128) h" using unicodeEscape_reads [OF assms] .
  then have "list_all (\<lambda>u. u < 128) (unicodeEscape c)" by (auto simp: list_all_iff)
  then show ?thesis by (rule asciiUnits_id)
qed

lemma letterEscapes_range: "map_of letterEscapes c = Some l \<Longrightarrow> l < 128 \<and> l \<noteq> 117 \<and> c < 128"
  by (auto simp: letterEscapes_def split: if_splits)

lemma asciiUnits_quote: "c < 65536 \<Longrightarrow> concat (map asciiUnit (quoteUnit c)) = unitText c"
  using letterEscapes_range [of c]
  by (auto simp: quoteUnit_def unitText_def asciiUnits_escape asciiUnit_def highSurrogate_def lowSurrogate_def split: option.split)

lemma unitText_surrogate: "highSurrogate c \<or> lowSurrogate c \<Longrightarrow> asciiUnit c = unitText c"
  using letterEscapes_range [of c]
  by (cases "map_of letterEscapes c") (auto simp: unitText_def asciiUnit_def highSurrogate_def lowSurrogate_def)

lemma asciiUnits_body: "jsText s \<Longrightarrow> concat (map asciiUnit (quoteBody s)) = concat (map unitText s)"
  by (induction s rule: quoteBody.induct) (auto simp: jsText_def asciiUnits_quote unitText_surrogate)

lemma letterEscapes_inverse:
  "map_of letterEscapes c = Some l \<Longrightarrow> map_of (map (\<lambda>(u, l). (l, u)) letterEscapes) l = Some c"
  by (auto simp: letterEscapes_def split: if_splits)

lemma unitText_read:
  assumes "c < 65536"
  shows "readBody (Suc n) (unitText c @ text) = map_option (apfst (Cons c)) (readBody n text)"
proof (cases "map_of letterEscapes c")
  case (Some l)
  with letterEscapes_range [OF this] letterEscapes_inverse [OF this] show ?thesis by (simp add: unitText_def)
next
  case None
  then have "c \<noteq> 34" "c \<noteq> 92" by (auto simp: letterEscapes_def split: if_splits)
  moreover obtain h where "unicodeEscape c = [92, 117] @ h" "length h = 4" "hexValue h = Some c" using unicodeEscape_reads [OF assms] .
  ultimately show ?thesis using None by (simp add: unitText_def)
qed

lemma readBody_text: "jsText s \<Longrightarrow> length s < n \<Longrightarrow> readBody n (concat (map unitText s) @ 34 # rest) = Some (s, rest)"
proof (induction s arbitrary: n)
  case Nil
  then show ?case by (cases n) simp_all
next
  case (Cons c s)
  then obtain m where m: "n = Suc m" by (cases n) auto
  with Cons have "readBody m (concat (map unitText s) @ 34 # rest) = Some (s, rest)" by (simp add: jsText_def)
  with unitText_read [of c m "concat (map unitText s) @ 34 # rest"] Cons.prems m show ?case by (simp add: jsText_def)
qed

definition asciiText :: "codepoints \<Rightarrow> codepoints" where
  "asciiText s = [34] @ concat (map unitText s) @ [34]"

definition memberText :: "codepoints \<times> Json \<Rightarrow> codepoints" where
  "memberText p = asciiText (fst p) @ [58] @ asciiJson (snd p)"

lemma asciiUnits_join:
  "concat (map f (joinWith sep xs)) = joinWith (concat (map f sep)) (map (\<lambda>x. concat (map f x)) xs)"
  by (induction sep xs rule: joinWith.induct) simp_all

lemma asciiUnits_quoteText: "jsText s \<Longrightarrow> concat (map asciiUnit (quoteText s)) = asciiText s"
  by (simp add: quoteText_def asciiText_def asciiUnits_body) (simp add: asciiUnit_def)

lemma showDigits_code: "u \<in> set (units (showDigits 10 n)) \<Longrightarrow> decimalDigit u"
  by (auto simp: units_def decimalDigit_def isDigit_def inRange_def dest!: showDigits_dec)

lemma asciiJson_Object:
  assumes "jsonOk (JsonObject ps)"
  shows "asciiJson (JsonObject ps) = [123] @ joinWith [44] (map memberText (ownProperties ps)) @ [125]"
proof -
  have "concat (map asciiUnit (quoteText (fst p) @ [58] @ jsonStringify (snd p))) = memberText p" if "p \<in> set (ownProperties ps)" for p
    using that assms by (simp add: list_all_iff memberText_def asciiUnits_quoteText asciiJson_def) (simp add: asciiUnit_def)
  then have "map (\<lambda>x. concat (map asciiUnit x)) (map (\<lambda>p. quoteText (fst p) @ [58] @ jsonStringify (snd p)) (ownProperties ps)) =
      map memberText (ownProperties ps)" by simp
  then show ?thesis by (simp add: asciiJson_def asciiUnits_join del: map_map) (simp add: asciiUnit_def)
qed

lemma asciiJson_String: "jsText s \<Longrightarrow> asciiJson (JsonString s) = asciiText s"
  by (simp add: asciiJson_def asciiUnits_quoteText)

lemma asciiJson_Number: "asciiJson (JsonNumber n) = numberText n"
proof -
  have "list_all (\<lambda>u. u < 128) (numberText n)"
    by (auto simp: numberText_def list_all_iff decimalDigit_def dest!: showDigits_code)
  then show ?thesis by (simp add: asciiJson_def asciiUnits_id)
qed

lemma asciiJson_Bool: "asciiJson (JsonBool b) = units (if b then ''true'' else ''false'')"
  by (cases b) (simp_all add: asciiJson_def units_def asciiUnit_def)

definition endsNumber :: "codepoints \<Rightarrow> bool" where
  "endsNumber rest \<longleftrightarrow> rest = [] \<or> \<not> decimalDigit (hd rest)"

lemma readNumber_text: "endsNumber rest \<Longrightarrow> readNumber (units (showDigits 10 n) @ rest) = (int n, rest)"
proof -
  assume "endsNumber rest"
  then have "takeWhile decimalDigit rest = []" "dropWhile decimalDigit rest = rest" by (cases rest; simp add: endsNumber_def)+
  moreover have "takeWhile decimalDigit (units (showDigits 10 n) @ rest) = units (showDigits 10 n) @ takeWhile decimalDigit rest"
    "dropWhile decimalDigit (units (showDigits 10 n) @ rest) = dropWhile decimalDigit rest"
    using showDigits_code by (simp_all add: takeWhile_append2 dropWhile_append2)
  ultimately show ?thesis by (simp add: readNumber_def decimalValue_def parseDigits_showDigits)
qed

lemma read_Number: "endsNumber rest \<Longrightarrow> readValue (Suc n) (numberText m @ rest) = Some (JsonNumber m, rest)"
proof -
  assume ends: "endsNumber rest"
  obtain d ds where d: "units (showDigits 10 (nat \<bar>m\<bar>)) = d # ds" by (cases "units (showDigits 10 (nat \<bar>m\<bar>))") (auto simp: units_def)
  then have "decimalDigit d" using showDigits_code [of d "nat \<bar>m\<bar>"] by simp
  then have "48 \<le> d \<and> d \<le> 57" by (simp add: decimalDigit_def)
  with readNumber_text [OF ends, of "nat \<bar>m\<bar>"] d show ?thesis by (auto simp: numberText_def decimalDigit_def)
qed

lemma read_Bool: "readValue (Suc n) (asciiJson (JsonBool b) @ rest) = Some (JsonBool b, rest)"
  by (cases b) (simp_all add: asciiJson_Bool units_def)

lemma read_String: "jsText s \<Longrightarrow> length s < n \<Longrightarrow> readValue (Suc n) (asciiText s @ rest) = Some (JsonString s, rest)"
  using readBody_text [of s n rest] by (simp add: asciiText_def)

lemma unitText_length: "c < 65536 \<Longrightarrow> 1 \<le> length (unitText c)"
  by (rule unicodeEscape_reads [of c]) (auto simp: unitText_def split: option.split)

lemma asciiText_length: "jsText s \<Longrightarrow> length s + 2 \<le> length (asciiText s)"
proof (induction s)
  case (Cons c s)
  then have "length s + 2 \<le> length (asciiText s)" "1 \<le> length (unitText c)"
    using unitText_length [of c] by (simp_all add: jsText_def)
  then show ?case by (simp add: asciiText_def)
qed (simp add: asciiText_def)

lemma readMembers_text:
  assumes "\<And>p m rest. p \<in> set qs \<Longrightarrow> jsText (fst p) \<and>
      (length (asciiJson (snd p)) \<le> m \<longrightarrow> endsNumber rest \<longrightarrow> readValue (Suc m) (asciiJson (snd p) @ rest) = Some (listed (snd p), rest))"
  shows "qs \<noteq> [] \<Longrightarrow> length (joinWith [44] (map memberText qs)) < n \<Longrightarrow>
    readMembers n (joinWith [44] (map memberText qs) @ 125 # rest) = Some (map (\<lambda>p. (fst p, listed (snd p))) qs, rest)"
  using assms
proof (induction qs arbitrary: n)
  case (Cons p qs)
  define more where "more = (if qs = [] then 125 # rest else 44 # joinWith [44] (map memberText qs) @ 125 # rest)"
  have whole: "joinWith [44] (map memberText (p # qs)) @ 125 # rest = 34 # concat (map unitText (fst p)) @ 34 # 58 # asciiJson (snd p) @ more"
    by (cases qs) (simp_all add: more_def memberText_def asciiText_def)
  have len: "length (memberText p) + (if qs = [] then 0 else Suc (length (joinWith [44] (map memberText qs)))) < n"
    using Cons.prems(2) by (cases qs) simp_all
  have key: "jsText (fst p)" using Cons.prems(3) [of p] by simp
  have mem: "length (fst p) + 3 + length (asciiJson (snd p)) \<le> length (memberText p)"
    using asciiText_length [OF key] by (simp add: memberText_def)
  obtain m where m: "n = Suc (Suc m)" using len mem by (cases n; cases "n - 1") auto
  have body: "readBody (Suc m) (concat (map unitText (fst p)) @ 34 # 58 # asciiJson (snd p) @ more) = Some (fst p, 58 # asciiJson (snd p) @ more)"
    using readBody_text [OF key, of "Suc m"] len mem m by simp
  have "endsNumber more" by (simp add: more_def endsNumber_def decimalDigit_def)
  moreover have "length (asciiJson (snd p)) \<le> m" using len mem m by simp
  ultimately have val: "readValue (Suc m) (asciiJson (snd p) @ more) = Some (listed (snd p), more)"
    using Cons.prems(3) [of p] by simp
  have "readMembers (Suc m) (joinWith [44] (map memberText qs) @ 125 # rest) = Some (map (\<lambda>p. (fst p, listed (snd p))) qs, rest)" if "qs \<noteq> []"
    using that len m Cons.prems(3) by (intro Cons.IH) (auto split: if_splits)
  then show ?case unfolding whole m 
    by (subst readMembers.simps) (simp add: body val del: readValue.simps readMembers.simps readBody.simps, simp add: more_def del: readMembers.simps)
qed simp

lemma readValue_text:
  "jsonOk v \<Longrightarrow> length (asciiJson v) \<le> n \<Longrightarrow> endsNumber rest \<Longrightarrow> readValue (Suc n) (asciiJson v @ rest) = Some (listed v, rest)"
proof (induction v arbitrary: n rest rule: jsonStringify.induct)
  case (1 m)
  then show ?case using read_Number [of rest n m] by (simp add: asciiJson_Number del: readValue.simps)
next
  case (2 s)
  then have "length s < n" using asciiText_length [of s] by (simp add: asciiJson_String)
  with 2 read_String [of s n rest] show ?case by (simp add: asciiJson_String del: readValue.simps)
next
  case (3 b)
  then show ?case using read_Bool by (simp del: readValue.simps)
next
  case (4 ps)
  have members: "jsText (fst p) \<and> (length (asciiJson (snd p)) \<le> m \<longrightarrow> endsNumber r \<longrightarrow>
      readValue (Suc m) (asciiJson (snd p) @ r) = Some (listed (snd p), r))" if "p \<in> set (ownProperties ps)" for p m r
    using 4(1) [OF that, of m r] 4(2) that by (simp add: list_all_iff)
  show ?case
  proof (cases "ownProperties ps = []")
    case True
    then show ?thesis using asciiJson_Object [OF 4(2)] by simp
  next
    case False
    then obtain q qs where q: "ownProperties ps = q # qs" by (cases "ownProperties ps") auto
    have "length (joinWith [44] (map memberText (ownProperties ps))) < n"
      using 4(3) asciiJson_Object [OF 4(2)] by simp
    from readMembers_text [OF members False this, of rest] have
      "readMembers n (joinWith [44] (map memberText (ownProperties ps)) @ 125 # rest) =
         Some (map (\<lambda>p. (fst p, listed (snd p))) (ownProperties ps), rest)" by blast
    moreover have "take 1 (joinWith [44] (map memberText (ownProperties ps)) @ 125 # rest) = [34]"
      unfolding q by (cases qs) (simp_all add: memberText_def asciiText_def)
    ultimately show ?thesis using asciiJson_Object [OF 4(2)] by (simp del: readMembers.simps)
  qed
qed

lemma readJson_ascii: "jsonOk v \<Longrightarrow> readJson (asciiJson v) = Some (listed v)"
  using readValue_text [of v "length (asciiJson v)" "[]"] by (simp add: readJson_def endsNumber_def del: readValue.simps)

section \<open>What the text keeps\<close>

lemma unitText_range: "c < 65536 \<Longrightarrow> list_all (\<lambda>u. u < 128) (unitText c)"
  by (rule unicodeEscape_reads [of c])
    (auto simp: unitText_def list_all_iff split: option.split dest!: letterEscapes_range)

lemma asciiText_range: "jsText s \<Longrightarrow> list_all (\<lambda>u. u < 128) (asciiText s)"
  using unitText_range by (fastforce simp: asciiText_def list_all_iff jsText_def)

lemma joinWith_range: "list_all P sep \<Longrightarrow> list_all (list_all P) xs \<Longrightarrow> list_all P (joinWith sep xs)"
  by (induction sep xs rule: joinWith.induct) simp_all

lemma asciiJson_range: "jsonOk v \<Longrightarrow> list_all (\<lambda>u. u < 128) (asciiJson v)"
proof (induction v rule: jsonStringify.induct)
  case (1 n)
  then show ?case by (auto simp: asciiJson_Number numberText_def list_all_iff decimalDigit_def dest!: showDigits_code)
next
  case (2 s)
  then show ?case by (simp add: asciiJson_String asciiText_range)
next
  case (3 b)
  then show ?case by (simp add: asciiJson_Bool units_def)
next
  case (4 ps)
  have "list_all (\<lambda>u. u < 128) (memberText p)" if "p \<in> set (ownProperties ps)" for p
    using 4(1) [OF that] 4(2) that asciiText_range [of "fst p"] by (auto simp: memberText_def list_all_iff)
  then have "list_all (list_all (\<lambda>u. u < 128)) (map memberText (ownProperties ps))" by (simp add: list_all_iff)
  then show ?case using asciiJson_Object [OF 4(2)] by (simp add: joinWith_range)
qed

lemma jsonOk_sortedKeys [simp]: "jsonOk (sortedKeys v) = jsonOk v"
  by (induction v rule: sortedKeys.induct) (auto simp: list_all_iff)

text \<open>Reading a sorted object back gives its properties, each read back the same way.\<close>

lemma map_of_mapped_values: "map_of (map (\<lambda>p. (fst p, f (snd p))) ps) k = map_option f (map_of ps k)"
  by (induction ps) auto

lemma listed_sortedKeys:
  assumes "distinct (map fst ps)"
  obtains qs where "listed (sortedKeys (JsonObject ps)) = JsonObject qs" "distinct (map fst qs)"
    "map_of qs = (\<lambda>k. map_option (\<lambda>v. listed (sortedKeys v)) (map_of ps k))"
proof -
  define rs where "rs = jsSort compareEntries (ownProperties ps)"
  have "mset rs = mset ps" by (simp add: rs_def)
  then have rs: "map_of rs = map_of ps" "distinct (map fst rs)"
    using map_of_same_entries [of ps rs] assms by auto
  define ss where "ss = map (\<lambda>p. (fst p, sortedKeys (snd p))) rs"
  have ss: "distinct (map fst ss)" "\<And>k. map_of ss k = map_option sortedKeys (map_of ps k)"
    using rs by (simp_all add: ss_def comp_def map_of_mapped_values)
  let ?qs = "map (\<lambda>p. (fst p, listed (snd p))) (ownProperties ss)"
  have "listed (sortedKeys (JsonObject ps)) = JsonObject ?qs" by (simp add: ss_def rs_def)
  moreover have "distinct (map fst ?qs)" using ownProperties_map_of(2) [OF ss(1)] by (simp add: comp_def)
  moreover have "map_of ?qs = (\<lambda>k. map_option (\<lambda>v. listed (sortedKeys v)) (map_of ps k))"
    using ownProperties_map_of(1) [OF ss(1)] ss(2) by (simp add: fun_eq_iff map_of_mapped_values option.map_comp comp_def)
  ultimately show ?thesis by (rule that)
qed

end
