(* ===== verification/Run_Payload.thy ===== *)
theory Run_Payload
  imports Access_Token Js_Json Lifecycle
begin

text \<open>
  The run hook payload of a launch (\<open>payload.ts\<close>): the JSON text that tells the agent of a new sandbox
  the hash of its access token, the environment of its commands and its limits.  The main result is
  that the agent reads back exactly what the caller asked for.  The hash is a parameter.
\<close>

datatype PayloadError =
    EmptyAccessToken | BadAccessToken TokenError
  | BadMapKey string | BadMapValue string codepoints
  | BadCpuTimeLimit | PayloadTooLong nat

text \<open>A value of a map of strings, at run time.\<close>

datatype MapValue = IsText codepoints | NotText

record RunHookPayloadOptions =
  payloadToken :: codepoints
  payloadEnvs :: "(codepoints \<times> MapValue) list option"
  payloadMetadata :: "(codepoints \<times> MapValue) list option"
  payloadCpuTimeLimit :: "JsInput option"
  payloadUser :: "codepoints option"
  payloadWorkdir :: "codepoints option"
  payloadNetworkEnforce :: "bool option"
  payloadLifecycle :: "LifecycleBlock option"
  payloadPersist :: "(codepoints \<times> codepoints) option"

definition PAYLOAD_VERSION :: int where "PAYLOAD_VERSION = 1"
definition DEFAULT_USER :: codepoints where "DEFAULT_USER = units ''user''"
definition DEFAULT_WORKDIR :: codepoints where "DEFAULT_WORKDIR = units ''/home/user''"
definition CPU_TIME_LIMIT_MIN_SECONDS :: int where "CPU_TIME_LIMIT_MIN_SECONDS = 1"
definition CPU_TIME_LIMIT_MAX_SECONDS :: int where "CPU_TIME_LIMIT_MAX_SECONDS = 28800"
definition RUN_HOOK_PAYLOAD_MAX_CHARS :: nat where "RUN_HOOK_PAYLOAD_MAX_CHARS = 4096"

text \<open>\<open>validated[key] = value\<close> on an object that starts as \<open>{}\<close>: the setter of \<open>__proto__\<close> ignores a
  string.\<close>

definition assignProperty :: "codepoints \<Rightarrow> 'a \<Rightarrow> (codepoints \<times> 'a) list \<Rightarrow> (codepoints \<times> 'a) list" where
  "assignProperty k v ps =
     (if k = units ''__proto__'' then ps
      else if k \<in> fst ` set ps then map (\<lambda>p. if fst p = k then (k, v) else p) ps
      else ps @ [(k, v)])"

fun validatedEntries :: "string \<Rightarrow> (codepoints \<times> MapValue) list \<Rightarrow> (codepoints \<times> codepoints) list \<Rightarrow>
    PayloadError + (codepoints \<times> codepoints) list" where
  "validatedEntries field [] validated = Inr validated"
| "validatedEntries field ((k, v) # rest) validated =
     (if k = [] then Inl (BadMapKey field)
      else case v of
             NotText \<Rightarrow> Inl (BadMapValue field k)
           | IsText s \<Rightarrow> validatedEntries field rest (assignProperty k s validated))"

definition validatedStringMap :: "(codepoints \<times> MapValue) list \<Rightarrow> string \<Rightarrow> PayloadError + (codepoints \<times> codepoints) list" where
  "validatedStringMap values field = validatedEntries field (ownProperties values) []"

definition validatedEnvs :: "(codepoints \<times> MapValue) list \<Rightarrow> PayloadError + (codepoints \<times> codepoints) list" where
  "validatedEnvs envs = validatedStringMap envs ''envs''"

definition validatedCpuTimeLimit :: "JsInput \<Rightarrow> PayloadError + int" where
  "validatedCpuTimeLimit limit =
     (case limit of
        JsOther \<Rightarrow> Inl BadCpuTimeLimit
      | JsInteger n \<Rightarrow>
          if n < CPU_TIME_LIMIT_MIN_SECONDS \<or> n > CPU_TIME_LIMIT_MAX_SECONDS then Inl BadCpuTimeLimit else Inr n)"

definition lifecycleBlockToWire :: "LifecycleBlock \<Rightarrow> Json" where
  "lifecycleBlockToWire block =
     JsonObject [(units ''auto_resume'', JsonBool (blockAutoResume block)), (units ''cap_s'', JsonNumber (capS block)),
       (units ''on_timeout'', JsonString (units (if blockOnTimeout block = Kill then ''kill'' else ''pause''))),
       (units ''timeout_s'', JsonNumber (timeoutS block))]"

definition persistBinding :: "codepoints \<times> codepoints \<Rightarrow> Json" where
  "persistBinding persist = JsonObject [(units ''bucket'', JsonString (fst persist)), (units ''key_prefix'', JsonString (snd persist))]"

definition stringMapJson :: "(codepoints \<times> codepoints) list \<Rightarrow> Json" where
  "stringMapJson ps = JsonObject (map (\<lambda>p. (fst p, JsonString (snd p))) ps)"

text \<open>A property that is added only when its option is given; a map also has to have an entry.\<close>

definition optionalMap :: "string \<Rightarrow> ((codepoints \<times> MapValue) list \<Rightarrow> PayloadError + (codepoints \<times> codepoints) list) \<Rightarrow>
    (codepoints \<times> MapValue) list option \<Rightarrow> PayloadError + (codepoints \<times> Json) list" where
  "optionalMap key validate values =
     (case values of
        None \<Rightarrow> Inr []
      | Some ps \<Rightarrow> if ps = [] then Inr [] else andThen (validate ps) (\<lambda>validated. Inr [(units key, stringMapJson validated)]))"

definition optionalProperty :: "string \<Rightarrow> Json option \<Rightarrow> (codepoints \<times> Json) list" where
  "optionalProperty key v = (case v of None \<Rightarrow> [] | Some j \<Rightarrow> [(units key, j)])"

definition cpuLimits :: "JsInput option \<Rightarrow> PayloadError + Json option" where
  "cpuLimits limit =
     (case limit of
        None \<Rightarrow> Inr None
      | Some l \<Rightarrow> andThen (validatedCpuTimeLimit l) (\<lambda>n. Inr (Some (JsonObject [(units ''cpu_seconds'', JsonNumber n)]))))"

definition buildRunHookPayload :: "(8 word list \<Rightarrow> codepoints) \<Rightarrow> RunHookPayloadOptions \<Rightarrow> PayloadError + codepoints" where
  "buildRunHookPayload sha256 options =
     (if payloadToken options = [] then Inl EmptyAccessToken
      else andThen (map_sum BadAccessToken id (accessTokenSha256 sha256 (payloadToken options))) (\<lambda>hash.
        andThen (optionalMap ''envs'' validatedEnvs (payloadEnvs options)) (\<lambda>envs.
        andThen (optionalMap ''metadata'' (\<lambda>values. validatedStringMap values ''metadata'') (payloadMetadata options)) (\<lambda>metadata.
        andThen (cpuLimits (payloadCpuTimeLimit options)) (\<lambda>limits.
          let payload = JsonObject
                ([(units ''v'', JsonNumber PAYLOAD_VERSION), (units ''token_sha256'', JsonString hash),
                  (units ''user'', JsonString (case payloadUser options of None \<Rightarrow> DEFAULT_USER | Some u \<Rightarrow> u)),
                  (units ''workdir'', JsonString (case payloadWorkdir options of None \<Rightarrow> DEFAULT_WORKDIR | Some d \<Rightarrow> d))] @
                 envs @ metadata @ optionalProperty ''limits'' limits @
                 optionalProperty ''network''
                   (if payloadNetworkEnforce options = Some True then Some (JsonObject [(units ''enforce'', JsonBool True)]) else None) @
                 optionalProperty ''lifecycle'' (map_option lifecycleBlockToWire (payloadLifecycle options)) @
                 optionalProperty ''persist'' (map_option persistBinding (payloadPersist options)));
              text = asciiJson (sortedKeys payload)
          in if length text > RUN_HOOK_PAYLOAD_MAX_CHARS then Inl (PayloadTooLong (length text)) else Inr text)))))"

section \<open>What the agent reads\<close>

text \<open>What a map of strings asks for, and a map of strings that was read.\<close>

definition askedFor :: "(codepoints \<times> MapValue) list \<Rightarrow> codepoints \<Rightarrow> codepoints option" where
  "askedFor values k =
     (if k = units ''__proto__'' then None else case map_of values k of Some (IsText s) \<Rightarrow> Some s | _ \<Rightarrow> None)"

definition stringAt :: "Json \<Rightarrow> codepoints \<Rightarrow> codepoints option" where
  "stringAt v k = (case v of JsonObject ps \<Rightarrow> (case map_of ps k of Some (JsonString s) \<Rightarrow> Some s | _ \<Rightarrow> None) | _ \<Rightarrow> None)"

definition askedMap :: "(codepoints \<times> MapValue) list option \<Rightarrow> (codepoints \<Rightarrow> codepoints option) option" where
  "askedMap values = (case values of None \<Rightarrow> None | Some ps \<Rightarrow> if ps = [] then None else Some (askedFor ps))"

definition mapOk :: "(codepoints \<times> MapValue) list \<Rightarrow> bool" where
  "mapOk values \<longleftrightarrow> distinct (map fst values) \<and>
     list_all (\<lambda>p. jsText (fst p) \<and> (case snd p of IsText s \<Rightarrow> jsText s | NotText \<Rightarrow> True)) values"

lemma units_inject [simp]: "units s = units t \<longleftrightarrow> s = t"
  unfolding units_def by (rule inj_map_eq_map) (metis char_of_char injI)

lemma jsText_units [simp]: "jsText (units s)"
proof -
  have "code x < 65536" for x using nat_of_char_less_256 [of x] by (rule less_trans) simp
  then show ?thesis by (simp add: jsText_def units_def list_all_iff)
qed

lemma validatedEntries_Inr:
  assumes "validatedEntries field es acc = Inr r" "distinct (map fst es)" "distinct (map fst acc)" "fst ` set acc \<inter> fst ` set es = {}"
    and "\<forall>p \<in> set es. jsText (fst p) \<and> (case snd p of IsText s \<Rightarrow> jsText s | NotText \<Rightarrow> True)"
    and "\<forall>p \<in> set acc. jsText (fst p) \<and> jsText (snd p)"
  shows "distinct (map fst r) \<and> (\<forall>p \<in> set r. jsText (fst p) \<and> jsText (snd p)) \<and>
    (\<forall>k. map_of r k = (case map_of acc k of Some s \<Rightarrow> Some s | None \<Rightarrow> askedFor es k))"
  using assms
proof (induction field es acc rule: validatedEntries.induct)
  case (1 field acc)
  then show ?case by (auto simp: askedFor_def split: option.split)
next
  case (2 field k v rest acc)
  from 2(2) obtain s where k: "k \<noteq> []" and v: "v = IsText s"
    and rec: "validatedEntries field rest (assignProperty k s acc) = Inr r" by (auto split: if_splits MapValue.splits)
  have fresh: "k \<notin> fst ` set acc" "k \<notin> fst ` set rest" using 2(3,5) by auto
  then have none: "map_of acc k = None" "map_of rest k = None" by (simp_all add: map_of_eq_None_iff)
  show ?case
  proof (cases "k = units ''__proto__''")
    case True
    then have acc': "assignProperty k s acc = acc" by (simp add: assignProperty_def)
    have "askedFor ((k, v) # rest) = askedFor rest" using True by (auto simp: askedFor_def fun_eq_iff)
    then show ?thesis using 2(1) [OF k v] rec 2(3-7) acc' by (simp only:) simp
  next
    case False
    then have acc': "assignProperty k s acc = acc @ [(k, s)]" using fresh(1) by (simp add: assignProperty_def)
    have "(case map_of (acc @ [(k, s)]) x of Some s \<Rightarrow> Some s | None \<Rightarrow> askedFor rest x) =
        (case map_of acc x of Some s \<Rightarrow> Some s | None \<Rightarrow> askedFor ((k, v) # rest) x)" for x
      using False none v by (auto simp: askedFor_def map_add_def split: option.split)
    moreover have "distinct (map fst r) \<and> (\<forall>p \<in> set r. jsText (fst p) \<and> jsText (snd p)) \<and>
        (\<forall>x. map_of r x = (case map_of (acc @ [(k, s)]) x of Some s \<Rightarrow> Some s | None \<Rightarrow> askedFor rest x))"
      using 2(3-7) fresh v unfolding acc' [symmetric] by (intro 2(1) [OF k v rec]) (auto simp: acc')
    ultimately show ?thesis by simp
  qed
qed

lemma validatedStringMap_Inr:
  assumes "validatedStringMap vs field = Inr r" "mapOk vs"
  shows "distinct (map fst r)" "\<forall>p \<in> set r. jsText (fst p) \<and> jsText (snd p)" "map_of r = askedFor vs"
proof -
  have "askedFor (ownProperties vs) = askedFor vs"
    using ownProperties_map_of(1) [of vs] assms(2) by (simp add: askedFor_def mapOk_def fun_eq_iff)
  then show "distinct (map fst r)" "\<forall>p \<in> set r. jsText (fst p) \<and> jsText (snd p)" "map_of r = askedFor vs"
    using validatedEntries_Inr [of field "ownProperties vs" "[]" r] assms ownProperties_map_of(2) [of vs]
    by (simp_all add: validatedStringMap_def mapOk_def list_all_iff fun_eq_iff)
qed

lemma stringAt_stringMapJson:
  assumes "distinct (map fst r)"
  shows "stringAt (listed (sortedKeys (stringMapJson r))) = map_of r"
proof -
  let ?js = "map (\<lambda>p. (fst p, JsonString (snd p))) r"
  have "distinct (map fst ?js)" using assms by (simp add: comp_def)
  then obtain qs where qs: "listed (sortedKeys (JsonObject ?js)) = JsonObject qs" "map_of qs = (\<lambda>k. map_option (\<lambda>v. listed (sortedKeys v)) (map_of ?js k))"
    by (rule listed_sortedKeys)
  have "map_of qs k = map_option JsonString (map_of r k)" for k
    unfolding qs(2) map_of_mapped_values by (simp add: option.map_comp comp_def)
  then show ?thesis unfolding stringMapJson_def stringAt_def qs(1) by (simp add: fun_eq_iff split: option.split)
qed

text \<open>The properties of the payload that may be missing.\<close>

lemma optionalProperty_simps [simp]:
  "map_of (optionalProperty key v) k = (if k = units key then v else None)"
  "fst ` set (optionalProperty key v) = (if v = None then {} else {units key})"
  "distinct (map fst (optionalProperty key v))"
  by (cases v; simp add: optionalProperty_def)+

lemma optionalMap_Inr:
  assumes "optionalMap key (\<lambda>vs. validatedStringMap vs field) values = Inr ps" "\<And>vs. values = Some vs \<Longrightarrow> mapOk vs"
  obtains v where "ps = optionalProperty key v" "pred_option jsonOk v"
    "map_option (\<lambda>j. stringAt (listed (sortedKeys j))) v = askedMap values"
proof (cases "askedMap values")
  case None
  then show ?thesis using assms(1) that [of None]
    by (auto simp: optionalMap_def askedMap_def optionalProperty_def split: option.splits if_splits)
next
  case (Some f)
  then obtain vs where vs: "values = Some vs" "vs \<noteq> []" "f = askedFor vs" by (auto simp: askedMap_def split: option.splits if_splits)
  then obtain r where r: "validatedStringMap vs field = Inr r" "ps = [(units key, stringMapJson r)]"
    using assms(1) by (auto simp: optionalMap_def throw_iff)
  note facts = validatedStringMap_Inr [OF r(1) assms(2) [OF vs(1)]]
  have "jsonOk (stringMapJson r)" using facts(2) by (simp add: stringMapJson_def list_all_iff)
  then show ?thesis
    using that [of "Some (stringMapJson r)"] r(2) vs(3) Some stringAt_stringMapJson [OF facts(1)] facts(3) by (simp add: optionalProperty_def)
qed

lemma wire_fixed:
  "listed (sortedKeys (lifecycleBlockToWire block)) = lifecycleBlockToWire block" "jsonOk (lifecycleBlockToWire block)"
  "listed (sortedKeys (persistBinding persist)) = persistBinding persist"
  by (simp_all add: lifecycleBlockToWire_def persistBinding_def units_def ownProperties_def arrayIndex_def decimalDigit_def
      jsSort_def compareEntries_def jsText_def)

definition optionsOk :: "RunHookPayloadOptions \<Rightarrow> bool" where
  "optionsOk options \<longleftrightarrow>
     pred_option mapOk (payloadEnvs options) \<and> pred_option mapOk (payloadMetadata options) \<and>
     pred_option jsText (payloadUser options) \<and> pred_option jsText (payloadWorkdir options) \<and>
     pred_option (\<lambda>p. jsText (fst p) \<and> jsText (snd p)) (payloadPersist options)"

definition limitsAsked :: "JsInput option \<Rightarrow> Json option" where
  "limitsAsked limit =
     (case limit of Some (JsInteger n) \<Rightarrow> Some (JsonObject [(units ''cpu_seconds'', JsonNumber n)]) | _ \<Rightarrow> None)"

lemma cpuLimits_Inr: "cpuLimits limit = Inr v \<Longrightarrow> v = limitsAsked limit"
  by (auto simp: cpuLimits_def limitsAsked_def validatedCpuTimeLimit_def split: option.splits JsInput.splits if_splits)

lemma fixed_objects:
  "listed (sortedKeys (JsonObject [(k, JsonNumber n)])) = JsonObject [(k, JsonNumber n)]"
  "listed (sortedKeys (JsonObject [(k, JsonBool b)])) = JsonObject [(k, JsonBool b)]"
  by (cases "arrayIndex k"; simp add: ownProperties_def jsSort_def)+

text \<open>The properties of the payload, once every option is accepted.\<close>

definition payloadFields :: "codepoints \<Rightarrow> Json option \<Rightarrow> Json option \<Rightarrow> RunHookPayloadOptions \<Rightarrow> (codepoints \<times> Json) list" where
  "payloadFields hash envs metadata options =
     [(units ''v'', JsonNumber PAYLOAD_VERSION), (units ''token_sha256'', JsonString hash),
      (units ''user'', JsonString (case payloadUser options of None \<Rightarrow> DEFAULT_USER | Some u \<Rightarrow> u)),
      (units ''workdir'', JsonString (case payloadWorkdir options of None \<Rightarrow> DEFAULT_WORKDIR | Some d \<Rightarrow> d))] @
     optionalProperty ''envs'' envs @ optionalProperty ''metadata'' metadata @
     optionalProperty ''limits'' (limitsAsked (payloadCpuTimeLimit options)) @
     optionalProperty ''network''
       (if payloadNetworkEnforce options = Some True then Some (JsonObject [(units ''enforce'', JsonBool True)]) else None) @
     optionalProperty ''lifecycle'' (map_option lifecycleBlockToWire (payloadLifecycle options)) @
     optionalProperty ''persist'' (map_option persistBinding (payloadPersist options))"

lemma payloadFields_distinct: "distinct (map fst (payloadFields hash envs metadata options))"
  by (simp add: payloadFields_def)

lemma optionalProperty_ok: "list_all (\<lambda>p. jsText (fst p) \<and> jsonOk (snd p)) (optionalProperty key v) = pred_option jsonOk v"
  by (cases v) (simp_all add: optionalProperty_def)

lemma limitsAsked_ok: "pred_option jsonOk (limitsAsked limit)"
  by (auto simp: limitsAsked_def split: option.split JsInput.split)

lemma wire_ok: "pred_option jsonOk (map_option lifecycleBlockToWire block)"
  by (cases block) (simp_all add: wire_fixed(2))

lemma persist_ok:
  "pred_option jsonOk (map_option persistBinding persist) = pred_option (\<lambda>p. jsText (fst p) \<and> jsText (snd p)) persist"
  by (cases persist) (simp_all add: persistBinding_def)

lemma payloadFields_ok:
  assumes "jsText hash" "optionsOk options" "pred_option jsonOk envs" "pred_option jsonOk metadata"
  shows "jsonOk (JsonObject (payloadFields hash envs metadata options))"
  using assms
  by (cases "payloadUser options"; cases "payloadWorkdir options")
    (simp_all add: payloadFields_def optionsOk_def optionalProperty_ok limitsAsked_ok wire_ok persist_ok
      DEFAULT_USER_def DEFAULT_WORKDIR_def)

lemma payloadFields_lookup:
  fixes hash envs metadata options
  defines "whole \<equiv> payloadFields hash envs metadata options"
  shows "map_of whole (units ''v'') = Some (JsonNumber PAYLOAD_VERSION)"
    and "map_of whole (units ''token_sha256'') = Some (JsonString hash)"
    and "map_of whole (units ''user'') = Some (JsonString (case payloadUser options of None \<Rightarrow> DEFAULT_USER | Some u \<Rightarrow> u))"
    and "map_of whole (units ''workdir'') = Some (JsonString (case payloadWorkdir options of None \<Rightarrow> DEFAULT_WORKDIR | Some d \<Rightarrow> d))"
    and "map_of whole (units ''envs'') = envs" and "map_of whole (units ''metadata'') = metadata"
    and "map_of whole (units ''limits'') = limitsAsked (payloadCpuTimeLimit options)"
    and "map_of whole (units ''network'') =
      (if payloadNetworkEnforce options = Some True then Some (JsonObject [(units ''enforce'', JsonBool True)]) else None)"
    and "map_of whole (units ''lifecycle'') = map_option lifecycleBlockToWire (payloadLifecycle options)"
    and "map_of whole (units ''persist'') = map_option persistBinding (payloadPersist options)"
  unfolding whole_def payloadFields_def by (simp_all add: map_add_def split: option.split)

lemma if_thrown: "(if b then Inl e else Inr x) = Inr y \<Longrightarrow> y = x \<and> \<not> b"
  by (simp split: if_splits)

lemma buildRunHookPayload_Inr:
  assumes "buildRunHookPayload sha256 options = Inr text" "optionsOk options" "\<And>secret. jsText (sha256 secret)"
  obtains secret envs metadata where "decodeAccessToken (payloadToken options) = Inr secret"
    "text = asciiJson (sortedKeys (JsonObject (payloadFields (sha256 secret) envs metadata options)))"
    "length text \<le> RUN_HOOK_PAYLOAD_MAX_CHARS"
    "jsonOk (JsonObject (payloadFields (sha256 secret) envs metadata options))"
    "map_option (\<lambda>j. stringAt (listed (sortedKeys j))) envs = askedMap (payloadEnvs options)"
    "map_option (\<lambda>j. stringAt (listed (sortedKeys j))) metadata = askedMap (payloadMetadata options)"
proof -
  from assms(1) obtain hash ps qs limits where
    hash: "accessTokenSha256 sha256 (payloadToken options) = Inr hash" and
    ps: "optionalMap ''envs'' validatedEnvs (payloadEnvs options) = Inr ps" and
    qs: "optionalMap ''metadata'' (\<lambda>values. validatedStringMap values ''metadata'') (payloadMetadata options) = Inr qs" and
    limits: "cpuLimits (payloadCpuTimeLimit options) = Inr limits"
    by (cases "accessTokenSha256 sha256 (payloadToken options)") (auto simp: buildRunHookPayload_def throw_iff split: if_splits)
  obtain secret where secret: "decodeAccessToken (payloadToken options) = Inr secret" "hash = sha256 secret"
    using hash by (auto simp: accessTokenSha256_def throw_iff)
  have envsOk: "\<And>vs. payloadEnvs options = Some vs \<Longrightarrow> mapOk vs" and metaOk: "\<And>vs. payloadMetadata options = Some vs \<Longrightarrow> mapOk vs"
    using assms(2) by (auto simp: optionsOk_def)
  obtain envs where envs: "ps = optionalProperty ''envs'' envs" "pred_option jsonOk envs"
      "map_option (\<lambda>j. stringAt (listed (sortedKeys j))) envs = askedMap (payloadEnvs options)"
    by (rule optionalMap_Inr [OF ps [unfolded validatedEnvs_def [abs_def]] envsOk])
  obtain metadata where metadata: "qs = optionalProperty ''metadata'' metadata" "pred_option jsonOk metadata"
      "map_option (\<lambda>j. stringAt (listed (sortedKeys j))) metadata = askedMap (payloadMetadata options)"
    by (rule optionalMap_Inr [OF qs metaOk])
  let ?text = "asciiJson (sortedKeys (JsonObject (payloadFields (sha256 secret) envs metadata options)))"
  have "payloadToken options \<noteq> []" using assms(1) by (auto simp: buildRunHookPayload_def)
  then have built: "buildRunHookPayload sha256 options =
      (if length ?text > RUN_HOOK_PAYLOAD_MAX_CHARS then Inl (PayloadTooLong (length ?text)) else Inr ?text)"
    using hash ps qs limits cpuLimits_Inr [OF limits] envs(1) metadata(1) secret(2)
    by (simp add: buildRunHookPayload_def payloadFields_def Let_def del: sortedKeys.simps)
  have "text = ?text \<and> \<not> length ?text > RUN_HOOK_PAYLOAD_MAX_CHARS"
    by (rule if_thrown [OF trans [OF built [symmetric] assms(1)]])
  then have done': "text = ?text" "length text \<le> RUN_HOOK_PAYLOAD_MAX_CHARS" by (simp_all only: not_less simp_thms)
  show ?thesis
    by (rule that [OF secret(1) done' payloadFields_ok [OF assms(3,2) envs(2) metadata(2)] envs(3) metadata(3)])
qed

lemma payload_object:
  assumes "optionsOk options" "\<And>secret. jsText (sha256 secret)" "buildRunHookPayload sha256 options = Inr text"
  obtains secret envs metadata qs where "decodeAccessToken (payloadToken options) = Inr secret"
    "readJson text = Some (JsonObject qs)" "distinct (map fst qs)"
    "map_of qs = (\<lambda>k. map_option (\<lambda>v. listed (sortedKeys v)) (map_of (payloadFields (sha256 secret) envs metadata options) k))"
    "map_option stringAt (map_option (\<lambda>v. listed (sortedKeys v)) envs) = askedMap (payloadEnvs options)"
    "map_option stringAt (map_option (\<lambda>v. listed (sortedKeys v)) metadata) = askedMap (payloadMetadata options)"
    "list_all (\<lambda>c. c < 128) text" "length text \<le> RUN_HOOK_PAYLOAD_MAX_CHARS"
proof -
  obtain secret envs metadata where secret: "decodeAccessToken (payloadToken options) = Inr secret"
    and text': "text = asciiJson (sortedKeys (JsonObject (payloadFields (sha256 secret) envs metadata options)))"
    and short: "length text \<le> RUN_HOOK_PAYLOAD_MAX_CHARS"
    and ok: "jsonOk (JsonObject (payloadFields (sha256 secret) envs metadata options))"
    and envs: "map_option (\<lambda>j. stringAt (listed (sortedKeys j))) envs = askedMap (payloadEnvs options)"
    and metadata: "map_option (\<lambda>j. stringAt (listed (sortedKeys j))) metadata = askedMap (payloadMetadata options)"
    using buildRunHookPayload_Inr [OF assms(3,1,2)] .
  let ?fields = "payloadFields (sha256 secret) envs metadata options"
  obtain qs where qs: "listed (sortedKeys (JsonObject ?fields)) = JsonObject qs" "distinct (map fst qs)"
    "map_of qs = (\<lambda>k. map_option (\<lambda>v. listed (sortedKeys v)) (map_of ?fields k))"
    using listed_sortedKeys [OF payloadFields_distinct] .
  have read: "readJson text = Some (JsonObject qs)"
    using readJson_ascii [of "sortedKeys (JsonObject ?fields)"] ok qs(1) unfolding text' by (simp only: jsonOk_sortedKeys)
  have ascii: "list_all (\<lambda>c. c < 128) text"
    using asciiJson_range [of "sortedKeys (JsonObject ?fields)"] ok unfolding text' by (simp only: jsonOk_sortedKeys)
  have maps: "map_option stringAt (map_option (\<lambda>v. listed (sortedKeys v)) envs) = askedMap (payloadEnvs options)"
    "map_option stringAt (map_option (\<lambda>v. listed (sortedKeys v)) metadata) = askedMap (payloadMetadata options)"
    using envs metadata by (simp_all add: option.map_comp comp_def)
  show ?thesis by (rule that [OF secret read qs(2,3) maps ascii short])
qed

lemma options_read_back:
  "map_option (\<lambda>v. listed (sortedKeys v)) (limitsAsked l) = limitsAsked l"
  "map_option (\<lambda>v. listed (sortedKeys v)) (map_option lifecycleBlockToWire b) = map_option lifecycleBlockToWire b"
  "map_option (\<lambda>v. listed (sortedKeys v)) (map_option persistBinding p) = map_option persistBinding p"
  "map_option (\<lambda>v. listed (sortedKeys v)) (if c then Some (JsonObject [(k, JsonBool d)]) else None) =
     (if c then Some (JsonObject [(k, JsonBool d)]) else None)"
proof -
  show "map_option (\<lambda>v. listed (sortedKeys v)) (limitsAsked l) = limitsAsked l"
    by (auto simp: limitsAsked_def fixed_objects simp del: listed.simps sortedKeys.simps split: option.split JsInput.split)
  show "map_option (\<lambda>v. listed (sortedKeys v)) (map_option lifecycleBlockToWire b) = map_option lifecycleBlockToWire b"
    by (cases b) (simp_all add: wire_fixed)
  show "map_option (\<lambda>v. listed (sortedKeys v)) (map_option persistBinding p) = map_option persistBinding p"
    by (cases p) (simp_all add: wire_fixed)
  show "map_option (\<lambda>v. listed (sortedKeys v)) (if c then Some (JsonObject [(k, JsonBool d)]) else None) =
     (if c then Some (JsonObject [(k, JsonBool d)]) else None)"
    using fixed_objects(2) [of k d] by (simp del: listed.simps sortedKeys.simps)
qed

text \<open>C13: the payload of a launch says exactly what was asked for.  When the payload is built, its text is
  ASCII, has at most 4096 characters and is read back as one object.  There the hash is that of the
  decoded access token, user and work directory are those given or the defaults, and \<open>envs\<close> and
  \<open>metadata\<close> map every key as the caller did, except \<open>__proto__\<close>, and are missing only when empty;
  the limit of CPU time, the network block, the lifecycle block and the persistence prefix are there
  exactly when they were asked for.\<close>

theorem payload_read_back:
  assumes "optionsOk options" and "\<And>secret. jsText (sha256 secret)" and "buildRunHookPayload sha256 options = Inr text"
  shows "list_all (\<lambda>c. c < 128) text \<and> length text \<le> 4096 \<and>
    (\<exists>ps secret. readJson text = Some (JsonObject ps) \<and> distinct (map fst ps) \<and>
       decodeAccessToken (payloadToken options) = Inr secret \<and>
       map_of ps (units ''v'') = Some (JsonNumber PAYLOAD_VERSION) \<and>
       map_of ps (units ''token_sha256'') = Some (JsonString (sha256 secret)) \<and>
       map_of ps (units ''user'') = Some (JsonString (case payloadUser options of None \<Rightarrow> DEFAULT_USER | Some u \<Rightarrow> u)) \<and>
       map_of ps (units ''workdir'') = Some (JsonString (case payloadWorkdir options of None \<Rightarrow> DEFAULT_WORKDIR | Some d \<Rightarrow> d)) \<and>
       map_option stringAt (map_of ps (units ''envs'')) = askedMap (payloadEnvs options) \<and>
       map_option stringAt (map_of ps (units ''metadata'')) = askedMap (payloadMetadata options) \<and>
       map_of ps (units ''limits'') = limitsAsked (payloadCpuTimeLimit options) \<and>
       map_of ps (units ''network'') =
         (if payloadNetworkEnforce options = Some True then Some (JsonObject [(units ''enforce'', JsonBool True)]) else None) \<and>
       map_of ps (units ''lifecycle'') = map_option lifecycleBlockToWire (payloadLifecycle options) \<and>
       map_of ps (units ''persist'') = map_option persistBinding (payloadPersist options))"
proof -
  obtain secret envs metadata qs where secret: "decodeAccessToken (payloadToken options) = Inr secret"
    and read: "readJson text = Some (JsonObject qs)" "distinct (map fst qs)"
    and qs: "map_of qs = (\<lambda>k. map_option (\<lambda>v. listed (sortedKeys v)) (map_of (payloadFields (sha256 secret) envs metadata options) k))"
    and maps: "map_option stringAt (map_option (\<lambda>v. listed (sortedKeys v)) envs) = askedMap (payloadEnvs options)"
      "map_option stringAt (map_option (\<lambda>v. listed (sortedKeys v)) metadata) = askedMap (payloadMetadata options)"
    and text': "list_all (\<lambda>c. c < 128) text" "length text \<le> RUN_HOOK_PAYLOAD_MAX_CHARS"
    using payload_object [OF assms] .
  show ?thesis
    using secret text'
    by (intro conjI exI [of _ qs] exI [of _ secret] read)
      (simp_all only: RUN_HOOK_PAYLOAD_MAX_CHARS_def qs payloadFields_lookup options_read_back maps option.map
        listed.simps(1,2) sortedKeys.simps(1,2))
qed

definition demoOptions :: RunHookPayloadOptions where
  "demoOptions =
     \<lparr>payloadToken = encodeAccessToken (replicate 16 0), payloadEnvs = Some [(units ''A'', IsText (units ''1''))],
      payloadMetadata = None, payloadCpuTimeLimit = Some (JsInteger 60), payloadUser = None, payloadWorkdir = None,
      payloadNetworkEnforce = Some True, payloadLifecycle = None, payloadPersist = None\<rparr>"

definition demoHash :: "8 word list \<Rightarrow> codepoints" where "demoHash secret = units ''ab''"

lemma demoOptions_ok: "optionsOk demoOptions" "jsText (demoHash secret)"
  by (simp_all add: optionsOk_def demoOptions_def demoHash_def mapOk_def)

lemma demoOptions_token: "accessTokenSha256 demoHash (payloadToken demoOptions) = Inr (units ''ab'')" "payloadToken demoOptions \<noteq> []"
  using decode_encoded [of "replicate 16 0" 0]
  by (simp_all add: accessTokenSha256_def demoHash_def demoOptions_def ACCESS_TOKEN_MIN_BYTES_def)

lemmas payload_eval = ownProperties_def arrayIndex_def decimalDigit_def jsSort_def compareEntries_def units_def
  asciiJson_def quoteText_def quoteUnit_def letterEscapes_def asciiUnit_def numberText_def highSurrogate_def lowSurrogate_def
  showDigits.simps Let_def

text \<open>Keys that are array indices are not written in the order of the sorting: here \<open>"10"\<close> sorts before
  \<open>"9"\<close>, and the text lists \<open>"9"\<close> first.\<close>

lemma array_indices_not_sorted:
  "unitsLess (units ''10'') (units ''9'')"
  "sortedKeys (JsonObject [(units ''9'', JsonBool True), (units ''10'', JsonBool False)]) =
     JsonObject [(units ''10'', JsonBool False), (units ''9'', JsonBool True)]"
  "readJson (asciiJson (sortedKeys (JsonObject [(units ''9'', JsonBool True), (units ''10'', JsonBool False)]))) =
     Some (JsonObject [(units ''9'', JsonBool True), (units ''10'', JsonBool False)])"
proof -
  show less: "unitsLess (units ''10'') (units ''9'')" by (simp add: units_def)
  have index: "arrayIndex (units ''9'')" "arrayIndex (units ''10'')" "decimalValue (units ''9'') = 9" "decimalValue (units ''10'') = 10"
    by (simp_all add: arrayIndex_def decimalDigit_def decimalValue_def comp_def parseDigits_def) (simp_all add: units_def decimalDigit_def digitValue_def isDigit_def inRange_def)
  show sorted: "sortedKeys (JsonObject [(units ''9'', JsonBool True), (units ''10'', JsonBool False)]) =
     JsonObject [(units ''10'', JsonBool False), (units ''9'', JsonBool True)]"
    using less by (simp add: ownProperties_def index jsSort_def compareEntries_def) (simp add: units_def)
  show "readJson (asciiJson (sortedKeys (JsonObject [(units ''9'', JsonBool True), (units ''10'', JsonBool False)]))) =
     Some (JsonObject [(units ''9'', JsonBool True), (units ''10'', JsonBool False)])"
    unfolding sorted using readJson_ascii [of "JsonObject [(units ''10'', JsonBool False), (units ''9'', JsonBool True)]"]
    by (simp add: ownProperties_def index)
qed

lemma demoOptions_built: "isl (buildRunHookPayload demoHash demoOptions) = False"
  unfolding buildRunHookPayload_def demoOptions_token
  by (simp add: demoOptions_token demoOptions_def optionalMap_def validatedEnvs_def validatedStringMap_def assignProperty_def cpuLimits_def
      validatedCpuTimeLimit_def CPU_TIME_LIMIT_MIN_SECONDS_def CPU_TIME_LIMIT_MAX_SECONDS_def optionalProperty_def stringMapJson_def
      PAYLOAD_VERSION_def DEFAULT_USER_def DEFAULT_WORKDIR_def RUN_HOOK_PAYLOAD_MAX_CHARS_def payload_eval)

theorem payload_read_back_witness:
  "\<exists>text ps. buildRunHookPayload demoHash demoOptions = Inr text \<and> readJson text = Some (JsonObject ps) \<and>
     map_of ps (units ''token_sha256'') = Some (JsonString (units ''ab'')) \<and>
     map_option stringAt (map_of ps (units ''envs'')) = Some (askedFor [(units ''A'', IsText (units ''1''))])"
proof -
  obtain t where t: "buildRunHookPayload demoHash demoOptions = Inr t"
    using demoOptions_built by (cases "buildRunHookPayload demoHash demoOptions") auto
  have "askedMap (payloadEnvs demoOptions) = Some (askedFor [(units ''A'', IsText (units ''1''))])"
    by (simp add: askedMap_def demoOptions_def)
  with t payload_read_back [OF demoOptions_ok t] show ?thesis by (elim conjE exE) (auto simp: demoHash_def)
qed

end
