(* ===== verification/Launch.thy ===== *)
theory Launch
  imports Run_Payload Tokens Sandbox_Info
begin

text \<open>
  What \<open>Sandbox.create()\<close> validates and builds before it calls the platform (\<open>sandbox/launch.ts\<close>,
  with \<open>LaunchRequest\<close> of \<open>aws/control-plane.ts\<close>): the access token, the timeout, the ports of the
  proxy token, the network connectors, the logging and the request itself.  The environment of the
  process, random bytes, a random UUID and the hash are parameters.
\<close>

section \<open>Validation\<close>

datatype LaunchError =
    MissingTemplate | MissingAccessToken | LaunchToken TokenError | BadSandboxId
  | LaunchTimeoutNotInteger | LaunchTimeoutAboveMax | LaunchTimeoutBelowMin
  | BadPort | BadPortRange | LaunchInvertedRange | CoversHooksPort | HooksPortHost
  | TooManyConnectors | UnknownConnector string | BadLogging
  | LaunchLifecycle lifecycle_error | LaunchPayload PayloadError | IdleNotResolved

definition MIN_DURATION_SECONDS :: int where "MIN_DURATION_SECONDS = 1"
definition MAX_DURATION_MS :: int where "MAX_DURATION_MS = MAX_DURATION_SECONDS * 1000"
definition MIN_DURATION_MS :: int where "MIN_DURATION_MS = MIN_DURATION_SECONDS * 1000"
definition DEFAULT_TIMEOUT_MS :: int where "DEFAULT_TIMEOUT_MS = 3600000"
definition MICROVM_ID_MIN_LENGTH :: nat where "MICROVM_ID_MIN_LENGTH = 1"
definition MICROVM_ID_MAX_LENGTH :: nat where "MICROVM_ID_MAX_LENGTH = 256"
definition NETWORK_CONNECTORS_MAX :: nat where "NETWORK_CONNECTORS_MAX = 10"
definition DEFAULT_PORT :: nat where "DEFAULT_PORT = 8080"
definition HOOKS_PORT :: nat where "HOOKS_PORT = 9000"
definition PORT_MIN :: int where "PORT_MIN = 1"
definition PORT_MAX :: int where "PORT_MAX = 65535"
definition MANAGED_NETWORK_CONNECTORS :: "string list" where
  "MANAGED_NETWORK_CONNECTORS = [''ALL_INGRESS'', ''NO_INGRESS'', ''SHELL_INGRESS'', ''INTERNET_EGRESS'']"
definition LOG_GROUP_PREFIX :: string where "LOG_GROUP_PREFIX = ''/rayito''"

text \<open>\<open>a || b\<close> on optional text: the empty string is false.\<close>

definition orElse :: "'a list option \<Rightarrow> 'a list option \<Rightarrow> 'a list option" where
  "orElse a b = (case a of None \<Rightarrow> b | Some x \<Rightarrow> if x = [] then b else Some x)"

definition resolveTemplate :: "string option \<Rightarrow> string option \<Rightarrow> LaunchError + string" where
  "resolveTemplate envTemplate template =
     (case orElse template envTemplate of None \<Rightarrow> Inl MissingTemplate | Some t \<Rightarrow> if t = [] then Inl MissingTemplate else Inr t)"

definition resolveAccessToken :: "codepoints option \<Rightarrow> (nat \<Rightarrow> 8 word list) \<Rightarrow> codepoints option \<Rightarrow> LaunchError + codepoints" where
  "resolveAccessToken envToken randomBytes accessToken =
     (case orElse accessToken envToken of
        None \<Rightarrow> Inr (generateAccessToken randomBytes)
      | Some provided \<Rightarrow>
          if provided = [] then Inr (generateAccessToken randomBytes)
          else map_sum LaunchToken id (validateAccessToken provided))"

definition requireAccessToken :: "codepoints option \<Rightarrow> codepoints option \<Rightarrow> LaunchError + codepoints" where
  "requireAccessToken envToken accessToken =
     (case orElse accessToken envToken of
        None \<Rightarrow> Inl MissingAccessToken
      | Some resolved \<Rightarrow>
          if resolved = [] then Inl MissingAccessToken else map_sum LaunchToken id (validateAccessToken resolved))"

text \<open>A value that is not a string is \<open>None\<close>.\<close>

definition validateSandboxId :: "string option \<Rightarrow> LaunchError + string" where
  "validateSandboxId sandboxId =
     (case sandboxId of
        None \<Rightarrow> Inl BadSandboxId
      | Some s \<Rightarrow> if length s < MICROVM_ID_MIN_LENGTH \<or> length s > MICROVM_ID_MAX_LENGTH then Inl BadSandboxId else Inr s)"

definition validateTimeoutMs :: "JsInput \<Rightarrow> LaunchError + int" where
  "validateTimeoutMs timeoutMs =
     (case timeoutMs of
        JsOther \<Rightarrow> Inl LaunchTimeoutNotInteger
      | JsInteger ms \<Rightarrow>
          if ms > MAX_DURATION_MS then Inl LaunchTimeoutAboveMax
          else if ms < MIN_DURATION_MS then Inl LaunchTimeoutBelowMin
          else Inr (\<lceil>(of_int ms :: rat) / 1000\<rceil>))"

section \<open>Ports\<close>

datatype PortLike = PortNumber JsInput | PortPair "JsInput list"

definition validatePort :: "JsInput \<Rightarrow> LaunchError + nat" where
  "validatePort port =
     (case port of
        JsOther \<Rightarrow> Inl BadPort
      | JsInteger n \<Rightarrow> if n < PORT_MIN \<or> n > PORT_MAX then Inl BadPort else Inr (nat n))"

definition portSpec :: "PortLike \<Rightarrow> LaunchError + PortSpec" where
  "portSpec entry =
     (case entry of
        PortPair ports \<Rightarrow>
          if length ports \<noteq> 2 then Inl BadPortRange
          else andThen (validatePort (ports ! 0)) (\<lambda>a. andThen (validatePort (ports ! 1)) (\<lambda>b.
            map_sum (\<lambda>_. LaunchInvertedRange) id (rangePort a b)))
      | PortNumber port \<Rightarrow> andThen (validatePort port) (\<lambda>p. Inr (singlePort p)))"

fun addPortSpecs :: "PortLike list \<Rightarrow> PortSpec list \<Rightarrow> LaunchError + PortSpec list" where
  "addPortSpecs [] specs = Inr specs"
| "addPortSpecs (entry # rest) specs =
     andThen (portSpec entry) (\<lambda>spec.
       if coversPort spec HOOKS_PORT then Inl CoversHooksPort
       else addPortSpecs rest (if \<not> list_ex (\<lambda>known. equalsSpec known spec) specs then specs @ [spec] else specs))"

definition proxyPortSpecs :: "PortLike list option \<Rightarrow> LaunchError + PortSpec list" where
  "proxyPortSpecs allowedPorts = addPortSpecs (case allowedPorts of None \<Rightarrow> [] | Some ps \<Rightarrow> ps) [singlePort DEFAULT_PORT]"

definition validateHostPort :: "JsInput \<Rightarrow> LaunchError + nat" where
  "validateHostPort port = andThen (validatePort port) (\<lambda>p. if p = HOOKS_PORT then Inl HooksPortHost else Inr p)"

section \<open>Connectors and logging\<close>

definition managedConnectorArn :: "string \<Rightarrow> string \<Rightarrow> string" where
  "managedConnectorArn name region =
     ''arn:aws:lambda:'' @ region @ '':aws:network-connector:aws-network-connector:'' @ name"

definition connectorArns :: "string list option \<Rightarrow> string \<Rightarrow> LaunchError + string list" where
  "connectorArns connectors region =
     (case connectors of
        None \<Rightarrow> Inr []
      | Some cs \<Rightarrow>
          if cs = [] then Inr []
          else if length cs > NETWORK_CONNECTORS_MAX then Inl TooManyConnectors
          else mapThrowing (\<lambda>c.
            if prefix ''arn:'' c then Inr c
            else if c \<in> set MANAGED_NETWORK_CONNECTORS then Inr (managedConnectorArn c region)
            else Inl (UnknownConnector c)) cs)"

text \<open>A logging object is its keys, each with the log group it holds.\<close>

type_synonym LoggingConfig = "(string \<times> string option) list"

datatype LoggingOption = LoggingName string | LoggingGiven LoggingConfig | LoggingOther

definition loggingConfig :: "LoggingOption \<Rightarrow> string \<Rightarrow> LaunchError + LoggingConfig" where
  "loggingConfig logging templateText =
     (case logging of
        LoggingName n \<Rightarrow>
          if n = ''disabled'' then Inr [(''disabled'', None)]
          else if n = ''cloudwatch'' then Inr [(''cloudWatch'', Some (LOG_GROUP_PREFIX @ ''/'' @ templateText))]
          else Inl BadLogging
      | LoggingGiven config \<Rightarrow>
          if map fst config = [''disabled''] \<or> map fst config = [''cloudWatch''] then Inr config else Inl BadLogging
      | LoggingOther \<Rightarrow> Inl BadLogging)"

section \<open>The request\<close>

record LaunchRequest =
  requestImageArn :: string
  maximumDurationSeconds :: int
  runHookPayload :: codepoints
  clientToken :: string
  requestLogging :: LoggingConfig
  requestImageVersion :: "string option"
  requestRoleArn :: "string option"
  requestIdle :: "IdlePolicy option"
  ingressConnectors :: "string list"
  egressConnectors :: "string list"

record IdlePolicyApi =
  maxIdleDurationSeconds :: int
  apiSuspendedSeconds :: int
  autoResumeEnabled :: bool

definition idlePolicyToApi :: "IdlePolicy \<Rightarrow> LaunchError + IdlePolicyApi" where
  "idlePolicyToApi idle =
     (case suspendedDurationSeconds idle of
        None \<Rightarrow> Inl IdleNotResolved
      | Some s \<Rightarrow> Inr \<lparr>maxIdleDurationSeconds = maxIdleSeconds idle, apiSuspendedSeconds = s, autoResumeEnabled = idleAutoResume idle\<rparr>)"

text \<open>The parameters of \<open>run-microvm\<close>; a missing key is \<open>None\<close>.\<close>

record RunMicrovmApiInput =
  imageIdentifier :: string
  maximumDurationInSeconds :: int
  apiRunHookPayload :: codepoints
  apiClientToken :: string
  apiLogging :: LoggingConfig
  apiImageVersion :: "string option"
  apiExecutionRoleArn :: "string option"
  apiIdlePolicy :: "IdlePolicyApi option"
  ingressNetworkConnectors :: "string list option"
  egressNetworkConnectors :: "string list option"

definition requestToApi :: "LaunchRequest \<Rightarrow> LaunchError + RunMicrovmApiInput" where
  "requestToApi r =
     andThen (case requestIdle r of None \<Rightarrow> Inr None | Some idle \<Rightarrow> andThen (idlePolicyToApi idle) (\<lambda>api. Inr (Some api))) (\<lambda>idle.
       Inr \<lparr>imageIdentifier = requestImageArn r, maximumDurationInSeconds = maximumDurationSeconds r,
         apiRunHookPayload = runHookPayload r, apiClientToken = clientToken r, apiLogging = requestLogging r,
         apiImageVersion = requestImageVersion r, apiExecutionRoleArn = requestRoleArn r, apiIdlePolicy = idle,
         ingressNetworkConnectors = (if ingressConnectors r = [] then None else Some (ingressConnectors r)),
         egressNetworkConnectors = (if egressConnectors r = [] then None else Some (egressConnectors r))\<rparr>)"

record LaunchPlanInput =
  inImageArn :: string
  inRegion :: string
  inTemplateVersion :: "string option"
  inTimeoutMs :: "JsInput option"
  inIdle :: IdleInput
  inEnvs :: "(codepoints \<times> MapValue) list option"
  inMetadata :: "(codepoints \<times> MapValue) list option"
  inCpuTimeLimit :: "JsInput option"
  inExecutionRoleArn :: "string option"
  inAllowedPorts :: "PortLike list option"
  inIngress :: "string list option"
  inEgress :: "string list option"
  inLogging :: "LoggingOption option"
  inAccessToken :: "codepoints option"
  inNetworkEnforce :: "bool option"
  inMaxLifetimeMs :: "JsInput option"
  inOnTimeout :: OnTimeoutInput
  inPersist :: "(codepoints \<times> codepoints) option"

record LaunchPlan =
  planAccessToken :: codepoints
  planRequest :: LaunchRequest
  proxyPorts :: "PortSpec list"
  lifecycleRequested :: bool

text \<open>What the process supplies.\<close>

record LaunchHost =
  hostToken :: "codepoints option"
  hostRandomBytes :: "nat \<Rightarrow> 8 word list"
  hostUuid :: string
  hostSha256 :: "8 word list \<Rightarrow> codepoints"

definition payloadOptions :: "LaunchPlanInput \<Rightarrow> codepoints \<Rightarrow> LifecycleBlock option \<Rightarrow> RunHookPayloadOptions" where
  "payloadOptions input token block =
     \<lparr>payloadToken = token, payloadEnvs = inEnvs input, payloadMetadata = inMetadata input,
      payloadCpuTimeLimit = inCpuTimeLimit input, payloadUser = None, payloadWorkdir = None,
      payloadNetworkEnforce = inNetworkEnforce input, payloadLifecycle = block, payloadPersist = inPersist input\<rparr>"

definition buildLaunchPlan :: "LaunchHost \<Rightarrow> LaunchPlanInput \<Rightarrow> LaunchError + LaunchPlan" where
  "buildLaunchPlan host input =
     andThen (resolveAccessToken (hostToken host) (hostRandomBytes host) (inAccessToken input)) (\<lambda>token.
     andThen (validateTimeoutMs (case inTimeoutMs input of None \<Rightarrow> JsInteger DEFAULT_TIMEOUT_MS | Some t \<Rightarrow> t)) (\<lambda>timeout.
     andThen (map_sum LaunchLifecycle id (resolveLifecycle
       \<lparr>timeoutSeconds = timeout, maxLifetimeMs = inMaxLifetimeMs input, onTimeoutInput = inOnTimeout input,
        idleInput = inIdle input\<rparr>)) (\<lambda>lifecycle.
     andThen (map_sum LaunchPayload id (buildRunHookPayload (hostSha256 host)
       (payloadOptions input token (planBlock lifecycle)))) (\<lambda>payload.
     andThen (loggingConfig (case inLogging input of None \<Rightarrow> LoggingName ''disabled'' | Some l \<Rightarrow> l)
       (templateNameFromArn (inImageArn input))) (\<lambda>logging.
     andThen (connectorArns (inIngress input) (inRegion input)) (\<lambda>ingress.
     andThen (connectorArns (inEgress input) (inRegion input)) (\<lambda>egress.
     andThen (proxyPortSpecs (inAllowedPorts input)) (\<lambda>ports.
       Inr \<lparr>planAccessToken = token,
            planRequest =
              \<lparr>requestImageArn = inImageArn input, maximumDurationSeconds = platformDurationSeconds lifecycle,
               runHookPayload = payload, clientToken = filter (\<lambda>c. c \<noteq> CHR ''-'') (hostUuid host),
               requestLogging = logging, requestImageVersion = inTemplateVersion input,
               requestRoleArn = inExecutionRoleArn input, requestIdle = planIdle lifecycle,
               ingressConnectors = ingress, egressConnectors = egress\<rparr>,
            proxyPorts = ports,
            lifecycleRequested = (planBlock lifecycle \<noteq> None)\<rparr>))))))))"

section \<open>What a plan asks the platform\<close>

lemma addPortSpecs_Inr:
  "addPortSpecs entries specs = Inr result \<Longrightarrow>
     (\<exists>more. result = specs @ more \<and> (distinct specs \<longrightarrow> distinct result)) \<and>
     (\<forall>s. s \<in> set result \<longleftrightarrow> s \<in> set specs \<or> (\<exists>e \<in> set entries. portSpec e = Inr s)) \<and>
     (\<forall>e \<in> set entries. \<forall>s. portSpec e = Inr s \<longrightarrow> \<not> coversPort s HOOKS_PORT)"
proof (induction entries specs rule: addPortSpecs.induct)
  case (2 entry rest specs)
  then obtain spec where spec: "portSpec entry = Inr spec" "\<not> coversPort spec HOOKS_PORT"
    and rec: "addPortSpecs rest (if spec \<in> set specs then specs else specs @ [spec]) = Inr result"
    by (auto simp: throw_iff list_ex_iff split: if_splits)
  have "(if \<not> list_ex (\<lambda>known. equalsSpec known spec) specs then specs @ [spec] else specs) =
      (if spec \<in> set specs then specs else specs @ [spec])" by (auto simp: list_ex_iff)
  with 2(1) [OF spec(2)] rec spec show ?case by (auto split: if_splits)
qed simp

lemma proxyPortSpecs_Inr:
  assumes "proxyPortSpecs allowed = Inr specs"
  shows "\<not> list_ex (\<lambda>s. coversPort s HOOKS_PORT) specs"
    and "s \<in> set specs \<longleftrightarrow> s = singlePort DEFAULT_PORT \<or> (\<exists>es. allowed = Some es \<and> (\<exists>e \<in> set es. portSpec e = Inr s))"
proof -
  note facts = addPortSpecs_Inr [OF assms [unfolded proxyPortSpecs_def]]
  have members: "s \<in> set specs \<longleftrightarrow> s = singlePort DEFAULT_PORT \<or> (\<exists>e \<in> set (case allowed of None \<Rightarrow> [] | Some ps \<Rightarrow> ps). portSpec e = Inr s)" for s
    using facts [THEN conjunct2, THEN conjunct1] by simp
  have "\<not> coversPort (singlePort DEFAULT_PORT) HOOKS_PORT"
    by (simp add: coversPort_def singlePort_def DEFAULT_PORT_def HOOKS_PORT_def)
  then have "\<not> coversPort s HOOKS_PORT" if "s \<in> set specs" for s
    using that facts [THEN conjunct2, THEN conjunct2] unfolding members by blast
  then show "\<not> list_ex (\<lambda>s. coversPort s HOOKS_PORT) specs" by (simp add: list_ex_iff)
  show "s \<in> set specs \<longleftrightarrow> s = singlePort DEFAULT_PORT \<or> (\<exists>es. allowed = Some es \<and> (\<exists>e \<in> set es. portSpec e = Inr s))"
    unfolding members by (cases allowed) simp_all
qed

lemma connectorArns_Inr:
  assumes "connectorArns connectors region = Inr arns"
  shows "length arns \<le> 10" "list_all (prefix ''arn:'') arns"
proof -
  have "mapThrowing f cs = Inr arns \<Longrightarrow> (\<And>c a. f c = Inr a \<Longrightarrow> prefix ''arn:'' a) \<Longrightarrow> length cs = length arns \<and> list_all (prefix ''arn:'') arns"
    for f :: "string \<Rightarrow> LaunchError + string" and cs
    by (auto simp: throw_iff list_all2_conv_all_nth list_all_length)
  then show "length arns \<le> 10" "list_all (prefix ''arn:'') arns"
    using assms by (fastforce simp: connectorArns_def NETWORK_CONNECTORS_MAX_def managedConnectorArn_def split: option.splits if_splits)+
qed

lemma validateTimeoutMs_Inr:
  assumes "validateTimeoutMs input = Inr s"
  shows "\<exists>ms. input = JsInteger ms \<and> 1 \<le> s \<and> s \<le> MAX_DURATION_SECONDS \<and> (s - 1) * 1000 < ms \<and> ms \<le> s * 1000"
proof -
  obtain ms where ms: "input = JsInteger ms" "1000 \<le> ms" "ms \<le> 28800000" "s = \<lceil>(of_int ms :: rat) / 1000\<rceil>"
    using assms by (auto simp: validateTimeoutMs_def MAX_DURATION_MS_def MIN_DURATION_MS_def MIN_DURATION_SECONDS_def limits
        split: JsInput.splits if_splits)
  then have "of_int s - 1 < (of_int ms :: rat) / 1000" "(of_int ms :: rat) / 1000 \<le> of_int s" by linarith+
  then have "(of_int ((s - 1) * 1000) :: rat) < of_int ms" "(of_int ms :: rat) \<le> of_int (s * 1000)" by simp_all
  then have "(s - 1) * 1000 < ms" "ms \<le> s * 1000" by (simp_all only: of_int_less_iff of_int_le_iff)
  with ms show ?thesis by (auto simp: limits)
qed

lemma orElse_token: "resolveAccessToken envToken randomBytes accessToken = Inr token \<Longrightarrow> (\<And>n. length (randomBytes n) = n) \<Longrightarrow>
    \<exists>secret. decodeAccessToken token = Inr secret"
  using decode_encoded [of "randomBytes ACCESS_TOKEN_BYTES" 0]
  by (auto simp: resolveAccessToken_def generateAccessToken_def validateAccessToken_def throw_iff ACCESS_TOKEN_MIN_BYTES_def
      ACCESS_TOKEN_BYTES_def andThen_def split: option.splits if_splits sum.splits)

lemma requestToApi_Inr:
  assumes "\<And>p. requestIdle r = Some p \<Longrightarrow> suspendedDurationSeconds p \<noteq> None"
  shows "\<exists>api. requestToApi r = Inr api \<and> maximumDurationInSeconds api = maximumDurationSeconds r \<and>
    apiRunHookPayload api = runHookPayload r"
  using assms by (auto simp: requestToApi_def idlePolicyToApi_def split: option.split)

lemma map_sum_Inr_iff [throw_iff]: "map_sum f id x = Inr y \<longleftrightarrow> x = Inr y"
  by (cases x) auto

lemma buildLaunchPlan_payload:
  assumes "buildLaunchPlan host input = Inr plan"
  obtains block where "buildRunHookPayload (hostSha256 host) (payloadOptions input (planAccessToken plan) block) =
    Inr (runHookPayload (planRequest plan))"
  using assms by (auto simp: buildLaunchPlan_def throw_iff)

text \<open>C12: every plan that \<open>create()\<close> launches is sound.  Its access token is a canonical one that decodes; the
  payload is the one built for that token and fits the platform; the duration lies between one second and
  eight hours, is not below the timeout that was asked for, rounded up to seconds, and ends after the idle window; the
  request is one that \<open>run-microvm\<close> can be called with; there are at most ten connectors a side, all of
  them ARNs; and the proxy token opens the port of the agent and exactly the ports that were asked for,
  never the port of the hooks.\<close>

theorem launch_plan_sound:
  assumes "buildLaunchPlan host input = Inr plan" and "\<And>n. length (hostRandomBytes host n) = n"
  shows "\<exists>secret block timeout api ms.
    decodeAccessToken (planAccessToken plan) = Inr secret \<and>
    buildRunHookPayload (hostSha256 host) (payloadOptions input (planAccessToken plan) block) = Inr (runHookPayload (planRequest plan)) \<and>
    lifecycleRequested plan = (block \<noteq> None) \<and>
    (case inTimeoutMs input of None \<Rightarrow> JsInteger DEFAULT_TIMEOUT_MS | Some t \<Rightarrow> t) = JsInteger ms \<and>
    1 \<le> timeout \<and> (timeout - 1) * 1000 < ms \<and> ms \<le> timeout * 1000 \<and>
    timeout \<le> maximumDurationSeconds (planRequest plan) \<and> maximumDurationSeconds (planRequest plan) \<le> 28800 \<and>
    pred_option (\<lambda>p. maxIdleSeconds p < maximumDurationSeconds (planRequest plan)) (requestIdle (planRequest plan)) \<and>
    requestToApi (planRequest plan) = Inr api \<and> apiRunHookPayload api = runHookPayload (planRequest plan) \<and>
    list_all (prefix ''arn:'') (ingressConnectors (planRequest plan) @ egressConnectors (planRequest plan)) \<and>
    length (ingressConnectors (planRequest plan)) \<le> 10 \<and> length (egressConnectors (planRequest plan)) \<le> 10 \<and>
    \<not> list_ex (\<lambda>s. coversPort s HOOKS_PORT) (proxyPorts plan) \<and>
    set (proxyPorts plan) = insert (singlePort DEFAULT_PORT)
      {s. \<exists>es. inAllowedPorts input = Some es \<and> Inr s \<in> portSpec ` set es}"
proof -
  let ?input = "\<lambda>timeout. \<lparr>timeoutSeconds = timeout, maxLifetimeMs = inMaxLifetimeMs input, onTimeoutInput = inOnTimeout input,
        idleInput = inIdle input\<rparr>"
  from assms(1) obtain timeout lifecycle where
    token: "resolveAccessToken (hostToken host) (hostRandomBytes host) (inAccessToken input) = Inr (planAccessToken plan)" and
    timeout: "validateTimeoutMs (case inTimeoutMs input of None \<Rightarrow> JsInteger DEFAULT_TIMEOUT_MS | Some t \<Rightarrow> t) = Inr timeout" and
    lifecycle: "resolveLifecycle (?input timeout) = Inr lifecycle" and
    payload: "buildRunHookPayload (hostSha256 host) (payloadOptions input (planAccessToken plan) (planBlock lifecycle)) =
      Inr (runHookPayload (planRequest plan))" and
    ingress: "connectorArns (inIngress input) (inRegion input) = Inr (ingressConnectors (planRequest plan))" and
    egress: "connectorArns (inEgress input) (inRegion input) = Inr (egressConnectors (planRequest plan))" and
    ports: "proxyPortSpecs (inAllowedPorts input) = Inr (proxyPorts plan)" and
    rest: "maximumDurationSeconds (planRequest plan) = platformDurationSeconds lifecycle"
      "requestIdle (planRequest plan) = planIdle lifecycle" "lifecycleRequested plan = (planBlock lifecycle \<noteq> None)"
    by (auto simp: buildLaunchPlan_def throw_iff)
  obtain secret where secret: "decodeAccessToken (planAccessToken plan) = Inr secret" using orElse_token [OF token assms(2)] by blast
  obtain ms where ms: "(case inTimeoutMs input of None \<Rightarrow> JsInteger DEFAULT_TIMEOUT_MS | Some t \<Rightarrow> t) = JsInteger ms"
    "1 \<le> timeout" "timeout \<le> MAX_DURATION_SECONDS" "(timeout - 1) * 1000 < ms" "ms \<le> timeout * 1000"
    using validateTimeoutMs_Inr [OF timeout] by blast
  have wf: "wf_plan (?input timeout) lifecycle" using resolveLifecycle_wf [OF lifecycle] ms(3) by simp
  then have duration: "timeout \<le> platformDurationSeconds lifecycle" "platformDurationSeconds lifecycle \<le> 28800"
    by (simp_all add: wf_plan_def MAX_DURATION_SECONDS_def)
  have idle: "pred_option (\<lambda>p. maxIdleSeconds p < platformDurationSeconds lifecycle) (planIdle lifecycle)"
    "\<And>p. planIdle lifecycle = Some p \<Longrightarrow> suspendedDurationSeconds p \<noteq> None"
    using wf by (auto simp: wf_plan_def split: option.splits)
  obtain api where api: "requestToApi (planRequest plan) = Inr api" "apiRunHookPayload api = runHookPayload (planRequest plan)"
    using requestToApi_Inr [of "planRequest plan"] idle(2) rest(2) by auto
  have "set (proxyPorts plan) = insert (singlePort DEFAULT_PORT) {s. \<exists>es. inAllowedPorts input = Some es \<and> Inr s \<in> portSpec ` set es}"
    by (rule set_eqI) (simp add: proxyPortSpecs_Inr(2) [OF ports] image_iff eq_commute [of "Inr _"])
  then show ?thesis
    using secret payload rest ms duration idle(1) api connectorArns_Inr [OF ingress] connectorArns_Inr [OF egress] proxyPortSpecs_Inr(1) [OF ports]
    by (intro exI [of _ secret] exI [of _ "planBlock lifecycle"] exI [of _ timeout] exI [of _ api] exI [of _ ms]) simp
qed

definition demoHost :: LaunchHost where
  "demoHost = \<lparr>hostToken = None, hostRandomBytes = (\<lambda>n. replicate n 0), hostUuid = ''a-b'', hostSha256 = demoHash\<rparr>"

definition demoLaunch :: LaunchPlanInput where
  "demoLaunch =
     \<lparr>inImageArn = ''arn:aws:t'', inRegion = ''r'', inTemplateVersion = None, inTimeoutMs = Some (JsInteger 600500), inIdle = IdleNull,
      inEnvs = None, inMetadata = None, inCpuTimeLimit = None, inExecutionRoleArn = None,
      inAllowedPorts = Some [PortNumber (JsInteger 3000)], inIngress = None, inEgress = Some [''INTERNET_EGRESS''], inLogging = None,
      inAccessToken = None, inNetworkEnforce = None, inMaxLifetimeMs = None, inOnTimeout = OnTimeoutUndefined, inPersist = None\<rparr>"

definition demoPlan :: LaunchPlan where
  "demoPlan = (case buildLaunchPlan demoHost demoLaunch of Inr plan \<Rightarrow> plan | Inl e \<Rightarrow> undefined)"

lemma demo_payload_built:
  "isl (buildRunHookPayload demoHash (payloadOptions (demoLaunch\<lparr>inNetworkEnforce := enforce\<rparr>) (encodeAccessToken (replicate 32 0)) None)) = False"
proof -
  have "accessTokenSha256 demoHash (encodeAccessToken (replicate 32 0)) = Inr (units ''ab'')"
    using decode_encoded [of "replicate 32 0" 0] by (simp add: accessTokenSha256_def demoHash_def ACCESS_TOKEN_MIN_BYTES_def)
  then show ?thesis
    by (cases enforce; cases "the enforce")
      (simp_all add: buildRunHookPayload_def payloadOptions_def demoLaunch_def optionalMap_def cpuLimits_def optionalProperty_def
        PAYLOAD_VERSION_def DEFAULT_USER_def DEFAULT_WORKDIR_def RUN_HOOK_PAYLOAD_MAX_CHARS_def payload_eval)
qed

lemma demo_launch_enforcing: "\<exists>plan. buildLaunchPlan demoHost (demoLaunch\<lparr>inNetworkEnforce := enforce\<rparr>) = Inr plan"
proof -
  let ?payload = "buildRunHookPayload demoHash (payloadOptions (demoLaunch\<lparr>inNetworkEnforce := enforce\<rparr>) (encodeAccessToken (replicate 32 0)) None)"
  obtain t where t: "?payload = Inr t" using demo_payload_built [of enforce] by (cases ?payload) auto
  have "isl (buildLaunchPlan demoHost (demoLaunch\<lparr>inNetworkEnforce := enforce\<rparr>)) = False"
    unfolding buildLaunchPlan_def
    using t by (simp add: demoHost_def demoLaunch_def resolveAccessToken_def orElse_def generateAccessToken_def ACCESS_TOKEN_BYTES_def
        validateTimeoutMs_def MAX_DURATION_MS_def MIN_DURATION_MS_def MIN_DURATION_SECONDS_def limits resolveLifecycle_def fitDefaultIdle_def
        resolveIdlePolicy_def loggingConfig_def connectorArns_def NETWORK_CONNECTORS_MAX_def MANAGED_NETWORK_CONNECTORS_def
        proxyPortSpecs_def portSpec_def validatePort_def PORT_MIN_def PORT_MAX_def singlePort_def coversPort_def HOOKS_PORT_def DEFAULT_PORT_def)
  then show ?thesis by (cases "buildLaunchPlan demoHost (demoLaunch\<lparr>inNetworkEnforce := enforce\<rparr>)") auto
qed

lemma demo_launch_built: "buildLaunchPlan demoHost demoLaunch = Inr demoPlan"
  using demo_launch_enforcing [of None] by (auto simp: demoPlan_def demoLaunch_def)

theorem launch_plan_sound_witness:
  "buildLaunchPlan demoHost demoLaunch = Inr demoPlan \<and> (\<exists>secret. decodeAccessToken (planAccessToken demoPlan) = Inr secret) \<and>
   (\<exists>api. requestToApi (planRequest demoPlan) = Inr api) \<and> \<not> list_ex (\<lambda>s. coversPort s HOOKS_PORT) (proxyPorts demoPlan)"
proof -
  have "length (hostRandomBytes demoHost n) = n" for n by (simp add: demoHost_def)
  from launch_plan_sound [OF demo_launch_built this] show ?thesis by (elim exE conjE) (intro conjI exI demo_launch_built; assumption)
qed

end
