(* ===== verification/Network.thy ===== *)
theory Network
  imports Js_Json Sandbox_Reconnect
begin

text \<open>
  The egress policy of a sandbox (\<open>sandbox/network.ts\<close>, with \<open>#sendNetworkPolicy\<close>,
  \<open>#throwUnlessEnforced\<close> and \<open>#applyInitialNetwork\<close> of \<open>sandbox/sandbox.ts\<close>): how the options of the
  caller become a policy, what the client checks of it, and the gate of \<open>create()\<close> that ends a sandbox
  whose guest does not apply it.  Text is a list of code units; \<open>isIP\<close> of \<open>node:net\<close> is written out.
\<close>

section \<open>Data\<close>

datatype NetworkError =
    SelectorNotList string | SelectorNotText string nat | BadAllowInternetAccess | NetworkNotObject
  | UnknownKey string codepoints | ProxyNotObject | FieldNotText string
  | TooManyEntries string | BlankEntry string nat | DenyNotNetwork nat | HostnameTooLong nat | TooManyHostnames
  | ProxyAddressMissing | PasswordWithoutUser | BadCredential string | PoolNetwork

text \<open>A value that should be a list of strings: an element that is not a string is \<open>None\<close>.  A selector may
  be a function of its context, of which the caller sees \<open>allTraffic\<close>.\<close>

datatype SelectorValue = ListValue "codepoints option list" | OtherValue

datatype NetworkSelector = SelectorMissing | SelectorGiven SelectorValue | SelectorFunction "codepoints \<Rightarrow> SelectorValue"

datatype TextField = FieldMissing | FieldText codepoints | FieldOther

record EgressProxyInput =
  proxyAddress :: codepoints
  proxyUsername :: "codepoints option"
  proxyPassword :: "codepoints option"

text \<open>Objects come with the list of their keys.\<close>

datatype EgressProxyValue =
    ProxyMissing | ProxyNotAnObject | ProxyObject "codepoints list" TextField TextField TextField

datatype NetworkValue =
    NetworkMissing | NetworkNotAnObject
  | NetworkGiven "codepoints list" NetworkSelector NetworkSelector EgressProxyValue

datatype AllowInternetAccess = AccessUndefined | AccessIs bool | AccessOther

record ResolvedNetworkPolicy =
  allowOut :: "codepoints list"
  denyOut :: "codepoints list"
  egressProxy :: "EgressProxyInput option"

datatype EgressEnforcement = EnforcementUnspecified | EnforcementNone | GuestRoutes | GuestRoutesAndProxy

definition ALL_TRAFFIC :: codepoints where "ALL_TRAFFIC = units ''0.0.0.0/0''"
definition NETWORK_KEYS :: "codepoints list" where "NETWORK_KEYS = [units ''allowOut'', units ''denyOut'', units ''egressProxy'']"
definition EGRESS_PROXY_KEYS :: "codepoints list" where
  "EGRESS_PROXY_KEYS = [units ''address'', units ''username'', units ''password'']"
definition IPV4_MAX_PREFIX :: nat where "IPV4_MAX_PREFIX = 32"
definition IPV6_MAX_PREFIX :: nat where "IPV6_MAX_PREFIX = 128"
definition EGRESS_MAX_ENTRIES_PER_LIST :: nat where "EGRESS_MAX_ENTRIES_PER_LIST = 256"
definition EGRESS_MAX_HOSTNAME_ENTRIES :: nat where "EGRESS_MAX_HOSTNAME_ENTRIES = 64"
definition EGRESS_HOSTNAME_MAX_CHARS :: nat where "EGRESS_HOSTNAME_MAX_CHARS = 253"
definition EGRESS_PROXY_CREDENTIAL_MAX_BYTES :: nat where "EGRESS_PROXY_CREDENTIAL_MAX_BYTES = 255"

section \<open>From the options to a policy\<close>

fun textEntries :: "string \<Rightarrow> nat \<Rightarrow> codepoints option list \<Rightarrow> NetworkError + codepoints list" where
  "textEntries field i [] = Inr []"
| "textEntries field i (None # rest) = Inl (SelectorNotText field i)"
| "textEntries field i (Some entry # rest) = andThen (textEntries field (Suc i) rest) (\<lambda>entries. Inr (entry # entries))"

definition resolveSelector :: "NetworkSelector \<Rightarrow> string \<Rightarrow> NetworkError + codepoints list" where
  "resolveSelector selector field =
     (let listOf = (\<lambda>v. case v of OtherValue \<Rightarrow> Inl (SelectorNotList field) | ListValue es \<Rightarrow> textEntries field 0 es)
      in case selector of
           SelectorMissing \<Rightarrow> Inr []
         | SelectorFunction f \<Rightarrow> listOf (f ALL_TRAFFIC)
         | SelectorGiven v \<Rightarrow> listOf v)"

definition validatedAllowInternetAccess :: "AllowInternetAccess \<Rightarrow> NetworkError + bool option" where
  "validatedAllowInternetAccess v =
     (case v of AccessUndefined \<Rightarrow> Inr None | AccessIs b \<Rightarrow> Inr (Some b) | AccessOther \<Rightarrow> Inl BadAllowInternetAccess)"

definition rejectUnknownKeys :: "codepoints list \<Rightarrow> codepoints list \<Rightarrow> string \<Rightarrow> NetworkError + unit" where
  "rejectUnknownKeys keys known field =
     (case filter (\<lambda>k. k \<notin> set known) keys of [] \<Rightarrow> Inr () | k # _ \<Rightarrow> Inl (UnknownKey field k))"

text \<open>\<open>networkObject\<close>: the three selectors; \<open>{}\<close> when there is no object.\<close>

definition networkObject :: "NetworkValue \<Rightarrow> NetworkError + NetworkSelector \<times> NetworkSelector \<times> EgressProxyValue" where
  "networkObject network =
     (case network of
        NetworkMissing \<Rightarrow> Inr (SelectorMissing, SelectorMissing, ProxyMissing)
      | NetworkNotAnObject \<Rightarrow> Inl NetworkNotObject
      | NetworkGiven keys allow deny proxy \<Rightarrow>
          andThen (rejectUnknownKeys keys NETWORK_KEYS ''network'') (\<lambda>_. Inr (allow, deny, proxy)))"

definition requiredString :: "TextField \<Rightarrow> string \<Rightarrow> NetworkError + codepoints" where
  "requiredString v field = (case v of FieldText t \<Rightarrow> Inr t | _ \<Rightarrow> Inl (FieldNotText field))"

definition optionalString :: "TextField \<Rightarrow> string \<Rightarrow> NetworkError + codepoints option" where
  "optionalString v field =
     (if v = FieldMissing then Inr None else andThen (requiredString v field) (\<lambda>t. Inr (Some t)))"

definition resolveEgressProxy :: "EgressProxyValue \<Rightarrow> NetworkError + EgressProxyInput option" where
  "resolveEgressProxy v =
     (case v of
        ProxyMissing \<Rightarrow> Inr None
      | ProxyNotAnObject \<Rightarrow> Inl ProxyNotObject
      | ProxyObject keys address username password \<Rightarrow>
          andThen (rejectUnknownKeys keys EGRESS_PROXY_KEYS ''egressProxy'') (\<lambda>_.
          andThen (requiredString address ''egressProxy.address'') (\<lambda>a.
          andThen (optionalString username ''egressProxy.username'') (\<lambda>u.
          andThen (optionalString password ''egressProxy.password'') (\<lambda>p.
            Inr (Some \<lparr>proxyAddress = a, proxyUsername = u, proxyPassword = p\<rparr>))))))"

definition withAllTraffic :: "codepoints list \<Rightarrow> codepoints list" where
  "withAllTraffic entries = (if ALL_TRAFFIC \<in> set entries then entries else entries @ [ALL_TRAFFIC])"

definition resolveNetwork :: "NetworkValue \<Rightarrow> AllowInternetAccess \<Rightarrow> NetworkError + ResolvedNetworkPolicy" where
  "resolveNetwork network allowInternetAccess =
     andThen (validatedAllowInternetAccess allowInternetAccess) (\<lambda>access.
     andThen (networkObject network) (\<lambda>(allow, deny, proxy).
     andThen (resolveSelector allow ''allowOut'') (\<lambda>allowOut.
     andThen (resolveSelector deny ''denyOut'') (\<lambda>denyOut.
     andThen (resolveEgressProxy proxy) (\<lambda>egressProxy.
       Inr \<lparr>allowOut = allowOut, denyOut = (if access = Some False then withAllTraffic denyOut else denyOut),
            egressProxy = egressProxy\<rparr>)))))"

definition requiresEnforcement :: "ResolvedNetworkPolicy \<Rightarrow> bool" where
  "requiresEnforcement policy \<longleftrightarrow> length (denyOut policy) > 0 \<or> egressProxy policy \<noteq> None"

definition isEmptyPolicy :: "ResolvedNetworkPolicy \<Rightarrow> bool" where
  "isEmptyPolicy policy \<longleftrightarrow> length (allowOut policy) = 0 \<and> length (denyOut policy) = 0 \<and> egressProxy policy = None"

definition egressFeature :: "ResolvedNetworkPolicy \<Rightarrow> bool option \<Rightarrow> string" where
  "egressFeature policy allowInternetAccess =
     (if allowInternetAccess = Some False \<and> length (allowOut policy) = 0 \<and> egressProxy policy = None \<and>
         length (denyOut policy) = 1 \<and> hd (denyOut policy) = ALL_TRAFFIC
      then ''allowInternetAccess: false'' else ''network'')"

definition rejectNetworkWithPool :: "ResolvedNetworkPolicy \<Rightarrow> NetworkError + unit" where
  "rejectNetworkWithPool policy = (if \<not> isEmptyPolicy policy then Inl PoolNetwork else Inr ())"

section \<open>Addresses\<close>

text \<open>\<open>isIP\<close>: an IPv4 address has four numbers below 256 without leading zeros.\<close>

definition ipv4Segment :: "codepoints \<Rightarrow> bool" where
  "ipv4Segment s \<longleftrightarrow> s \<noteq> [] \<and> length s \<le> 3 \<and> list_all decimalDigit s \<and> (hd s \<noteq> 48 \<or> s = [48]) \<and> decimalValue s \<le> 255"

definition isIPv4 :: "codepoints \<Rightarrow> bool" where
  "isIPv4 text \<longleftrightarrow> (let parts = splitOn 46 text in length parts = 4 \<and> list_all ipv4Segment parts)"

definition hexCode :: "nat \<Rightarrow> bool" where
  "hexCode c \<longleftrightarrow> 48 \<le> c \<and> c \<le> 57 \<or> 65 \<le> c \<and> c \<le> 70 \<or> 97 \<le> c \<and> c \<le> 102"

definition ipv6Segment :: "codepoints \<Rightarrow> bool" where
  "ipv6Segment s \<longleftrightarrow> s \<noteq> [] \<and> length s \<le> 4 \<and> list_all hexCode s"

text \<open>The groups between colons, of which the last may be an IPv4 address and then counts twice;
  \<open>None\<close> when one of them is not a group.\<close>

fun ipv6Groups :: "bool \<Rightarrow> codepoints list \<Rightarrow> nat option" where
  "ipv6Groups v4 [] = Some 0"
| "ipv6Groups v4 [g] = (if ipv6Segment g then Some 1 else if v4 \<and> isIPv4 g then Some 2 else None)"
| "ipv6Groups v4 (g # gs) = (if ipv6Segment g then map_option Suc (ipv6Groups v4 gs) else None)"

definition colonGroups :: "codepoints \<Rightarrow> codepoints list" where
  "colonGroups text = (if text = [] then [] else splitOn 58 text)"

text \<open>Eight groups, or a \<open>::\<close> with at most seven.\<close>

definition ipv6Body :: "codepoints \<Rightarrow> bool" where
  "ipv6Body text =
     (case splitStr [58, 58] text of
        [whole] \<Rightarrow> ipv6Groups True (colonGroups whole) = Some 8
      | [left, right] \<Rightarrow>
          (case (ipv6Groups False (colonGroups left), ipv6Groups True (colonGroups right)) of
             (Some a, Some b) \<Rightarrow> a + b \<le> 7
           | _ \<Rightarrow> False)
      | _ \<Rightarrow> False)"

definition zoneChar :: "nat \<Rightarrow> bool" where
  "zoneChar c \<longleftrightarrow> 48 \<le> c \<and> c \<le> 57 \<or> 97 \<le> c \<and> c \<le> 122 \<or> 65 \<le> c \<and> c \<le> 90 \<or> c \<in> {45, 46, 58}"

definition isIPv6 :: "codepoints \<Rightarrow> bool" where
  "isIPv6 text =
     (case indexOf 37 text of
        None \<Rightarrow> ipv6Body text
      | Some i \<Rightarrow> ipv6Body (take i text) \<and> drop (Suc i) text \<noteq> [] \<and> list_all zoneChar (drop (Suc i) text))"

definition isIP :: "codepoints \<Rightarrow> nat" where
  "isIP text = (if isIPv4 text then 4 else if isIPv6 text then 6 else 0)"

definition isNetworkEntry :: "codepoints \<Rightarrow> bool" where
  "isNetworkEntry entry =
     (let slash = indexOf SLASH entry;
          address = (case slash of None \<Rightarrow> entry | Some i \<Rightarrow> take i entry);
          family = isIP address
      in if family = 0 then False
         else case slash of
                None \<Rightarrow> True
              | Some i \<Rightarrow>
                  let p = drop (Suc i) entry
                  in if \<not> (1 \<le> length p \<and> length p \<le> 3 \<and> list_all decimalDigit p) then False
                     else decimalValue p \<le> (if family = 4 then IPV4_MAX_PREFIX else IPV6_MAX_PREFIX))"

section \<open>The shape of a policy\<close>

text \<open>\<open>Buffer.byteLength(text, "utf8")\<close>.\<close>

fun utf8Length :: "codepoints \<Rightarrow> nat" where
  "utf8Length [] = 0"
| "utf8Length (c # rest) =
     (if c < 128 then 1 + utf8Length rest
      else if c < 2048 then 2 + utf8Length rest
      else case rest of
             d # rest' \<Rightarrow> if highSurrogate c \<and> lowSurrogate d then 4 + utf8Length rest' else 3 + utf8Length rest
           | [] \<Rightarrow> 3)"

fun noBlankFrom :: "string \<Rightarrow> nat \<Rightarrow> codepoints list \<Rightarrow> NetworkError + unit" where
  "noBlankFrom field i [] = Inr ()"
| "noBlankFrom field i (e # es) = (if trimBy jsSpace e = [] then Inl (BlankEntry field i) else noBlankFrom field (Suc i) es)"

definition validateList :: "codepoints list \<Rightarrow> string \<Rightarrow> NetworkError + unit" where
  "validateList entries field =
     (if length entries > EGRESS_MAX_ENTRIES_PER_LIST then Inl (TooManyEntries field) else noBlankFrom field 0 entries)"

fun denyFrom :: "nat \<Rightarrow> codepoints list \<Rightarrow> NetworkError + unit" where
  "denyFrom i [] = Inr ()"
| "denyFrom i (e # es) = (if \<not> isNetworkEntry e then Inl (DenyNotNetwork i) else denyFrom (Suc i) es)"

definition validateDenyEntries :: "codepoints list \<Rightarrow> NetworkError + unit" where
  "validateDenyEntries entries = denyFrom 0 entries"

definition hostnameLength :: "codepoints \<Rightarrow> nat" where
  "hostnameLength entry =
     (let a = (if prefix [42, 46] entry then drop 2 entry else entry)
      in length (if a \<noteq> [] \<and> last a = 46 then butlast a else a))"

fun hostnamesFrom :: "nat \<Rightarrow> nat \<Rightarrow> codepoints list \<Rightarrow> NetworkError + nat" where
  "hostnamesFrom i hostnames [] = Inr hostnames"
| "hostnamesFrom i hostnames (e # es) =
     (if isNetworkEntry e then hostnamesFrom (Suc i) hostnames es
      else if hostnameLength e > EGRESS_HOSTNAME_MAX_CHARS then Inl (HostnameTooLong i)
      else hostnamesFrom (Suc i) (hostnames + 1) es)"

definition validateHostnameEntries :: "codepoints list \<Rightarrow> NetworkError + unit" where
  "validateHostnameEntries entries =
     andThen (hostnamesFrom 0 0 entries) (\<lambda>hostnames.
       if hostnames > EGRESS_MAX_HOSTNAME_ENTRIES then Inl TooManyHostnames else Inr ())"

definition validateCredential :: "codepoints option \<Rightarrow> string \<Rightarrow> NetworkError + unit" where
  "validateCredential v field =
     (case v of
        None \<Rightarrow> Inr ()
      | Some t \<Rightarrow>
          if utf8Length t = 0 \<or> utf8Length t > EGRESS_PROXY_CREDENTIAL_MAX_BYTES then Inl (BadCredential field) else Inr ())"

definition validateEgressProxy :: "EgressProxyInput \<Rightarrow> NetworkError + unit" where
  "validateEgressProxy proxy =
     (if trimBy jsSpace (proxyAddress proxy) = [] then Inl ProxyAddressMissing
      else if proxyPassword proxy \<noteq> None \<and> proxyUsername proxy = None then Inl PasswordWithoutUser
      else andThen (validateCredential (proxyUsername proxy) ''egressProxy.username'') (\<lambda>_.
        validateCredential (proxyPassword proxy) ''egressProxy.password''))"

definition validatePolicyShape :: "ResolvedNetworkPolicy \<Rightarrow> NetworkError + unit" where
  "validatePolicyShape policy =
     andThen (validateList (allowOut policy) ''allowOut'') (\<lambda>_.
     andThen (validateList (denyOut policy) ''denyOut'') (\<lambda>_.
     andThen (validateDenyEntries (denyOut policy)) (\<lambda>_.
     andThen (validateHostnameEntries (allowOut policy)) (\<lambda>_.
       case egressProxy policy of None \<Rightarrow> Inr () | Some proxy \<Rightarrow> validateEgressProxy proxy))))"

section \<open>The messages and the gate of \<open>create()\<close>\<close>

record NetworkPolicyMessage =
  messageAllowOut :: "codepoints list"
  messageDenyOut :: "codepoints list"
  messageProxy :: "EgressProxyInput option"

definition policyToProto :: "ResolvedNetworkPolicy \<Rightarrow> NetworkPolicyMessage" where
  "policyToProto policy =
     \<lparr>messageAllowOut = allowOut policy, messageDenyOut = denyOut policy, messageProxy = egressProxy policy\<rparr>"

text \<open>The enum of the message may have a value that this client does not know.\<close>

datatype EnforcementMessage = MessageNone | MessageGuestRoutes | MessageGuestRoutesAndProxy | MessageValue int

record NetworkStateMessage =
  protoAllowOut :: "codepoints list"
  protoDenyOut :: "codepoints list"
  protoProxyConfigured :: bool
  protoEnforcement :: EnforcementMessage
  protoLocalProxyPort :: nat

record NetworkState =
  stateAllowOut :: "codepoints list"
  stateDenyOut :: "codepoints list"
  egressProxyConfigured :: bool
  stateEnforcement :: EgressEnforcement
  localProxyPort :: "nat option"

definition enforcementFromProto :: "EnforcementMessage \<Rightarrow> EgressEnforcement" where
  "enforcementFromProto v =
     (case v of
        MessageNone \<Rightarrow> EnforcementNone
      | MessageGuestRoutes \<Rightarrow> GuestRoutes
      | MessageGuestRoutesAndProxy \<Rightarrow> GuestRoutesAndProxy
      | MessageValue n \<Rightarrow> EnforcementUnspecified)"

definition stateFromProto :: "NetworkStateMessage \<Rightarrow> NetworkState" where
  "stateFromProto message =
     \<lparr>stateAllowOut = protoAllowOut message, stateDenyOut = protoDenyOut message,
      egressProxyConfigured = protoProxyConfigured message,
      stateEnforcement = enforcementFromProto (protoEnforcement message),
      localProxyPort = (if protoLocalProxyPort message = 0 then None else Some (protoLocalProxyPort message))\<rparr>"

definition isEnforced :: "EgressEnforcement \<Rightarrow> bool" where
  "isEnforced enforcement \<longleftrightarrow> enforcement \<noteq> EnforcementUnspecified \<and> enforcement \<noteq> EnforcementNone"

text \<open>Of the reasons of the two \<open>UnimplementedError\<close>s only what they name is kept.\<close>

definition egressGateError :: "EgressEnforcement \<Rightarrow> string \<Rightarrow> SdkError option" where
  "egressGateError enforcement feature =
     (if isEnforced enforcement then None
      else Some (sdkError UnimplementedError (FeatureMissing feature ''egressEnforcement'') None))"

definition networkRpcError :: "Thrown \<Rightarrow> string \<Rightarrow> Thrown" where
  "networkRpcError e feature =
     (let code = map_option connectCode (asConnectError e)
      in if code = Some FailedPrecondition
         then SdkThrown (sdkError UnimplementedError (FeatureMissing feature ''CAP_NET_ADMIN'') None)
         else if code = Some Unimplemented
         then SdkThrown (sdkError UnimplementedError (FeatureMissing feature ''NetworkService'') None)
         else SdkThrown (translateRpcError e False))"

text \<open>\<open>#sendNetworkPolicy\<close>; the call of the agent is a parameter.\<close>

definition sendNetworkPolicy ::
  "'m CoreEnv \<Rightarrow> (NetworkPolicyMessage \<Rightarrow> ('m, NetworkStateMessage) rpc) \<Rightarrow> ResolvedNetworkPolicy \<Rightarrow> string \<Rightarrow> 'm signal \<Rightarrow>
     ('m, NetworkState) prog" where
  "sendNetworkPolicy env updateNetwork policy feature signal w =
     (case signal w of
        Some reason \<Rightarrow> Some (Inl reason, w)
      | None \<Rightarrow>
          Option.bind (signalledUnary env signal (\<lambda>e. networkRpcError e feature) (updateNetwork (policyToProto policy)) w) (\<lambda>(r, w1).
            Some (map_sum id stateFromProto r, w1)))"

definition throwUnlessEnforced :: "EgressEnforcement \<Rightarrow> string \<Rightarrow> Thrown + unit" where
  "throwUnlessEnforced enforcement feature =
     (case egressGateError enforcement feature of None \<Rightarrow> Inr () | Some gate \<Rightarrow> Inl (SdkThrown gate))"

text \<open>\<open>terminateQuietly\<close>: a failure is only logged.\<close>

definition terminateQuietly :: "'m CoreEnv \<Rightarrow> 'm SandboxCore_scheme \<Rightarrow> 'm SandboxCore_scheme" where
  "terminateQuietly env w = snd (envTerminateMicrovm env w)"

text \<open>\<open>#applyInitialNetwork\<close>; the enforcement that the readiness answer named is an argument, none when
  there was no answer.\<close>

definition applyInitialNetwork ::
  "'m CoreEnv \<Rightarrow> (NetworkPolicyMessage \<Rightarrow> ('m, NetworkStateMessage) rpc) \<Rightarrow> EgressEnforcement option \<Rightarrow>
     ResolvedNetworkPolicy \<Rightarrow> string \<Rightarrow> ('m, unit) prog" where
  "applyInitialNetwork env updateNetwork readiness policy feature w =
     Option.bind
       (case throwUnlessEnforced (case readiness of None \<Rightarrow> EnforcementUnspecified | Some e \<Rightarrow> e) feature of
          Inl e \<Rightarrow> Some (Inl e, w)
        | Inr _ \<Rightarrow>
            Option.bind (sendNetworkPolicy env updateNetwork policy feature noSignal w) (\<lambda>(r, w1).
              Some (andThen r (\<lambda>state. throwUnlessEnforced (stateEnforcement state) feature), w1)))
       (\<lambda>(r, w2). case r of Inr _ \<Rightarrow> Some (Inr (), w2) | Inl e \<Rightarrow> Some (Inl e, terminateQuietly env (closeCore w2)))"

section \<open>Properties\<close>

lemma noBlankFrom_iff: "noBlankFrom field i entries = Inr u \<longleftrightarrow> list_all (\<lambda>e. trimBy jsSpace e \<noteq> []) entries"
  by (induction field i entries rule: noBlankFrom.induct) auto

lemma denyFrom_iff: "denyFrom i entries = Inr u \<longleftrightarrow> list_all isNetworkEntry entries"
  by (induction i entries rule: denyFrom.induct) auto

lemma hostnamesFrom_iff:
  "hostnamesFrom i n entries = Inr m \<longleftrightarrow>
     list_all (\<lambda>e. isNetworkEntry e \<or> hostnameLength e \<le> 253) entries \<and> m = n + length (filter (\<lambda>e. \<not> isNetworkEntry e) entries)"
  by (induction i n entries rule: hostnamesFrom.induct) (auto simp: EGRESS_HOSTNAME_MAX_CHARS_def)

lemma validateCredential_iff: "validateCredential v field = Inr u \<longleftrightarrow> pred_option (\<lambda>t. 1 \<le> utf8Length t \<and> utf8Length t \<le> 255) v"
  by (cases v) (auto simp: validateCredential_def EGRESS_PROXY_CREDENTIAL_MAX_BYTES_def)

lemma allTraffic_entry: "isNetworkEntry ALL_TRAFFIC" "trimBy jsSpace ALL_TRAFFIC \<noteq> []"
  by (simp_all add: isNetworkEntry_def ALL_TRAFFIC_def units_def isIP_def isIPv4_def ipv4Segment_def decimalDigit_def decimalValue_def
      parseDigits_def digitValue_def isDigit_def inRange_def IPV4_MAX_PREFIX_def trimBy_def jsSpace_def Let_def)

text \<open>C26: exactly which egress policies leave the client.  Both lists have at most 256 entries and none of
  them is blank; everything denied is an address or a network; at most 64 of the allowed entries are
  host names, none longer than 253 characters; a proxy has an address, its credentials have between 1
  and 255 bytes, and there is no password without a user.  Denying all traffic, which turning off
  internet access adds, never makes a policy with room for it invalid.\<close>

theorem validatePolicyShape_iff:
  "(validatePolicyShape policy = Inr () \<longleftrightarrow>
     length (allowOut policy) \<le> 256 \<and> length (denyOut policy) \<le> 256 \<and>
     list_all (\<lambda>e. trimBy jsSpace e \<noteq> []) (allowOut policy @ denyOut policy) \<and>
     list_all isNetworkEntry (denyOut policy) \<and>
     list_all (\<lambda>e. isNetworkEntry e \<or> hostnameLength e \<le> 253) (allowOut policy) \<and>
     length (filter (\<lambda>e. \<not> isNetworkEntry e) (allowOut policy)) \<le> 64 \<and>
     pred_option (\<lambda>proxy. trimBy jsSpace (proxyAddress proxy) \<noteq> [] \<and>
       pred_option (\<lambda>t. 1 \<le> utf8Length t \<and> utf8Length t \<le> 255) (proxyUsername proxy) \<and>
       pred_option (\<lambda>t. proxyUsername proxy \<noteq> None \<and> 1 \<le> utf8Length t \<and> utf8Length t \<le> 255) (proxyPassword proxy)) (egressProxy policy)) \<and>
   (validatePolicyShape (policy\<lparr>denyOut := withAllTraffic (denyOut policy)\<rparr>) = Inr () \<longleftrightarrow>
     validatePolicyShape policy = Inr () \<and> length (withAllTraffic (denyOut policy)) \<le> 256)"
proof -
  note iffs = validatePolicyShape_def throw_iff validateList_def noBlankFrom_iff validateDenyEntries_def denyFrom_iff
    validateHostnameEntries_def hostnamesFrom_iff validateEgressProxy_def validateCredential_iff
    EGRESS_MAX_ENTRIES_PER_LIST_def EGRESS_MAX_HOSTNAME_ENTRIES_def
  have "validateEgressProxy proxy = Inr () \<longleftrightarrow> trimBy jsSpace (proxyAddress proxy) \<noteq> [] \<and>
       pred_option (\<lambda>t. 1 \<le> utf8Length t \<and> utf8Length t \<le> 255) (proxyUsername proxy) \<and>
       pred_option (\<lambda>t. proxyUsername proxy \<noteq> None \<and> 1 \<le> utf8Length t \<and> utf8Length t \<le> 255) (proxyPassword proxy)" for proxy
    by (cases "proxyPassword proxy") (auto simp: iffs)
  then show ?thesis
    using allTraffic_entry by (cases "egressProxy policy") (auto simp: iffs withAllTraffic_def)
qed

lemma throwUnlessEnforced_iff: "throwUnlessEnforced e feature = Inr u \<longleftrightarrow> e = GuestRoutes \<or> e = GuestRoutesAndProxy"
  by (cases e) (auto simp: throwUnlessEnforced_def egressGateError_def isEnforced_def)

lemma closeCore_closed: "coreClosed (closeCore w)"
  by (simp add: closeCore_def notifyResumed_def)

lemma sendNetworkPolicy_Inr:
  assumes "sendNetworkPolicy env updateNetwork policy feature noSignal w = Some (Inr st, w')"
  shows "\<exists>m. signalledUnary env noSignal (\<lambda>e. networkRpcError e feature) (updateNetwork (policyToProto policy)) w = Some (Inr m, w') \<and>
    st = stateFromProto m"
proof -
  obtain x where "signalledUnary env noSignal (\<lambda>e. networkRpcError e feature) (updateNetwork (policyToProto policy)) w = Some (x, w')"
    and "map_sum id stateFromProto x = Inr st"
    using assms by (auto simp: sendNetworkPolicy_def noSignal_def bind_eq_Some_conv)
  then show ?thesis by (cases x) auto
qed

lemma initial_network_outcome:
  assumes "applyInitialNetwork env updateNetwork readiness policy feature w = Some (r, w')"
  shows "(\<exists>e m. r = Inr () \<and> readiness = Some e \<and> e \<in> {GuestRoutes, GuestRoutesAndProxy} \<and>
       signalledUnary env noSignal (\<lambda>e. networkRpcError e feature) (updateNetwork
         \<lparr>messageAllowOut = allowOut policy, messageDenyOut = denyOut policy, messageProxy = egressProxy policy\<rparr>) w = Some (Inr m, w') \<and>
       protoEnforcement m \<in> {MessageGuestRoutes, MessageGuestRoutesAndProxy}) \<or>
     (\<exists>e w1. r = Inl e \<and> coreClosed w1 \<and> w' = snd (envTerminateMicrovm env w1))"
proof -
  define attempt where "attempt = (case throwUnlessEnforced (case readiness of None \<Rightarrow> EnforcementUnspecified | Some e \<Rightarrow> e) feature of
          Inl e \<Rightarrow> Some (Inl e, w)
        | Inr _ \<Rightarrow>
            Option.bind (sendNetworkPolicy env updateNetwork policy feature noSignal w) (\<lambda>(r, w1).
              Some (andThen r (\<lambda>state. throwUnlessEnforced (stateEnforcement state) feature), w1)))"
  obtain r0 w2 where attempt: "attempt = Some (r0, w2)"
    and outcome: "(case r0 of Inr _ \<Rightarrow> Some (Inr (), w2) | Inl e \<Rightarrow> Some (Inl e, terminateQuietly env (closeCore w2))) = Some (r, w')"
    using assms unfolding applyInitialNetwork_def attempt_def [symmetric] by (auto simp: bind_eq_Some_conv)
  show ?thesis
  proof (cases r0)
    case (Inl e)
    then show ?thesis using outcome closeCore_closed [of w2] by (auto simp: terminateQuietly_def)
  next
    case (Inr u)
    then have done': "r = Inr ()" "w' = w2" using outcome by auto
    obtain u1 where gate: "throwUnlessEnforced (case readiness of None \<Rightarrow> EnforcementUnspecified | Some e \<Rightarrow> e) feature = Inr u1"
      using attempt Inr unfolding attempt_def by (cases "throwUnlessEnforced (case readiness of None \<Rightarrow> EnforcementUnspecified | Some e \<Rightarrow> e) feature") auto
    then obtain st where st: "sendNetworkPolicy env updateNetwork policy feature noSignal w = Some (Inr st, w2)"
      "throwUnlessEnforced (stateEnforcement st) feature = Inr ()"
      using attempt Inr by (auto simp: attempt_def bind_eq_Some_conv throw_iff)
    then obtain m where m: "signalledUnary env noSignal (\<lambda>e. networkRpcError e feature) (updateNetwork (policyToProto policy)) w = Some (Inr m, w2)"
      "st = stateFromProto m" using sendNetworkPolicy_Inr by blast
    have "protoEnforcement m \<in> {MessageGuestRoutes, MessageGuestRoutesAndProxy}"
      using st(2) m(2) by (cases "protoEnforcement m") (auto simp: throwUnlessEnforced_iff stateFromProto_def enforcementFromProto_def)
    moreover obtain e where "readiness = Some e" "e \<in> {GuestRoutes, GuestRoutesAndProxy}"
      using gate by (cases readiness) (auto simp: throwUnlessEnforced_iff)
    ultimately show ?thesis using done' m(1) by (auto simp: policyToProto_def)
  qed
qed

text \<open>C15: the gate of \<open>create()\<close> fails closed.  It returns only when the readiness answer named an
  enforcement that applies policies and the agent, sent exactly this policy, confirmed one; an unknown value, no
  value and none do not count.  In every other case the error reaches the caller with the handle closed and after the
  sandbox was asked to terminate.\<close>

theorem initial_network_fails_closed:
  assumes "applyInitialNetwork env updateNetwork readiness policy feature w = Some (r, w')"
  shows "(\<exists>e m. r = Inr () \<and> readiness = Some e \<and> e \<in> {GuestRoutes, GuestRoutesAndProxy} \<and>
       signalledUnary env noSignal (\<lambda>e. networkRpcError e feature) (updateNetwork
         \<lparr>messageAllowOut = allowOut policy, messageDenyOut = denyOut policy, messageProxy = egressProxy policy\<rparr>) w = Some (Inr m, w') \<and>
       protoEnforcement m \<in> {MessageGuestRoutes, MessageGuestRoutesAndProxy}) \<or>
     (\<exists>e w1. r = Inl e \<and> coreClosed w1 \<and> w' = snd (envTerminateMicrovm env w1))"
  using assms by (rule initial_network_outcome)

definition demoPolicy :: ResolvedNetworkPolicy where
  "demoPolicy = \<lparr>allowOut = [], denyOut = [ALL_TRAFFIC], egressProxy = None\<rparr>"

definition demoUpdate :: "NetworkPolicyMessage \<Rightarrow> (rat, NetworkStateMessage) rpc" where
  "demoUpdate message w =
     (Inr \<lparr>protoAllowOut = messageAllowOut message, protoDenyOut = messageDenyOut message, protoProxyConfigured = False,
        protoEnforcement = MessageNone, protoLocalProxyPort = 0\<rparr>, w)"

theorem initial_network_fails_closed_witness:
  "\<exists>e w1. applyInitialNetwork demoEnv demoUpdate (Some GuestRoutes) demoPolicy ''network'' demoCore =
     Some (Inl e, snd (envTerminateMicrovm demoEnv w1)) \<and> coreClosed w1"
proof -
  obtain e w' where run: "applyInitialNetwork demoEnv demoUpdate (Some GuestRoutes) demoPolicy ''network'' demoCore = Some (Inl e, w')"
    by (simp add: applyInitialNetwork_def throwUnlessEnforced_def egressGateError_def isEnforced_def sendNetworkPolicy_def noSignal_def
        signalledUnary_def callUnary_def callUnaryWith_def callUnaryOnce_def retryUnestablished_def CONNECT_RETRY_DELAYS_MS_def demoUpdate_def
        stateFromProto_def enforcementFromProto_def)
  from initial_network_fails_closed [OF run] run show ?thesis by auto
qed

end
