(* ===== verification/Utf8.thy ===== *)
theory Utf8
  imports Js_Json
begin

text \<open>
  Text and its bytes.  JavaScript text is a list of UTF-16 code units; \<open>Buffer.from(text, "utf8")\<close> and
  \<open>TextEncoder\<close> write it as UTF-8, and \<open>TextDecoder\<close> reads UTF-8 one byte at a time, which is what lets it
  work on a stream: with \<open>fatal\<close> an ill-formed sequence is an error, otherwise it becomes U+FFFD.  Shown
  here: text without lone surrogates is read back from its bytes, wherever the bytes are cut.
\<close>

section \<open>Code points\<close>

definition surrogate :: "nat \<Rightarrow> bool" where "surrogate c \<longleftrightarrow> highSurrogate c \<or> lowSurrogate c"

definition scalarValue :: "nat \<Rightarrow> bool" where "scalarValue c \<longleftrightarrow> c < 1114112 \<and> \<not> surrogate c"

text \<open>\<open>Array.from(text, (char) => char.codePointAt(0))\<close>: a lone surrogate is a code point of its own.\<close>

fun pointsOf :: "codepoints \<Rightarrow> nat list" where
  "pointsOf [] = []"
| "pointsOf [c] = [c]"
| "pointsOf (c # d # rest) =
     (if highSurrogate c \<and> lowSurrogate d then (65536 + (c - 55296) * 1024 + (d - 56320)) # pointsOf rest
      else c # pointsOf (d # rest))"

definition unitsOf :: "nat \<Rightarrow> codepoints" where
  "unitsOf c = (if c < 65536 then [c] else [55296 + (c - 65536) div 1024, 56320 + (c - 65536) mod 1024])"

section \<open>Writing\<close>

definition utf8Bytes :: "nat \<Rightarrow> nat list" where
  "utf8Bytes c =
     (if c < 128 then [c]
      else if c < 2048 then [192 + c div 64, 128 + c mod 64]
      else if c < 65536 then [224 + c div 4096, 128 + c div 64 mod 64, 128 + c mod 64]
      else [240 + c div 262144, 128 + c div 4096 mod 64, 128 + c div 64 mod 64, 128 + c mod 64])"

definition REPLACEMENT :: nat where "REPLACEMENT = 65533"

text \<open>\<open>Buffer.from(text, "utf8")\<close>: a lone surrogate is written as U+FFFD.\<close>

definition bufferFromText :: "codepoints \<Rightarrow> nat list" where
  "bufferFromText text = concat (map (\<lambda>c. utf8Bytes (if surrogate c then REPLACEMENT else c)) (pointsOf text))"

section \<open>Reading\<close>

text \<open>The state of the decoder: how many bytes are missing, the bits so far and the bounds of the next
  byte.  \<open>None\<close> among the results is an error.\<close>

record Utf8State =
  bytesMissing :: nat
  pointSoFar :: nat
  lowerBound :: nat
  upperBound :: nat

definition utf8Start :: Utf8State where
  "utf8Start = \<lparr>bytesMissing = 0, pointSoFar = 0, lowerBound = 128, upperBound = 191\<rparr>"

definition utf8First :: "nat \<Rightarrow> nat option list \<times> Utf8State" where
  "utf8First b =
     (if b < 128 then ([Some b], utf8Start)
      else if 194 \<le> b \<and> b \<le> 223 then ([], utf8Start\<lparr>bytesMissing := 1, pointSoFar := b - 192\<rparr>)
      else if 224 \<le> b \<and> b \<le> 239 then
        ([], \<lparr>bytesMissing = 2, pointSoFar = b - 224, lowerBound = (if b = 224 then 160 else 128),
              upperBound = (if b = 237 then 159 else 191)\<rparr>)
      else if 240 \<le> b \<and> b \<le> 244 then
        ([], \<lparr>bytesMissing = 3, pointSoFar = b - 240, lowerBound = (if b = 240 then 144 else 128),
              upperBound = (if b = 244 then 143 else 191)\<rparr>)
      else ([None], utf8Start))"

definition utf8Step :: "Utf8State \<Rightarrow> nat \<Rightarrow> nat option list \<times> Utf8State" where
  "utf8Step st b =
     (if bytesMissing st = 0 then utf8First b
      else if \<not> (lowerBound st \<le> b \<and> b \<le> upperBound st) then apfst (Cons None) (utf8First b)
      else let p = pointSoFar st * 64 + (b - 128)
           in if bytesMissing st = 1 then ([Some p], utf8Start)
              else ([], utf8Start\<lparr>bytesMissing := bytesMissing st - 1, pointSoFar := p\<rparr>))"

fun utf8Run :: "Utf8State \<Rightarrow> nat list \<Rightarrow> nat option list \<times> Utf8State" where
  "utf8Run st [] = ([], st)"
| "utf8Run st (b # bs) = (let (out, st1) = utf8Step st b in apfst (append out) (utf8Run st1 bs))"

text \<open>The end of the input is an error inside a sequence.\<close>

definition utf8End :: "Utf8State \<Rightarrow> nat option list" where
  "utf8End st = (if bytesMissing st = 0 then [] else [None])"

text \<open>A byte order mark at the start is not part of the text.\<close>

definition BYTE_ORDER_MARK :: nat where "BYTE_ORDER_MARK = 65279"

definition withoutMark :: "nat option list \<Rightarrow> nat option list" where
  "withoutMark out = (if take 1 out = [Some BYTE_ORDER_MARK] then drop 1 out else out)"

definition replaced :: "nat option list \<Rightarrow> codepoints" where
  "replaced out = concat (map (\<lambda>p. unitsOf (case p of None \<Rightarrow> REPLACEMENT | Some c \<Rightarrow> c)) out)"

definition utf8Decoded :: "nat list \<Rightarrow> nat option list" where
  "utf8Decoded bytes = (let (out, st) = utf8Run utf8Start bytes in out @ utf8End st)"

text \<open>\<open>new TextDecoder().decode(bytes)\<close>, and with \<open>fatal: true\<close>.\<close>

definition textDecode :: "nat list \<Rightarrow> codepoints" where
  "textDecode bytes = replaced (withoutMark (utf8Decoded bytes))"

definition fatalDecode :: "nat list \<Rightarrow> codepoints option" where
  "fatalDecode bytes =
     (let out = utf8Decoded bytes in if None \<in> set out then None else Some (replaced (withoutMark out)))"

section \<open>Reading what was written\<close>

lemma utf8Run_append:
  "utf8Run st (xs @ ys) = (let (out, st1) = utf8Run st xs in apfst (append out) (utf8Run st1 ys))"
  by (induction xs arbitrary: st) (auto simp: split_def Let_def apfst_def map_prod_def)

lemma scalarValue_range: "scalarValue c \<longleftrightarrow> c < 55296 \<or> 57344 \<le> c \<and> c < 1114112"
  by (auto simp: scalarValue_def surrogate_def highSurrogate_def lowSurrogate_def)

lemma split_64:
  fixes c :: nat
  shows "c div 64 * 64 + c mod 64 = c" "(c div 4096 * 64 + c div 64 mod 64) * 64 + c mod 64 = c"
    "((c div 262144 * 64 + c div 4096 mod 64) * 64 + c div 64 mod 64) * 64 + c mod 64 = c"
proof -
  have a: "c div 4096 = c div 64 div 64" "c div 262144 = c div 64 div 64 div 64" by (simp_all add: div_mult2_eq [symmetric])
  show "c div 64 * 64 + c mod 64 = c" by simp
  then show "(c div 4096 * 64 + c div 64 mod 64) * 64 + c mod 64 = c" unfolding a by simp
  then show "((c div 262144 * 64 + c div 4096 mod 64) * 64 + c div 64 mod 64) * 64 + c mod 64 = c" unfolding a by simp
qed

lemma low_64: "(x :: nat) mod 64 < 64"
  by simp

lemma utf8Run_sequences:
  "2 \<le> h \<Longrightarrow> h < 32 \<Longrightarrow> l < 64 \<Longrightarrow> utf8Run utf8Start [192 + h, 128 + l] = ([Some (h * 64 + l)], utf8Start)"
  "h < 16 \<Longrightarrow> m < 64 \<Longrightarrow> l < 64 \<Longrightarrow> h = 0 \<longrightarrow> 32 \<le> m \<Longrightarrow> h = 13 \<longrightarrow> m < 32 \<Longrightarrow>
     utf8Run utf8Start [224 + h, 128 + m, 128 + l] = ([Some ((h * 64 + m) * 64 + l)], utf8Start)"
  "h \<le> 4 \<Longrightarrow> n < 64 \<Longrightarrow> m < 64 \<Longrightarrow> l < 64 \<Longrightarrow> h = 0 \<longrightarrow> 16 \<le> n \<Longrightarrow> h = 4 \<longrightarrow> n < 16 \<Longrightarrow>
     utf8Run utf8Start [240 + h, 128 + n, 128 + m, 128 + l] = ([Some (((h * 64 + n) * 64 + m) * 64 + l)], utf8Start)"
  by (auto simp: utf8Step_def utf8First_def utf8Start_def Let_def)

lemma utf8Run_bytes:
  assumes "scalarValue c"
  shows "utf8Run utf8Start (utf8Bytes c) = ([Some c], utf8Start)"
proof -
  consider "c < 128" | "128 \<le> c" "c < 2048" | "2048 \<le> c" "c < 65536" | "65536 \<le> c" by linarith
  then show ?thesis
  proof cases
    case 1
    then show ?thesis by (simp add: utf8Bytes_def utf8Step_def utf8First_def utf8Start_def)
  next
    case 2
    have "2 \<le> c div 64" "c div 64 < 32" using 2 div_le_mono [of 128 c 64] by (simp_all add: less_mult_imp_div_less)
    with 2 utf8Run_sequences(1) [of "c div 64" "c mod 64"] show ?thesis by (simp add: utf8Bytes_def split_64 del: utf8Run.simps)
  next
    case 3
    have hi: "c div 4096 < 16" using 3 by (simp add: less_mult_imp_div_less)
    have lo: "32 \<le> c div 64 mod 64" if "c div 4096 = 0"
    proof -
      from that have "c < 4096" by (simp add: div_eq_0_iff)
      then have "c div 64 < 64" "32 \<le> c div 64" using 3(1) div_le_mono [of 2048 c 64] by (simp_all add: less_mult_imp_div_less)
      then show ?thesis by simp
    qed
    have up: "c div 64 mod 64 < 32" if "c div 4096 = 13"
    proof -
      have "c < 55296" using that assms unfolding scalarValue_range by auto
      then have "c div 64 < 864" by (simp add: less_mult_imp_div_less)
      moreover have "c div 64 div 64 = 13" using that by (simp add: div_mult2_eq [symmetric])
      ultimately show ?thesis by (simp add: minus_div_mult_eq_mod [symmetric])
    qed
    from 3 hi lo up utf8Run_sequences(2) [of "c div 4096" "c div 64 mod 64" "c mod 64"] show ?thesis
      by (simp only: utf8Bytes_def split_64 low_64 not_less [symmetric] if_False if_True) simp
  next
    case 4
    have hi: "c div 262144 \<le> 4" using assms div_le_mono [of c 1114111 262144] by (auto simp: scalarValue_range)
    have lo: "16 \<le> c div 4096 mod 64" if "c div 262144 = 0"
    proof -
      from that have "c < 262144" by (simp add: div_eq_0_iff)
      then have "c div 4096 < 64" "16 \<le> c div 4096" using 4 div_le_mono [of 65536 c 4096] by (simp_all add: less_mult_imp_div_less)
      then show ?thesis by simp
    qed
    have up: "c div 4096 mod 64 < 16" if "c div 262144 = 4"
    proof -
      have "c div 4096 < 272" using 4 assms by (simp add: scalarValue_range less_mult_imp_div_less)
      moreover have "c div 4096 div 64 = 4" using that by (simp add: div_mult2_eq [symmetric])
      ultimately show ?thesis by (simp add: minus_div_mult_eq_mod [symmetric])
    qed
    from 4 hi lo up utf8Run_sequences(3) [of "c div 262144" "c div 4096 mod 64" "c div 64 mod 64" "c mod 64"] split_64(3) [of c] show ?thesis
      by (simp add: utf8Bytes_def del: utf8Run.simps)
  qed
qed

lemma utf8Run_points:
  "list_all scalarValue ps \<Longrightarrow> utf8Run utf8Start (concat (map utf8Bytes ps)) = (map Some ps, utf8Start)"
  by (induction ps) (simp_all add: utf8Run_append utf8Run_bytes)

lemma utf8Bytes_range: "scalarValue c \<Longrightarrow> list_all (\<lambda>b. b < 256) (utf8Bytes c)"
proof -
  assume "scalarValue c"
  then have "c div 262144 \<le> 4" using div_le_mono [of c 1114111 262144] by (auto simp: scalarValue_range)
  moreover have "c div 4096 < 16" if "c < 65536" using that by (simp add: less_mult_imp_div_less)
  moreover have "c div 64 < 32" if "c < 2048" using that by (simp add: less_mult_imp_div_less)
  ultimately show ?thesis using low_64 [of c] low_64 [of "c div 64"] low_64 [of "c div 4096"] by (auto simp: utf8Bytes_def)
qed

text \<open>Text in code points, and back.\<close>

lemma pair_point:
  assumes "highSurrogate c" "lowSurrogate d"
  shows "unitsOf (65536 + (c - 55296) * 1024 + (d - 56320)) = [c, d]" "scalarValue (65536 + (c - 55296) * 1024 + (d - 56320))"
proof -
  have d: "d - 56320 < 1024" "c - 55296 < 1024" using assms by (auto simp: highSurrogate_def lowSurrogate_def)
  then have "((c - 55296) * 1024 + (d - 56320)) div 1024 = c - 55296" "((c - 55296) * 1024 + (d - 56320)) mod 1024 = d - 56320"
    by simp_all
  with assms show "unitsOf (65536 + (c - 55296) * 1024 + (d - 56320)) = [c, d]"
    by (simp add: unitsOf_def highSurrogate_def lowSurrogate_def)
  show "scalarValue (65536 + (c - 55296) * 1024 + (d - 56320))" using d by (simp add: scalarValue_range)
qed

lemma units_of_points: "jsText s \<Longrightarrow> concat (map unitsOf (pointsOf s)) = s"
  by (induction s rule: pointsOf.induct) (auto simp: jsText_def pair_point, simp_all add: unitsOf_def)

text \<open>Text without lone surrogates.\<close>

definition wellFormed :: "codepoints \<Rightarrow> bool" where
  "wellFormed s \<longleftrightarrow> jsText s \<and> list_all scalarValue (pointsOf s)"

lemma wellFormed_bytes: "wellFormed s \<Longrightarrow> bufferFromText s = concat (map utf8Bytes (pointsOf s))"
  unfolding bufferFromText_def wellFormed_def scalarValue_def list_all_iff
  by (intro arg_cong [where f = concat] map_cong) auto

lemma utf8Decoded_text: "wellFormed s \<Longrightarrow> utf8Decoded (bufferFromText s) = map Some (pointsOf s)"
  by (simp add: utf8Decoded_def wellFormed_bytes utf8Run_points wellFormed_def utf8End_def) (simp add: utf8Start_def)

lemma replaced_points: "replaced (map Some ps) = concat (map unitsOf ps)"
  by (simp add: replaced_def comp_def)

lemma fatalDecode_text:
  assumes "wellFormed s" "take 1 s \<noteq> [BYTE_ORDER_MARK]"
  shows "fatalDecode (bufferFromText s) = Some s" "textDecode (bufferFromText s) = s"
proof -
  have "take 1 (pointsOf s) \<noteq> [BYTE_ORDER_MARK]"
    using assms(2) by (cases s rule: pointsOf.cases) (auto simp: BYTE_ORDER_MARK_def highSurrogate_def)
  then have "withoutMark (map Some (pointsOf s)) = map Some (pointsOf s)" by (auto simp: withoutMark_def take_map)
  moreover have "concat (map unitsOf (pointsOf s)) = s" using assms(1) units_of_points by (simp add: wellFormed_def)
  ultimately show "fatalDecode (bufferFromText s) = Some s" "textDecode (bufferFromText s) = s"
    by (simp_all add: fatalDecode_def textDecode_def utf8Decoded_text [OF assms(1)] replaced_points Let_def image_iff)
qed

lemma points_of_units: "list_all scalarValue ps \<Longrightarrow> pointsOf (concat (map unitsOf ps)) = ps"
proof (induction ps)
  case (Cons p ps)
  show ?case
  proof (cases "p < 65536")
    case True
    with Cons.prems have "\<not> highSurrogate p" by (simp add: scalarValue_def surrogate_def)
    then have "pointsOf (p # us) = p # pointsOf us" for us by (cases us) simp_all
    with True Cons show ?thesis by (simp add: unitsOf_def)
  next
    case False
    have "(p - 65536) div 1024 < 1024" using Cons.prems False by (auto simp: scalarValue_range less_mult_imp_div_less)
    then have pair: "highSurrogate (55296 + (p - 65536) div 1024)" "lowSurrogate (56320 + (p - 65536) mod 1024)"
      using mod_less_divisor [of 1024 "p - 65536"] by (simp_all add: highSurrogate_def lowSurrogate_def)
    have "65536 + (p - 65536) div 1024 * 1024 + (p - 65536) mod 1024 = p" using False by simp
    with pair False Cons show ?thesis by (simp add: unitsOf_def)
  qed
qed simp

lemma textOf_wellFormed: "list_all scalarValue ps \<Longrightarrow> wellFormed (concat (map unitsOf ps))"
proof -
  assume ps: "list_all scalarValue ps"
  have "list_all (\<lambda>u. u < 65536) (unitsOf p)" if "scalarValue p" for p
    using that by (auto simp: unitsOf_def scalarValue_range less_mult_imp_div_less)
  then have "jsText (concat (map unitsOf ps))" using ps by (auto simp: jsText_def list_all_iff)
  with ps show ?thesis by (simp add: wellFormed_def points_of_units)
qed

text \<open>The decoder only names scalar values: what every completion of its state is.\<close>

definition bitsOk :: "nat \<Rightarrow> bool" where "bitsOk q \<longleftrightarrow> q < 864 \<or> 896 \<le> q \<and> q < 17408"

definition utf8Ok :: "Utf8State \<Rightarrow> bool" where
  "utf8Ok st \<longleftrightarrow> bytesMissing st \<le> 3 \<and> 128 \<le> lowerBound st \<and> upperBound st \<le> 191 \<and>
     (bytesMissing st = 1 \<longrightarrow> bitsOk (pointSoFar st)) \<and>
     (bytesMissing st = 2 \<longrightarrow> (\<forall>b. lowerBound st \<le> b \<and> b \<le> upperBound st \<longrightarrow> bitsOk (pointSoFar st * 64 + (b - 128)))) \<and>
     (bytesMissing st = 3 \<longrightarrow> (\<forall>b. lowerBound st \<le> b \<and> b \<le> upperBound st \<longrightarrow>
        16 \<le> pointSoFar st * 64 + (b - 128) \<and> pointSoFar st * 64 + (b - 128) < 272))"

lemma utf8Start_ok [simp]: "utf8Ok utf8Start" "bytesMissing utf8Start = 0"
  by (simp_all add: utf8Ok_def utf8Start_def)

lemma utf8First_ok: "utf8Ok (snd (utf8First b)) \<and> (\<forall>p. Some p \<in> set (fst (utf8First b)) \<longrightarrow> scalarValue p)"
proof -
  consider "b < 128" | "194 \<le> b" "b \<le> 223" | "224 \<le> b" "b \<le> 239" | "240 \<le> b" "b \<le> 244" | "128 \<le> b" "b < 194 \<or> 244 < b" by linarith
  then show ?thesis
  proof cases
    case 3
    then show ?thesis by (auto simp: utf8First_def utf8Ok_def bitsOk_def)
  next
    case 4
    then show ?thesis by (auto simp: utf8First_def utf8Ok_def)
  qed (auto simp: utf8First_def utf8Ok_def utf8Start_def bitsOk_def scalarValue_range)
qed

lemma utf8Step_ok:
  assumes "utf8Ok st"
  shows "utf8Ok (snd (utf8Step st b)) \<and> (\<forall>p. Some p \<in> set (fst (utf8Step st b)) \<longrightarrow> scalarValue p)"
proof (cases "bytesMissing st = 0 \<or> \<not> (lowerBound st \<le> b \<and> b \<le> upperBound st)")
  case True
  then show ?thesis using utf8First_ok [of b] by (auto simp: utf8Step_def)
next
  case False
  then have b: "128 \<le> b" "b \<le> 191" using assms by (auto simp: utf8Ok_def)
  have "bytesMissing st \<le> 3" "bytesMissing st \<noteq> 0" using False assms by (simp_all add: utf8Ok_def)
  then consider "bytesMissing st = 1" | "bytesMissing st = 2" | "bytesMissing st = 3" by linarith
  then show ?thesis
  proof cases
    case 1
    with False assms b show ?thesis by (auto simp: utf8Step_def utf8Ok_def Let_def bitsOk_def scalarValue_range utf8Start_def)
  next
    case 2
    with False assms show ?thesis by (auto simp: utf8Step_def utf8Ok_def Let_def utf8Start_def)
  next
    case 3
    define r where "r = pointSoFar st * 64 + (b - 128)"
    have "16 \<le> r" "r < 272" using 3 False assms by (auto simp: utf8Ok_def r_def)
    then have "bitsOk (r * 64 + (x - 128))" if "128 \<le> x" "x \<le> 191" for x using that by (auto simp: bitsOk_def)
    moreover have "utf8Step st b = ([], utf8Start\<lparr>bytesMissing := 2, pointSoFar := r\<rparr>)"
      using 3 False by (simp add: utf8Step_def r_def Let_def)
    ultimately show ?thesis by (simp add: utf8Ok_def utf8Start_def)
  qed
qed

lemma utf8Run_ok:
  "utf8Ok st \<Longrightarrow> utf8Ok (snd (utf8Run st bs)) \<and> (\<forall>p. Some p \<in> set (fst (utf8Run st bs)) \<longrightarrow> scalarValue p)"
proof (induction bs arbitrary: st)
  case (Cons b bs)
  with utf8Step_ok [OF Cons.prems, of b] Cons.IH [of "snd (utf8Step st b)"] show ?case by (auto simp: split_def Let_def)
qed simp

lemma replaced_scalars:
  assumes "\<And>p. Some p \<in> set out \<Longrightarrow> scalarValue p"
  obtains ps where "replaced out = concat (map unitsOf ps)" "list_all scalarValue ps"
proof
  show "replaced out = concat (map unitsOf (map (\<lambda>p. case p of None \<Rightarrow> REPLACEMENT | Some c \<Rightarrow> c) out))"
    by (simp add: replaced_def comp_def)
  show "list_all scalarValue (map (\<lambda>p. case p of None \<Rightarrow> REPLACEMENT | Some c \<Rightarrow> c) out)"
    using assms by (auto simp: list_all_iff REPLACEMENT_def scalarValue_range split: option.split)
qed

text \<open>Bytes cut in the middle of a sequence: an error for each byte left of it, then the rest.\<close>

lemma utf8Run_continuation:
  "list_all (\<lambda>b. 128 \<le> b \<and> b \<le> 191) bs \<Longrightarrow> utf8Run utf8Start bs = (replicate (length bs) None, utf8Start)"
  by (induction bs) (simp_all add: utf8Step_def utf8First_def)

lemma utf8Bytes_tail: "list_all (\<lambda>b. 128 \<le> b \<and> b \<le> 191) (drop (Suc j) (utf8Bytes c))"
proof -
  have "list_all (\<lambda>b. 128 \<le> b \<and> b \<le> 191) (tl (utf8Bytes c))"
    using low_64 [of c] low_64 [of "c div 64"] low_64 [of "c div 4096"] by (auto simp: utf8Bytes_def)
  then show ?thesis by (auto simp: list_all_iff drop_Suc dest: in_set_dropD)
qed

lemma utf8Bytes_Cons: "utf8Bytes c \<noteq> []"
  by (simp add: utf8Bytes_def)

lemma cut_bytes:
  obtains j qs where "drop k (concat (map utf8Bytes ps)) = j @ concat (map utf8Bytes qs)" "suffix qs ps"
    "list_all (\<lambda>b. 128 \<le> b \<and> b \<le> 191) j"
proof (induction ps arbitrary: k thesis)
  case Nil
  then show ?case by (simp add: Nil [of "[]" "[]"])
next
  case (Cons p ps)
  show ?case
  proof (cases "k = 0 \<or> k < length (utf8Bytes p)")
    case True
    then consider "k = 0" | j where "k = Suc j" "k < length (utf8Bytes p)" by (cases k) auto
    then show ?thesis
    proof cases
      case 1
      then show ?thesis by (intro Cons.prems [of "[]" "p # ps"]) simp_all
    next
      case (2 j)
      then show ?thesis using utf8Bytes_tail [of j p] by (intro Cons.prems [of "drop k (utf8Bytes p)" ps]) (simp_all add: suffix_ConsI)
    qed
  next
    case False
    then obtain j qs where "drop (k - length (utf8Bytes p)) (concat (map utf8Bytes ps)) = j @ concat (map utf8Bytes qs)"
      "suffix qs ps" "list_all (\<lambda>b. 128 \<le> b \<and> b \<le> 191) j" using Cons.IH by blast
    with False show ?thesis by (intro Cons.prems [of j qs]) (simp_all add: suffix_ConsI)
  qed
qed

end
