(* ===== verification/Decoded_Stream.thy ===== *)
theory Decoded_Stream
  imports Utf8
begin

text \<open>
  The output of a process as text (\<open>DecodedStream\<close> of \<open>sandbox/commands.ts\<close>): bytes come in pieces cut
  anywhere, are decoded as they come, go to the callback, and the last \<open>maxBytes\<close> of them are kept as
  text.  The callback gets the decoding of the whole stream, whatever the pieces; what is kept is its end.
\<close>

section \<open>The decoder of a stream\<close>

text \<open>\<open>TextDecoder\<close> with \<open>stream: true\<close>: it remembers an unfinished sequence, and whether the place of the
  byte order mark is past.\<close>

record TextDecoder =
  decoderState :: Utf8State
  markSeen :: bool

definition newTextDecoder :: TextDecoder where
  "newTextDecoder = \<lparr>decoderState = utf8Start, markSeen = False\<rparr>"

definition decodeOut :: "bool \<Rightarrow> nat option list \<Rightarrow> codepoints" where
  "decodeOut seen out = replaced (if seen then out else withoutMark out)"

definition decodeStream :: "TextDecoder \<Rightarrow> nat list \<Rightarrow> codepoints \<times> TextDecoder" where
  "decodeStream d payload =
     (let (out, st) = utf8Run (decoderState d) payload
      in (decodeOut (markSeen d) out, \<lparr>decoderState = st, markSeen = markSeen d \<or> out \<noteq> []\<rparr>))"

text \<open>\<open>decode()\<close>: what the end of the input gives; the decoder starts again.\<close>

definition decodeFlush :: "TextDecoder \<Rightarrow> codepoints \<times> TextDecoder" where
  "decodeFlush d = (decodeOut (markSeen d) (utf8End (decoderState d)), newTextDecoder)"

section \<open>The stream\<close>

record DecodedStream =
  streamDecoder :: TextDecoder
  maxBytes :: nat
  parts :: "(codepoints \<times> nat) list"
  keptBytes :: nat
  pendingBytes :: nat
  droppedBytes :: nat

definition newDecodedStream :: "nat \<Rightarrow> DecodedStream" where
  "newDecodedStream m =
     \<lparr>streamDecoder = newTextDecoder, maxBytes = m, parts = [], keptBytes = 0, pendingBytes = 0, droppedBytes = 0\<rparr>"

definition streamText :: "DecodedStream \<Rightarrow> codepoints" where
  "streamText s = concat (map fst (parts s))"

definition streamTruncated :: "DecodedStream \<Rightarrow> bool" where
  "streamTruncated s \<longleftrightarrow> droppedBytes s > 0"

text \<open>\<open>new TextDecoder().decode(tail)\<close> without the U+FFFD at its start.\<close>

definition tailText :: "nat \<Rightarrow> codepoints \<Rightarrow> codepoints" where
  "tailText overflow text = dropWhile (\<lambda>u. u = REPLACEMENT) (textDecode (drop overflow (bufferFromText text)))"

text \<open>The loop of \<open>#trim\<close>: the first arguments are \<open>#keptBytes\<close>, \<open>#droppedBytes\<close> and the parts from
  \<open>dropFrom\<close> on.\<close>

fun trimLoop :: "nat \<Rightarrow> nat \<Rightarrow> nat \<Rightarrow> (codepoints \<times> nat) list \<Rightarrow> nat \<times> nat \<times> (codepoints \<times> nat) list" where
  "trimLoop m kept dropped [] = (kept, dropped, [])"
| "trimLoop m kept dropped ((text, sz) # rest) =
     (if kept \<le> m then (kept, dropped, (text, sz) # rest)
      else let overflow = kept - m
           in if sz \<le> overflow then trimLoop m (kept - sz) (dropped + sz) rest
              else (kept - overflow, dropped + overflow, (tailText overflow text, sz - overflow) # rest))"

definition trim :: "DecodedStream \<Rightarrow> DecodedStream" where
  "trim s =
     (let (kept, dropped, ps) = trimLoop (maxBytes s) (keptBytes s) (droppedBytes s) (parts s)
      in s\<lparr>keptBytes := kept, droppedBytes := dropped, parts := ps\<rparr>)"

text \<open>\<open>#emit\<close>: the result is what it returns, which is also what the callback gets.\<close>

definition emit :: "codepoints \<Rightarrow> DecodedStream \<Rightarrow> codepoints option \<times> DecodedStream" where
  "emit text s =
     (if text = [] then (None, s)
      else (Some text, trim (s\<lparr>pendingBytes := 0, parts := parts s @ [(text, pendingBytes s)],
                               keptBytes := keptBytes s + pendingBytes s\<rparr>)))"

definition feedStream :: "DecodedStream \<Rightarrow> nat list \<Rightarrow> codepoints option \<times> DecodedStream" where
  "feedStream s payload =
     (let (text, d) = decodeStream (streamDecoder s) payload
      in emit text (s\<lparr>pendingBytes := pendingBytes s + length payload, streamDecoder := d\<rparr>))"

definition flushStream :: "DecodedStream \<Rightarrow> codepoints option \<times> DecodedStream" where
  "flushStream s = (let (text, d) = decodeFlush (streamDecoder s) in emit text (s\<lparr>streamDecoder := d\<rparr>))"

text \<open>A sequence of pieces; the texts are those the callback gets.\<close>

fun feedPieces :: "DecodedStream \<Rightarrow> nat list list \<Rightarrow> codepoints list \<times> DecodedStream" where
  "feedPieces s [] = ([], s)"
| "feedPieces s (payload # rest) =
     (let (text, s1) = feedStream s payload; (texts, s2) = feedPieces s1 rest
      in (case text of None \<Rightarrow> texts | Some t \<Rightarrow> t # texts, s2))"

section \<open>The text of the pieces\<close>

lemma replaced_append: "replaced (xs @ ys) = replaced xs @ replaced ys"
  by (simp add: replaced_def)

lemma unitsOf_Cons: "unitsOf c \<noteq> []"
  by (simp add: unitsOf_def)

lemma decodeOut_append: "decodeOut seen out @ decodeOut (seen \<or> out \<noteq> []) out' = decodeOut seen (out @ out')"
  by (cases out) (auto simp: decodeOut_def withoutMark_def replaced_def)

lemma emit_fields:
  "streamDecoder (snd (emit text s)) = streamDecoder s" "maxBytes (snd (emit text s)) = maxBytes s"
  "fst (emit text s) = (if text = [] then None else Some text)"
  by (simp_all add: emit_def trim_def split_def Let_def)

lemma feedStream_fields:
  "streamDecoder (snd (feedStream s payload)) = snd (decodeStream (streamDecoder s) payload)"
  "maxBytes (snd (feedStream s payload)) = maxBytes s"
  "(case fst (feedStream s payload) of None \<Rightarrow> [] | Some t \<Rightarrow> t) = fst (decodeStream (streamDecoder s) payload)"
  by (auto simp: feedStream_def split_def Let_def emit_fields)

lemma feedPieces_text:
  "concat (fst (feedPieces s pieces)) @ fst (decodeFlush (streamDecoder (snd (feedPieces s pieces)))) =
     (let (out, st) = utf8Run (decoderState (streamDecoder s)) (concat pieces)
      in decodeOut (markSeen (streamDecoder s)) (out @ utf8End st))"
proof (induction pieces arbitrary: s)
  case (Cons payload rest)
  obtain out st where run: "utf8Run (decoderState (streamDecoder s)) payload = (out, st)" by fastforce
  have "concat (fst (feedPieces s (payload # rest))) =
      (case fst (feedStream s payload) of None \<Rightarrow> [] | Some t \<Rightarrow> t) @ concat (fst (feedPieces (snd (feedStream s payload)) rest))"
    by (simp add: split_def Let_def split: option.split)
  with Cons.IH [of "snd (feedStream s payload)"] run show ?case
    by (simp add: feedStream_fields decodeStream_def utf8Run_append split_def Let_def decodeOut_append)
qed (simp add: decodeFlush_def)

section \<open>What is kept\<close>

definition scalarText :: "codepoints \<Rightarrow> bool" where
  "scalarText t \<longleftrightarrow> (\<exists>ps. t = concat (map unitsOf ps) \<and> list_all scalarValue ps)"

lemma dropWhile_units:
  assumes "list_all scalarValue ps"
  shows "dropWhile (\<lambda>u. u = REPLACEMENT) (concat (map unitsOf ps)) = concat (map unitsOf (dropWhile (\<lambda>p. p = REPLACEMENT) ps))"
  using assms
proof (induction ps)
  case (Cons p ps)
  then show ?case by (cases "p < 65536") (auto simp: unitsOf_def REPLACEMENT_def scalarValue_range)
qed simp

lemma concat_suffix: "suffix qs ps \<Longrightarrow> suffix (concat (map f qs)) (concat (map f ps))"
  by (auto simp: suffix_def)

lemma dropWhile_same: "dropWhile (\<lambda>u. u = c) (replicate n c @ xs) = dropWhile (\<lambda>u. u = c) xs"
  by (induction n) simp_all

lemma tailText_suffix:
  assumes "scalarText text"
  shows "suffix (tailText k text) text \<and> scalarText (tailText k text)"
proof -
  obtain ps where text': "text = concat (map unitsOf ps)" and ps: "list_all scalarValue ps" using assms by (auto simp: scalarText_def)
  have "bufferFromText text = concat (map utf8Bytes ps)"
    using wellFormed_bytes [OF textOf_wellFormed [OF ps]] points_of_units [OF ps] by (simp add: text')
  then obtain j qs where cut: "drop k (bufferFromText text) = j @ concat (map utf8Bytes qs)" and qs: "suffix qs ps"
    and j: "list_all (\<lambda>b. 128 \<le> b \<and> b \<le> 191) j" using cut_bytes [of k ps] by metis
  have sq: "list_all scalarValue qs" using ps qs by (auto simp: list_all_iff dest: set_mono_suffix)
  have "utf8Decoded (drop k (bufferFromText text)) = replicate (length j) None @ map Some qs"
    unfolding cut utf8Decoded_def
    by (simp add: utf8Run_append utf8Run_continuation [OF j] utf8Run_points [OF sq] utf8End_def)
  moreover obtain rs where "withoutMark (replicate (length j) None @ map Some qs) = replicate (length j) None @ map Some rs" and rs: "suffix rs qs"
  proof (cases "j = [] \<and> take 1 qs = [BYTE_ORDER_MARK]")
    case True
    then show ?thesis by (intro that [of "drop 1 qs"]) (simp_all add: withoutMark_def take_map drop_map suffix_drop)
  next
    case False
    then show ?thesis by (intro that [of qs] suffix_order.refl) (cases j; auto simp: withoutMark_def take_map)
  qed
  ultimately have "textDecode (drop k (bufferFromText text)) = replicate (length j) REPLACEMENT @ concat (map unitsOf rs)"
    by (simp add: textDecode_def replaced_append replaced_points)
      (simp add: replaced_def unitsOf_def REPLACEMENT_def map_replicate_const concat_replicate_trivial)
  then have "tailText k text = dropWhile (\<lambda>u. u = REPLACEMENT) (concat (map unitsOf rs))"
    by (simp add: tailText_def dropWhile_same)
  moreover have sr: "list_all scalarValue rs" using sq rs by (auto simp: list_all_iff dest: set_mono_suffix)
  ultimately have tail: "tailText k text = concat (map unitsOf (dropWhile (\<lambda>p. p = REPLACEMENT) rs))" by (simp add: dropWhile_units)
  have "suffix (dropWhile (\<lambda>p. p = REPLACEMENT) rs) ps" using suffix_dropWhile rs qs by (metis suffix_order.trans)
  then have "suffix (concat (map unitsOf (dropWhile (\<lambda>p. p = REPLACEMENT) rs))) (concat (map unitsOf ps))" by (rule concat_suffix)
  then have "suffix (tailText k text) text" using tail text' by simp
  moreover have "scalarText (tailText k text)"
    unfolding scalarText_def tail using sr by (intro exI [of _ "dropWhile (\<lambda>p. p = REPLACEMENT) rs"]) (auto simp: list_all_iff dest: set_dropWhileD)
  ultimately show ?thesis ..
qed

definition piecesOk :: "(codepoints \<times> nat) list \<Rightarrow> bool" where
  "piecesOk ps \<longleftrightarrow> list_all (\<lambda>p. scalarText (fst p)) ps"

lemma trimLoop_sound:
  assumes "trimLoop m kept dropped ps = (kept', dropped', ps')" "kept = sum_list (map snd ps)" "piecesOk ps"
  shows "kept' = sum_list (map snd ps') \<and> kept' \<le> m \<and> kept' + dropped' = kept + dropped \<and> piecesOk ps' \<and>
    suffix (concat (map fst ps')) (concat (map fst ps)) \<and> dropped \<le> dropped' \<and> (dropped' = dropped \<longrightarrow> ps' = ps)"
  using assms
proof (induction m kept dropped ps rule: trimLoop.induct)
  case (1 m kept dropped)
  then show ?case by auto
next
  case (2 m kept dropped t sz rest)
  have sum: "kept = sz + sum_list (map snd rest)" using 2(3) by simp
  have ok: "scalarText t" "piecesOk rest" using 2(4) by (simp_all add: piecesOk_def)
  consider "kept \<le> m" | "m < kept" "sz \<le> kept - m" | "m < kept" "kept - m < sz" by linarith
  then show ?case
  proof cases
    case 1
    then show ?thesis using 2(2-4) by auto
  next
    case 2
    then have step: "trimLoop m (kept - sz) (dropped + sz) rest = (kept', dropped', ps')" using "2.prems"(1) by (auto simp: Let_def)
    have "kept' = sum_list (map snd ps') \<and> kept' \<le> m \<and> kept' + dropped' = kept - sz + (dropped + sz) \<and> piecesOk ps' \<and>
      suffix (concat (map fst ps')) (concat (map fst rest)) \<and> dropped + sz \<le> dropped' \<and> (dropped' = dropped + sz \<longrightarrow> ps' = rest)"
      using "2.IH" [OF _ refl _ step] 2 sum ok by simp
    then show ?thesis using sum 2 by (auto intro: suffix_appendI)
  next
    case 3
    then have "kept' = m" "dropped' = dropped + (kept - m)" "ps' = (tailText (kept - m) t, sz - (kept - m)) # rest"
      using 2(2) by (auto simp: Let_def)
    moreover have "suffix (tailText (kept - m) t @ concat (map fst rest)) (t @ concat (map fst rest))"
      using tailText_suffix [OF ok(1), of "kept - m"] by (auto simp: suffix_def)
    ultimately show ?thesis using 3 sum ok tailText_suffix [OF ok(1)] by (auto simp: piecesOk_def)
  qed
qed

text \<open>The invariant: what a stream of \<open>m\<close> bytes holds after \<open>received\<close> bytes, the text \<open>sent\<close> having gone to
  the callback.\<close>

definition streamOk :: "nat \<Rightarrow> nat \<Rightarrow> codepoints \<Rightarrow> DecodedStream \<Rightarrow> bool" where
  "streamOk m received sent s \<longleftrightarrow>
     maxBytes s = m \<and> keptBytes s = sum_list (map snd (parts s)) \<and> keptBytes s \<le> m \<and>
     keptBytes s + droppedBytes s + pendingBytes s = received \<and> piecesOk (parts s) \<and>
     suffix (streamText s) sent \<and> (\<not> streamTruncated s \<longrightarrow> streamText s = sent) \<and> utf8Ok (decoderState (streamDecoder s))"

lemma emit_ok:
  assumes "streamOk m received sent s" "scalarText text"
  shows "streamOk m received (sent @ text) (snd (emit text s))"
proof (cases "text = []")
  case True
  with assms show ?thesis by (simp add: emit_def)
next
  case False
  obtain kept dropped ps where run:
    "trimLoop (maxBytes s) (keptBytes s + pendingBytes s) (droppedBytes s) (parts s @ [(text, pendingBytes s)]) = (kept, dropped, ps)"
    by (metis prod_cases3)
  have "piecesOk (parts s @ [(text, pendingBytes s)])" using assms by (simp add: streamOk_def piecesOk_def)
  from trimLoop_sound [OF run _ this] assms(1) have
    "kept = sum_list (map snd ps) \<and> kept \<le> m \<and> kept + dropped = keptBytes s + pendingBytes s + droppedBytes s \<and> piecesOk ps \<and>
     suffix (concat (map fst ps)) (streamText s @ text) \<and> droppedBytes s \<le> dropped \<and> (dropped = droppedBytes s \<longrightarrow> ps = parts s @ [(text, pendingBytes s)])"
    by (simp add: streamOk_def streamText_def)
  moreover have "suffix (streamText s @ text) (sent @ text)" using assms(1) by (auto simp: streamOk_def suffix_def)
  moreover have "snd (emit text s) = s\<lparr>pendingBytes := 0, parts := ps, keptBytes := kept, droppedBytes := dropped\<rparr>"
    using False run by (simp add: emit_def trim_def)
  ultimately show ?thesis using assms(1)
    by (auto simp: streamOk_def streamText_def streamTruncated_def intro: suffix_order.trans)
qed

lemma decodeOut_scalar:
  assumes "\<And>p. Some p \<in> set out \<Longrightarrow> scalarValue p"
  shows "scalarText (decodeOut seen out)"
proof -
  have "\<And>p. Some p \<in> set (if seen then out else withoutMark out) \<Longrightarrow> scalarValue p"
    using assms by (auto simp: withoutMark_def split: if_splits dest: in_set_dropD)
  then show ?thesis unfolding decodeOut_def scalarText_def by (metis replaced_scalars)
qed

lemma feedStream_ok:
  assumes "streamOk m received sent s"
  shows "streamOk m (received + length payload) (sent @ (case fst (feedStream s payload) of None \<Rightarrow> [] | Some t \<Rightarrow> t)) (snd (feedStream s payload))"
proof -
  obtain out st where run: "utf8Run (decoderState (streamDecoder s)) payload = (out, st)" by fastforce
  have ok: "utf8Ok st" "\<And>p. Some p \<in> set out \<Longrightarrow> scalarValue p"
    using utf8Run_ok [of "decoderState (streamDecoder s)" payload] assms run by (auto simp: streamOk_def)
  let ?s = "s\<lparr>pendingBytes := pendingBytes s + length payload,
    streamDecoder := \<lparr>decoderState = st, markSeen = markSeen (streamDecoder s) \<or> out \<noteq> []\<rparr>\<rparr>"
  have "streamOk m (received + length payload) sent ?s"
    using assms ok(1) by (auto simp: streamOk_def streamText_def streamTruncated_def)
  from emit_ok [OF this decodeOut_scalar [OF ok(2)]] run show ?thesis
    by (simp add: feedStream_fields) (simp add: feedStream_def decodeStream_def split_def Let_def)
qed

lemma feedPieces_ok:
  "streamOk m received sent s \<Longrightarrow>
     streamOk m (received + length (concat pieces)) (sent @ concat (fst (feedPieces s pieces))) (snd (feedPieces s pieces))"
proof (induction pieces arbitrary: s received sent)
  case (Cons payload rest)
  have "concat (fst (feedPieces s (payload # rest))) =
      (case fst (feedStream s payload) of None \<Rightarrow> [] | Some t \<Rightarrow> t) @ concat (fst (feedPieces (snd (feedStream s payload)) rest))"
    by (simp add: split_def Let_def split: option.split)
  with Cons.IH [OF feedStream_ok [OF Cons.prems, of payload]] show ?case by (simp add: split_def Let_def add.assoc)
qed simp

lemma newDecodedStream_ok: "streamOk m 0 [] (newDecodedStream m)"
  by (simp add: streamOk_def newDecodedStream_def piecesOk_def streamText_def newTextDecoder_def)

lemma fed_and_flushed:
  assumes "feedPieces (newDecodedStream m) pieces = (texts, s)" "flushStream s = (end_text, s')"
  shows "concat texts @ (case end_text of None \<Rightarrow> [] | Some t \<Rightarrow> t) = textDecode (concat pieces) \<and>
    suffix (streamText s') (textDecode (concat pieces)) \<and> (\<not> streamTruncated s' \<longrightarrow> streamText s' = textDecode (concat pieces)) \<and>
    keptBytes s' \<le> m \<and> keptBytes s' + droppedBytes s' + pendingBytes s' = length (concat pieces)"
proof -
  have flush: "fst (emit (fst (decodeFlush (streamDecoder s))) (s\<lparr>streamDecoder := newTextDecoder\<rparr>)) = end_text"
    "snd (emit (fst (decodeFlush (streamDecoder s))) (s\<lparr>streamDecoder := newTextDecoder\<rparr>)) = s'"
    using assms(2) by (simp_all add: flushStream_def decodeFlush_def)
  then have end_text: "(case end_text of None \<Rightarrow> [] | Some t \<Rightarrow> t) = fst (decodeFlush (streamDecoder s))" by (auto simp: emit_fields)
  have whole: "concat texts @ fst (decodeFlush (streamDecoder s)) = textDecode (concat pieces)"
    using feedPieces_text [of "newDecodedStream m" pieces] assms(1)
    by (simp add: newDecodedStream_def newTextDecoder_def textDecode_def utf8Decoded_def decodeOut_def split_def Let_def)
  have "streamOk m (length (concat pieces)) (concat texts) s"
    using feedPieces_ok [OF newDecodedStream_ok, where pieces = pieces and m = m] assms(1) by simp
  then have "streamOk m (length (concat pieces)) (concat texts) (s\<lparr>streamDecoder := newTextDecoder\<rparr>)"
    by (simp add: streamOk_def streamText_def streamTruncated_def newTextDecoder_def)
  moreover have "scalarText (fst (decodeFlush (streamDecoder s)))"
    by (auto simp: decodeFlush_def utf8End_def intro!: decodeOut_scalar split: if_splits)
  ultimately have "streamOk m (length (concat pieces)) (concat texts @ fst (decodeFlush (streamDecoder s))) s'"
    using emit_ok flush(2) by metis
  then show ?thesis unfolding end_text whole by (simp add: streamOk_def)
qed

lemma streamed_text:
  fixes m :: nat and ps :: "nat list list"
  defines "s \<equiv> snd (flushStream (snd (feedPieces (newDecodedStream m) ps)))"
  shows "suffix (streamText s) (textDecode (concat ps))" "\<not> streamTruncated s \<Longrightarrow> streamText s = textDecode (concat ps)"
  using fed_and_flushed [of m ps, OF prod.collapse [symmetric] prod.collapse [symmetric]] by (simp_all add: s_def)


lemmas stream_eval = feedStream_def flushStream_def decodeStream_def decodeFlush_def newDecodedStream_def newTextDecoder_def emit_def trim_def
  decodeOut_def withoutMark_def replaced_def unitsOf_def utf8Step_def utf8First_def utf8Start_def utf8End_def BYTE_ORDER_MARK_def
  REPLACEMENT_def Let_def streamText_def

definition demoPieces :: "nat list list" where "demoPieces = [[72, 226], [130, 172]]"

lemma demoPieces_run:
  "fst (feedPieces (newDecodedStream 2) demoPieces) = [[72], [8364]]"
  "streamText (snd (feedPieces (newDecodedStream 2) demoPieces)) = [8364]"
  by (simp_all add: demoPieces_def stream_eval)


text \<open>With a limit of zero bytes something may still be kept: a character that the end of the stream cuts
  short gives its replacement, and by then no byte of it is pending.\<close>

lemma nothing_kept_keeps_replacement:
  "streamText (snd (flushStream (snd (feedPieces (newDecodedStream 0) [[65, 226]])))) = [REPLACEMENT]"
  by (simp add: stream_eval)

end
