(* ===== verification/Commands.thy ===== *)
theory Commands
  imports Decoded_Stream Sandbox_Reconnect Run_Payload
begin

text \<open>
  Commands of a sandbox (\<open>sandbox/commands.ts\<close>): the request that starts a process, the output that
  accumulates, the outcome that its end gives, and the handle that follows the process through cuts
  and suspensions by subscribing again after the last message it saw.  The calls of the agent
  (\<open>start\<close>, \<open>connect\<close> and the messages of a stream) are parameters; secrets, spans, log lines and the
  wording of errors are left out.
\<close>

section \<open>Requests\<close>

datatype CommandError = EmptyCommand | BadEnvs PayloadError | BadTimeoutMs | NegativeTimeout | BadPid | BadFromSeq | BadMaxOutputBytes

definition DEFAULT_COMMAND_TIMEOUT_MS :: rat where "DEFAULT_COMMAND_TIMEOUT_MS = 60000"
definition STREAM_DEADLINE_GRACE_MS :: int where "STREAM_DEADLINE_GRACE_MS = 5000"
definition SHELL :: codepoints where "SHELL = units ''/bin/bash''"
definition SHELL_ARGS :: "codepoints list" where "SHELL_ARGS = [units ''-l'', units ''-c'']"
definition PID_MAX :: int where "PID_MAX = 2 ^ 32 - 1"
definition COMMAND_OUTPUT_MAX_BYTES :: nat where "COMMAND_OUTPUT_MAX_BYTES = 67108864"

text \<open>A number of milliseconds, or a value that is not one; infinities are left out.\<close>

datatype TimeInput = TimeMs rat | TimeInvalid

definition timeoutToMs :: "TimeInput option \<Rightarrow> CommandError + int" where
  "timeoutToMs timeout =
     (case timeout of
        None \<Rightarrow> Inr 0
      | Some TimeInvalid \<Rightarrow> Inl BadTimeoutMs
      | Some (TimeMs t) \<Rightarrow>
          if t < 0 then Inl NegativeTimeout
          else if t = 0 then Inr 0
          else Inr (max 1 \<lfloor>t + 1 / 2\<rfloor>))"

definition streamDeadlineMs :: "TimeInput option \<Rightarrow> CommandError + int option" where
  "streamDeadlineMs timeout =
     andThen (timeoutToMs timeout) (\<lambda>ms. Inr (if ms = 0 then None else Some (ms + STREAM_DEADLINE_GRACE_MS)))"

definition deadlineAt :: "int option \<Rightarrow> rat \<Rightarrow> rat option" where
  "deadlineAt deadlineMs now = map_option (\<lambda>ms. now + of_int ms) deadlineMs"

definition remainingDeadlineMs :: "rat option \<Rightarrow> rat \<Rightarrow> int option" where
  "remainingDeadlineMs deadline now = map_option (\<lambda>t. max 0 \<lceil>t - now\<rceil>) deadline"

definition validatePid :: "JsInput \<Rightarrow> CommandError + nat" where
  "validatePid pid = (case pid of JsOther \<Rightarrow> Inl BadPid | JsInteger n \<Rightarrow> if n < 1 \<or> n > PID_MAX then Inl BadPid else Inr (nat n))"

definition validateFromSeq :: "JsInput \<Rightarrow> CommandError + nat" where
  "validateFromSeq fromSeq =
     (case fromSeq of JsOther \<Rightarrow> Inl BadFromSeq | JsInteger n \<Rightarrow> if n < 0 then Inl BadFromSeq else Inr (nat n))"

text \<open>The largest safe integer is \<open>2^53 - 1\<close>.\<close>

definition validateMaxOutputBytes :: "JsInput \<Rightarrow> CommandError + nat" where
  "validateMaxOutputBytes v =
     (case v of
        JsOther \<Rightarrow> Inl BadMaxOutputBytes
      | JsInteger n \<Rightarrow> if n < 0 \<or> n > 2 ^ 53 - 1 then Inl BadMaxOutputBytes else Inr (nat n))"

text \<open>An empty \<open>user\<close> or \<open>cwd\<close> counts as missing.\<close>

record StartRequestInput =
  startEnvs :: "(codepoints \<times> MapValue) list option"
  startUser :: "codepoints option"
  startCwd :: "codepoints option"
  startStdin :: bool
  startTimeout :: "TimeInput option"
  startTag :: "codepoints option"
  startKillTree :: bool

record StartRequest =
  requestCmd :: codepoints
  requestArgs :: "codepoints list"
  requestEnvs :: "(codepoints \<times> codepoints) list"
  requestCwd :: "codepoints option"
  requestTimeout :: int
  requestStdin :: bool
  requestKillTree :: bool
  requestUser :: "codepoints option"
  requestTag :: "codepoints option"

definition nonEmpty :: "codepoints option \<Rightarrow> codepoints option" where
  "nonEmpty v = (if v = Some [] then None else v)"

definition buildStartRequest :: "codepoints \<Rightarrow> StartRequestInput \<Rightarrow> CommandError + StartRequest" where
  "buildStartRequest cmd input =
     (if trimBy jsSpace cmd = [] then Inl EmptyCommand
      else andThen (case startEnvs input of
                      None \<Rightarrow> Inr []
                    | Some ps \<Rightarrow> if ps = [] then Inr [] else map_sum BadEnvs id (validatedEnvs ps)) (\<lambda>envs.
        andThen (timeoutToMs (Some (case startTimeout input of None \<Rightarrow> TimeMs DEFAULT_COMMAND_TIMEOUT_MS | Some t \<Rightarrow> t))) (\<lambda>ms.
          Inr \<lparr>requestCmd = SHELL, requestArgs = SHELL_ARGS @ [cmd], requestEnvs = envs, requestCwd = nonEmpty (startCwd input),
               requestTimeout = ms, requestStdin = startStdin input, requestKillTree = startKillTree input,
               requestUser = nonEmpty (startUser input), requestTag = startTag input\<rparr>)))"

section \<open>Messages and outcomes\<close>

datatype DataOutput = StdoutBytes "nat list" | StderrBytes "nat list" | OtherOutput

record EndEvent =
  endStatus :: string
  endExitCode :: int
  endError :: "(string \<times> string) option"

datatype ProcessEvent = StartEvent nat | DataEvent nat DataOutput | EndMessage EndEvent | OtherEvent

definition STATUS_EXITED :: string where "STATUS_EXITED = ''exited''"
definition STATUS_SIGNALED :: string where "STATUS_SIGNALED = ''signaled''"
definition STATUS_TIMEOUT :: string where "STATUS_TIMEOUT = ''timeout''"
definition STATUS_SUSPENDING :: string where "STATUS_SUSPENDING = ''suspending''"
definition STATUS_OUTPUT_TRUNCATED :: string where "STATUS_OUTPUT_TRUNCATED = ''output_truncated''"
definition STATUS_SANDBOX_TIMEOUT :: string where "STATUS_SANDBOX_TIMEOUT = ''sandbox_timeout''"

text \<open>A result, the error of an exit code, or another error.\<close>

datatype CommandOutcome =
    CommandResult codepoints codepoints bool
  | CommandExitError int codepoints codepoints string bool
  | OutcomeError Thrown

definition pidFromStartEvent :: "ProcessEvent option \<Rightarrow> Thrown + nat" where
  "pidFromStartEvent event =
     (case event of
        Some (StartEvent pid) \<Rightarrow> Inr pid
      | _ \<Rightarrow> Inl (SdkThrown (sdkError SandboxError (Plain ''no StartEvent'') None)))"

definition endErrorMessage :: "EndEvent \<Rightarrow> string" where
  "endErrorMessage e = (case endError e of Some (_, message) \<Rightarrow> if message \<noteq> [] then message else endStatus e | None \<Rightarrow> endStatus e)"

definition endErrorName :: "EndEvent option \<Rightarrow> string option" where
  "endErrorName e =
     (case e of
        None \<Rightarrow> None
      | Some v \<Rightarrow>
          (case endError v of Some (sc, _) \<Rightarrow> Some sc | None \<Rightarrow> if endExitCode v \<noteq> 0 then Some (endStatus v) else None))"

definition outcomeFromEnd :: "EndEvent \<Rightarrow> codepoints \<Rightarrow> codepoints \<Rightarrow> bool \<Rightarrow> CommandOutcome" where
  "outcomeFromEnd e stdout stderr truncated =
     (let status = endStatus e; detail = endErrorMessage e; failed = (\<lambda>c t. OutcomeError (SdkThrown (sdkError c t None)))
      in if status = STATUS_SANDBOX_TIMEOUT then OutcomeError (SdkThrown (sandboxTimeoutError None))
         else if status = STATUS_TIMEOUT then failed TimeoutError (Plain detail)
         else if status = STATUS_OUTPUT_TRUNCATED then failed SandboxError (CodeAndMessage STATUS_OUTPUT_TRUNCATED detail)
         else if status = STATUS_SUSPENDING then failed SandboxStateError (Plain detail)
         else case (if status \<noteq> STATUS_EXITED \<and> status \<noteq> STATUS_SIGNALED then endError e else None) of
                Some (sc, message) \<Rightarrow> OutcomeError (SdkThrown (translateStreamError sc message False))
              | None \<Rightarrow>
                  if endExitCode e = 0 then CommandResult stdout stderr truncated
                  else CommandExitError (endExitCode e) stdout stderr status truncated)"

section \<open>Accumulated output\<close>

record OutputAccumulator =
  accStdout :: DecodedStream
  accStderr :: DecodedStream
  lastSeq :: nat

definition newOutputAccumulator :: "nat \<Rightarrow> OutputAccumulator" where
  "newOutputAccumulator m = \<lparr>accStdout = newDecodedStream m, accStderr = newDecodedStream m, lastSeq = 0\<rparr>"

datatype OutputChunk = StdoutChunk codepoints | StderrChunk codepoints

definition feedAccumulator :: "nat \<Rightarrow> DataOutput \<Rightarrow> OutputAccumulator \<Rightarrow> OutputChunk option \<times> OutputAccumulator" where
  "feedAccumulator seq out acc =
     (let acc1 = acc\<lparr>lastSeq := max (lastSeq acc) seq\<rparr>;
          feedOut = (\<lambda>payload. let (text, s) = feedStream (accStdout acc1) payload
                               in (map_option StdoutChunk text, acc1\<lparr>accStdout := s\<rparr>))
      in case out of
           StderrBytes payload \<Rightarrow>
             (let (text, s) = feedStream (accStderr acc1) payload in (map_option StderrChunk text, acc1\<lparr>accStderr := s\<rparr>))
         | StdoutBytes payload \<Rightarrow> feedOut payload
         | OtherOutput \<Rightarrow> feedOut [])"

definition finishAccumulator :: "EndEvent \<Rightarrow> OutputAccumulator \<Rightarrow> CommandOutcome \<times> OutputAccumulator" where
  "finishAccumulator e acc =
     (let acc1 = acc\<lparr>accStdout := snd (flushStream (accStdout acc)), accStderr := snd (flushStream (accStderr acc))\<rparr>
      in (outcomeFromEnd e (streamText (accStdout acc1)) (streamText (accStderr acc1))
            (streamTruncated (accStdout acc1) \<or> streamTruncated (accStderr acc1)), acc1))"

section \<open>Progress\<close>

record CommandProgress =
  progressPid :: nat
  accumulator :: OutputAccumulator
  progressEnd :: "EndEvent option"
  outcome :: "CommandOutcome option"
  suspended :: bool

definition newCommandProgress :: "nat \<Rightarrow> nat \<Rightarrow> CommandProgress" where
  "newCommandProgress pid m =
     \<lparr>progressPid = pid, accumulator = newOutputAccumulator m, progressEnd = None, outcome = None, suspended = False\<rparr>"

definition isFinished :: "CommandProgress \<Rightarrow> bool" where
  "isFinished p \<longleftrightarrow> outcome p \<noteq> None"

text \<open>\<open>consume\<close> of the progress over that of \<open>ProcessEvents\<close>; the result is the chunk to yield.\<close>

definition consumeEvent :: "ProcessEvent \<Rightarrow> CommandProgress \<Rightarrow> OutputChunk option \<times> CommandProgress" where
  "consumeEvent event p =
     (case event of
        DataEvent seq out \<Rightarrow> (let (chunk, acc) = feedAccumulator seq out (accumulator p) in (chunk, p\<lparr>accumulator := acc\<rparr>))
      | EndMessage e \<Rightarrow>
          if endStatus e = STATUS_SUSPENDING then (None, p\<lparr>suspended := True\<rparr>)
          else (let (r, acc) = finishAccumulator e (accumulator p)
                in (None, p\<lparr>progressEnd := Some e, outcome := Some r, accumulator := acc\<rparr>))
      | _ \<Rightarrow> (None, p))"

definition failProgress :: "Thrown \<Rightarrow> CommandProgress \<Rightarrow> CommandProgress" where
  "failProgress failure p = p\<lparr>outcome := Some (OutcomeError failure)\<rparr>"

definition missingOutcome :: "bool \<Rightarrow> CommandOutcome" where
  "missingOutcome disconnected =
     OutcomeError (SdkThrown (sdkError SandboxError (Plain (if disconnected then ''disconnected'' else ''no EndEvent'')) None))"

text \<open>\<open>resolve\<close>: the outcome, which is thrown when it is an error.\<close>

definition resolveProgress :: "bool \<Rightarrow> CommandProgress \<Rightarrow> CommandOutcome \<times> CommandProgress" where
  "resolveProgress disconnected p =
     (let r = (case outcome p of None \<Rightarrow> missingOutcome disconnected | Some v \<Rightarrow> v) in (r, p\<lparr>outcome := Some r\<rparr>))"

end
