(* ===== verification/Command_Handle.thy ===== *)
theory Command_Handle
  imports Commands
begin

text \<open>
  The handle of a process (\<open>CommandHandle\<close> and \<open>Commands.attach\<close>, \<open>openConnect\<close> of
  \<open>sandbox/commands.ts\<close>): it reads the messages of a stream and, after a cut or a suspension, waits for the
  sandbox and subscribes again from the message after the last one it saw.  Whatever the cuts, a
  result without a loss notice holds the whole output of the process.
\<close>

section \<open>State and surroundings\<close>

record 's CommandHandle =
  progress :: CommandProgress
  handleStream :: 's
  handleTracked :: bool
  deadlineAtMs :: "rat option"
  foreground :: bool
  handleGeneration :: nat
  pendingCut :: "Thrown option"
  reconnectCount :: nat
  budget :: nat
  lossLogged :: bool
  yielded :: "OutputChunk list"

text \<open>The agent as the handle sees it: the opening of a stream with its first message and the next message
  of a stream (none at its end).  Whether the caller disconnected or aborted depends on the world.\<close>

record ('m, 's) ProcessAgent =
  agentConnect :: "nat \<Rightarrow> nat \<Rightarrow> int option \<Rightarrow> ('m, 's \<times> ProcessEvent option) rpc"
  agentNext :: "'s \<Rightarrow> ('m, ProcessEvent option) rpc"
  handleDisconnected :: "'m SandboxCore_scheme \<Rightarrow> bool"
  handleSignal :: "'m signal"

definition plainSandboxError :: "string \<Rightarrow> Thrown" where
  "plainSandboxError text = SdkThrown (sdkError SandboxError (Plain text) None)"

definition asError :: "Thrown \<Rightarrow> Thrown" where
  "asError e = (case e of ValueThrown v \<Rightarrow> plainSandboxError v | _ \<Rightarrow> e)"

definition failHandle :: "Thrown \<Rightarrow> 's CommandHandle \<Rightarrow> 's CommandHandle" where
  "failHandle e h = h\<lparr>progress := failProgress e (progress h)\<rparr>"

section \<open>Opening\<close>

definition openConnect :: "'m CoreEnv \<Rightarrow> ('m, 's) ProcessAgent \<Rightarrow> nat \<Rightarrow> nat \<Rightarrow> int option \<Rightarrow> ('m, 's) prog" where
  "openConnect env agent pid fromSeq deadlineMs w =
     Option.bind (openStream env None False True (handleSignal agent) (agentConnect agent pid fromSeq deadlineMs) w) (\<lambda>(r, w1).
       case r of
         Inl e \<Rightarrow> Some (Inl e, w1)
       | Inr (stream, first) \<Rightarrow>
           Some (andThen (pidFromStartEvent first) (\<lambda>started.
             if started \<noteq> pid then Inl (plainSandboxError ''another pid'') else Inr stream), w1))"

definition attach ::
  "'m CoreEnv \<Rightarrow> ('m, 's) ProcessAgent \<Rightarrow> ('m, 's \<times> ProcessEvent option) rpc \<Rightarrow> int option \<Rightarrow> bool \<Rightarrow> nat \<Rightarrow> ('m, 's CommandHandle) prog" where
  "attach env agent start deadlineMs fore maxOutputBytes w =
     Option.bind (openStream env None False True (handleSignal agent) start w) (\<lambda>(r, w1).
       case r of
         Inl e \<Rightarrow> Some (Inl e, w1)
       | Inr (stream, first) \<Rightarrow>
           Some (andThen (pidFromStartEvent first) (\<lambda>pid.
             Inr \<lparr>progress = newCommandProgress pid maxOutputBytes, handleStream = stream, handleTracked = True,
                  deadlineAtMs = deadlineAt deadlineMs (monotonicNow env w1), foreground = fore,
                  handleGeneration = resumeGeneration w1, pendingCut = None, reconnectCount = 0, budget = 0,
                  lossLogged = False, yielded = []\<rparr>), w1))"

section \<open>Reading a stream\<close>

text \<open>\<open>consumeStream\<close>: what was thrown, if anything, and the handle.\<close>

type_synonym ('m, 's) step = "((Thrown + unit) \<times> 's CommandHandle \<times> 'm SandboxCore_scheme) option"

definition consumeMessage :: "ProcessEvent \<Rightarrow> 's CommandHandle \<Rightarrow> 's CommandHandle" where
  "consumeMessage event h =
     (let (chunk, p) = consumeEvent event (progress h)
      in h\<lparr>progress := p, yielded := yielded h @ (case chunk of None \<Rightarrow> [] | Some c \<Rightarrow> [c])\<rparr>)"

definition streamThrew ::
  "'m CoreEnv \<Rightarrow> ('m, 's) ProcessAgent \<Rightarrow> Thrown \<Rightarrow> 's CommandHandle \<Rightarrow> 'm SandboxCore_scheme \<Rightarrow>
     (Thrown + unit) \<times> 's CommandHandle \<times> 'm SandboxCore_scheme" where
  "streamThrew env agent e h w =
     (case handleSignal agent w of
        Some reason \<Rightarrow> (Inl reason, h, w)
      | None \<Rightarrow>
          if handleDisconnected agent w then (Inr (), h, w)
          else if \<not> coreClosed w \<and> isReconnectable e then (Inr (), h\<lparr>pendingCut := Some e\<rparr>, w)
          else case streamFailure env False e w of (failure, w1) \<Rightarrow> (Inl failure, failHandle failure h, w1))"

partial_function (option) consumeStream ::
  "'m CoreEnv \<Rightarrow> ('m, 's) ProcessAgent \<Rightarrow> 's CommandHandle \<Rightarrow> 'm SandboxCore_scheme \<Rightarrow> ('m, 's) step" where
  "consumeStream env agent h w =
     (case agentNext agent (handleStream h) w of
        (Inl e, w1) \<Rightarrow> Some (streamThrew env agent e (h\<lparr>handleTracked := False\<rparr>) w1)
      | (Inr None, w1) \<Rightarrow> Some (Inr (), h\<lparr>handleTracked := False\<rparr>, w1)
      | (Inr (Some event), w1) \<Rightarrow>
          let h1 = consumeMessage event h
          in if isFinished (progress h1) \<or> suspended (progress h1) then Some (Inr (), h1\<lparr>handleTracked := False\<rparr>, w1)
             else consumeStream env agent h1 w1)"

section \<open>Subscribing again\<close>

definition suspendingReason :: Thrown where
  "suspendingReason = SdkThrown (sdkError SandboxStateError (PhaseIs ''suspending'') None)"

definition resubscribeFromSeq :: "nat \<Rightarrow> nat" where
  "resubscribeFromSeq seen = seen + 1"

text \<open>\<open>remainingDeadline\<close> and \<open>resubscribe\<close>.\<close>

definition resubscribe ::
  "'m CoreEnv \<Rightarrow> ('m, 's) ProcessAgent \<Rightarrow> 's CommandHandle \<Rightarrow> nat \<Rightarrow> ('m, 's) prog" where
  "resubscribe env agent h fromSeq w =
     (let remaining = remainingDeadlineMs (deadlineAtMs h) (monotonicNow env w)
      in if (case remaining of None \<Rightarrow> False | Some ms \<Rightarrow> ms \<le> 0)
         then Some (Inl (SdkThrown (sdkError TimeoutError (Plain ''deadline'') None)), w)
         else openConnect env agent (progressPid (progress h)) fromSeq remaining w)"

text \<open>\<open>instanceof NotFoundError\<close>.\<close>

definition notFoundClass :: "ErrorClass \<Rightarrow> bool" where
  "notFoundClass c \<longleftrightarrow> c \<in> {NotFoundError, FileNotFoundError, SandboxNotFoundError}"

definition outputGone :: "Thrown \<Rightarrow> bool" where
  "outputGone e = (case e of SdkThrown s \<Rightarrow> notFoundClass (errorClass s) \<and> errorGrpcCode s = Some OutOfRange | _ \<Rightarrow> False)"

definition resubscribed ::
  "'m CoreEnv \<Rightarrow> ('m, 's) ProcessAgent \<Rightarrow> 's CommandHandle \<Rightarrow> 'm SandboxCore_scheme \<Rightarrow>
     ((Thrown + 's) \<times> 's CommandHandle \<times> 'm SandboxCore_scheme) option" where
  "resubscribed env agent h w =
     Option.bind (resubscribe env agent h (resubscribeFromSeq (lastSeq (accumulator (progress h)))) w) (\<lambda>(r, w1).
       case r of
         Inr stream \<Rightarrow> Some (Inr stream, h, w1)
       | Inl e \<Rightarrow>
           if \<not> outputGone e then Some (Inl (asError e), failHandle (asError e) h, w1)
           else let h1 = h\<lparr>lossLogged := True\<rparr>
                in Option.bind (resubscribe env agent h1 0 w1) (\<lambda>(r, w2).
                     case r of
                       Inr stream \<Rightarrow> Some (Inr stream, h1, w2)
                     | Inl e' \<Rightarrow> Some (Inl (asError e'), failHandle (asError e') h1, w2)))"

definition futileCut :: "'m CoreEnv \<Rightarrow> Thrown \<Rightarrow> 'm SandboxCore_scheme \<Rightarrow> Thrown \<times> 'm SandboxCore_scheme" where
  "futileCut env reason w = (case reason of ConnectThrown c \<Rightarrow> streamFailure env False reason w | _ \<Rightarrow> (reason, w))"

definition wakes :: "'s CommandHandle \<Rightarrow> 'm SandboxCore_scheme \<Rightarrow> bool" where
  "wakes h w \<longleftrightarrow> foreground h \<and> \<not> corePaused w"

definition resubscribeAfterCut ::
  "'m CoreEnv \<Rightarrow> ('m, 's) ProcessAgent \<Rightarrow> 's CommandHandle \<Rightarrow> 'm SandboxCore_scheme \<Rightarrow> ('m, 's) step" where
  "resubscribeAfterCut env agent h w =
     (let reason = (case pendingCut h of None \<Rightarrow> suspendingReason | Some e \<Rightarrow> e);
          h1 = h\<lparr>pendingCut := None\<rparr>
      in Option.bind (reconnect env reason (handleGeneration h) (wakes h w) w) (\<lambda>(r, w1).
           case r of
             Inl e \<Rightarrow> Some (Inl e, h1, w1)
           | Inr out \<Rightarrow>
               if \<not> resumed out
               then let e = reconnectError out reason in Some (Inl e, failHandle e h1, w1)
               else let h2 = h1\<lparr>handleGeneration := outcomeGeneration out\<rparr>
                    in if handleDisconnected agent w1 then Some (Inr (), h2, w1)
                       else case budgetAllows out (budget h2) of (allowed, n) \<Rightarrow>
                         let h3 = h2\<lparr>budget := n\<rparr>
                         in if \<not> allowed
                            then (case futileCut env reason w1 of (e, w2) \<Rightarrow> Some (Inl e, failHandle e h3, w2))
                            else Option.bind (resubscribed env agent h3 w1) (\<lambda>(r, h4, w2).
                              case r of
                                Inl e \<Rightarrow> Some (Inl e, h4, w2)
                              | Inr stream \<Rightarrow>
                                  Some (Inr (), h4\<lparr>handleStream := stream, handleTracked := True,
                                    progress := (progress h4)\<lparr>suspended := False\<rparr>, reconnectCount := Suc (reconnectCount h4)\<rparr>, w2))))"

section \<open>Iteration and \<open>wait\<close>\<close>

definition cut :: "'s CommandHandle \<Rightarrow> bool" where
  "cut h \<longleftrightarrow> suspended (progress h) \<or> pendingCut h \<noteq> None"

partial_function (option) chunks ::
  "'m CoreEnv \<Rightarrow> ('m, 's) ProcessAgent \<Rightarrow> 's CommandHandle \<Rightarrow> 'm SandboxCore_scheme \<Rightarrow> ('m, 's) step" where
  "chunks env agent h w =
     (if isFinished (progress h) \<or> handleDisconnected agent w then Some (Inr (), h, w)
      else Option.bind (consumeStream env agent h w) (\<lambda>(r, h1, w1).
        case r of
          Inl e \<Rightarrow> Some (Inl e, h1, w1)
        | Inr _ \<Rightarrow>
            if isFinished (progress h1) \<or> handleDisconnected agent w1 \<or> \<not> cut h1 then Some (Inr (), h1, w1)
            else Option.bind (resubscribeAfterCut env agent h1 w1) (\<lambda>(r, h2, w2).
              case r of Inl e \<Rightarrow> Some (Inl e, h2, w2) | Inr _ \<Rightarrow> chunks env agent h2 w2)))"

declare consumeStream.simps [code] chunks.simps [code]

definition wait ::
  "'m CoreEnv \<Rightarrow> ('m, 's) ProcessAgent \<Rightarrow> 's CommandHandle \<Rightarrow> 'm SandboxCore_scheme \<Rightarrow>
     ((Thrown + CommandOutcome) \<times> 's CommandHandle \<times> 'm SandboxCore_scheme) option" where
  "wait env agent h w =
     Option.bind (chunks env agent h w) (\<lambda>(r, h1, w1).
       case r of
         Inl e \<Rightarrow> Some (Inl e, h1, w1)
       | Inr _ \<Rightarrow>
           (case resolveProgress (handleDisconnected agent w1) (progress h1) of (v, p) \<Rightarrow> Some (Inr v, h1\<lparr>progress := p\<rparr>, w1)))"

text \<open>\<open>run\<close>: in the background it gives the handle, and otherwise it waits.\<close>

datatype 's RunResult =
    Refused CommandError | RunThrew Thrown | RunHandle "'s CommandHandle" | RunOutcome CommandOutcome "'s CommandHandle"

definition runCommand ::
  "'m CoreEnv \<Rightarrow> ('m, 's) ProcessAgent \<Rightarrow> (StartRequest \<Rightarrow> int option \<Rightarrow> ('m, 's \<times> ProcessEvent option) rpc) \<Rightarrow>
     codepoints \<Rightarrow> StartRequestInput \<Rightarrow> bool \<Rightarrow> JsInput option \<Rightarrow> 'm SandboxCore_scheme \<Rightarrow> ('s RunResult \<times> 'm SandboxCore_scheme) option" where
  "runCommand env agent start cmd input background maxOutput w =
     (case (case maxOutput of None \<Rightarrow> Inr COMMAND_OUTPUT_MAX_BYTES | Some n \<Rightarrow> validateMaxOutputBytes n) of
        Inl e \<Rightarrow> Some (Refused e, w)
      | Inr maxOutputBytes \<Rightarrow>
          (case andThen (buildStartRequest cmd input) (\<lambda>request.
                  andThen (streamDeadlineMs (Some (case startTimeout input of None \<Rightarrow> TimeMs DEFAULT_COMMAND_TIMEOUT_MS | Some t \<Rightarrow> t)))
                    (\<lambda>deadline. Inr (request, deadline))) of
             Inl e \<Rightarrow> Some (Refused e, w)
           | Inr (request, deadline) \<Rightarrow>
               Option.bind (attach env agent (start request deadline) deadline (\<not> background) maxOutputBytes w) (\<lambda>(r, w1).
                 case r of
                   Inl e \<Rightarrow> Some (RunThrew e, w1)
                 | Inr h \<Rightarrow>
                     if background then Some (RunHandle h, w1)
                     else Option.bind (wait env agent h w1) (\<lambda>(r, h1, w2).
                       case r of Inl e \<Rightarrow> Some (RunThrew e, w2) | Inr v \<Rightarrow> Some (RunOutcome v h1, w2)))))"

section \<open>The other operations\<close>

text \<open>\<open>connect\<close>, and the unary calls; what a call sends is an argument of its parameter.\<close>

definition connectCommand ::
  "'m CoreEnv \<Rightarrow> ('m, 's) ProcessAgent \<Rightarrow> JsInput \<Rightarrow> JsInput option \<Rightarrow> TimeInput option \<Rightarrow> JsInput option \<Rightarrow>
     'm SandboxCore_scheme \<Rightarrow> ('s RunResult \<times> 'm SandboxCore_scheme) option" where
  "connectCommand env agent pid fromSeq timeout maxOutput w =
     (case andThen (case timeout of None \<Rightarrow> Inr None | Some t \<Rightarrow> map_sum id (\<lambda>ms. if ms = 0 then None else Some ms) (timeoutToMs (Some t))) (\<lambda>deadline.
           andThen (validatePid pid) (\<lambda>p.
           andThen (validateFromSeq (case fromSeq of None \<Rightarrow> JsInteger 0 | Some n \<Rightarrow> n)) (\<lambda>seq.
           andThen (case maxOutput of None \<Rightarrow> Inr COMMAND_OUTPUT_MAX_BYTES | Some n \<Rightarrow> validateMaxOutputBytes n) (\<lambda>m.
             Inr (deadline, p, seq, m))))) of
        Inl e \<Rightarrow> Some (Refused e, w)
      | Inr (deadline, p, seq, m) \<Rightarrow>
          Option.bind (attach env agent (agentConnect agent p seq deadline) deadline False m w) (\<lambda>(r, w1).
            case r of Inl e \<Rightarrow> Some (RunThrew e, w1) | Inr h \<Rightarrow> Some (RunHandle h, w1)))"

datatype StdinData = StdinText codepoints | StdinBytes "nat list"

definition encodeStdin :: "StdinData \<Rightarrow> nat list" where
  "encodeStdin input = (case input of StdinText t \<Rightarrow> bufferFromText t | StdinBytes b \<Rightarrow> b)"

definition checkedCall ::
  "'m CoreEnv \<Rightarrow> 'm signal \<Rightarrow> JsInput \<Rightarrow> (nat \<Rightarrow> ('m, unit) rpc) \<Rightarrow> 'm SandboxCore_scheme \<Rightarrow>
     ((CommandError + (Thrown + unit)) \<times> 'm SandboxCore_scheme) option" where
  "checkedCall env signal pid call w =
     (case validatePid pid of
        Inl e \<Rightarrow> Some (Inl e, w)
      | Inr p \<Rightarrow> Option.bind (translatedUnary env False signal (call p) w) (\<lambda>(r, w1). Some (Inr r, w1)))"

definition SIGKILL :: nat where "SIGKILL = 9"

definition killProcess ::
  "'m CoreEnv \<Rightarrow> 'm signal \<Rightarrow> (nat \<Rightarrow> nat \<Rightarrow> ('m, unit) rpc) \<Rightarrow> JsInput \<Rightarrow> 'm SandboxCore_scheme \<Rightarrow>
     ((CommandError + (Thrown + bool)) \<times> 'm SandboxCore_scheme) option" where
  "killProcess env signal sendSignal pid w =
     Option.bind (checkedCall env signal pid (\<lambda>p. sendSignal p SIGKILL) w) (\<lambda>(r, w1).
       Some (map_sum id (\<lambda>x. case x of
           Inr _ \<Rightarrow> Inr True
         | Inl (SdkThrown e) \<Rightarrow> if notFoundClass (errorClass e) then Inr False else Inl (SdkThrown e)
         | Inl e \<Rightarrow> Inl e) r, w1))"

definition sendStdin ::
  "'m CoreEnv \<Rightarrow> 'm signal \<Rightarrow> (nat \<Rightarrow> nat list \<Rightarrow> ('m, unit) rpc) \<Rightarrow> JsInput \<Rightarrow> StdinData \<Rightarrow> 'm SandboxCore_scheme \<Rightarrow>
     ((CommandError + (Thrown + unit)) \<times> 'm SandboxCore_scheme) option" where
  "sendStdin env signal sendInput pid input w = checkedCall env signal pid (\<lambda>p. sendInput p (encodeStdin input)) w"

definition closeStdin ::
  "'m CoreEnv \<Rightarrow> 'm signal \<Rightarrow> (nat \<Rightarrow> ('m, unit) rpc) \<Rightarrow> JsInput \<Rightarrow> 'm SandboxCore_scheme \<Rightarrow>
     ((CommandError + (Thrown + unit)) \<times> 'm SandboxCore_scheme) option" where
  "closeStdin env signal call pid w = checkedCall env signal pid call w"

section \<open>What an agent promises\<close>

text \<open>The process writes the pieces \<open>wrote 1\<close> to \<open>wrote written\<close>.  A stream has a position, the number of the
  piece it is about to give; a new subscription starts where it is asked to.  The end of the process comes
  after all its output, except for the statuses that end only the stream or the process early.\<close>

definition endsEarly :: "EndEvent \<Rightarrow> bool" where
  "endsEarly e \<longleftrightarrow> endStatus e \<in> {STATUS_SUSPENDING, STATUS_OUTPUT_TRUNCATED, STATUS_TIMEOUT, STATUS_SANDBOX_TIMEOUT}"

definition faithfulAgent ::
  "('m, 's) ProcessAgent \<Rightarrow> ('m SandboxCore_scheme \<Rightarrow> 's \<Rightarrow> nat) \<Rightarrow> (nat \<Rightarrow> DataOutput) \<Rightarrow> nat \<Rightarrow> bool" where
  "faithfulAgent agent position wrote written \<longleftrightarrow>
     (\<forall>s w event w'. agentNext agent s w = (Inr (Some event), w') \<longrightarrow>
        (case event of
           DataEvent n out \<Rightarrow> n = position w s \<and> out = wrote n \<and> position w' s = Suc n
         | EndMessage e \<Rightarrow> endsEarly e \<or> position w s = Suc written
         | _ \<Rightarrow> position w' s = position w s)) \<and>
     (\<forall>pid k d w s first w'. agentConnect agent pid k d w = (Inr (s, first), w') \<longrightarrow> k = 0 \<or> position w' s = k)"

text \<open>The output up to a message, and what a handle holds that saw exactly that.\<close>

definition seenUpTo :: "nat \<Rightarrow> (nat \<Rightarrow> DataOutput) \<Rightarrow> nat \<Rightarrow> OutputAccumulator" where
  "seenUpTo m wrote n = foldl (\<lambda>acc i. snd (feedAccumulator i (wrote i) acc)) (newOutputAccumulator m) [1..<Suc n]"

definition stdoutPieces :: "(nat \<Rightarrow> DataOutput) \<Rightarrow> nat \<Rightarrow> nat list list" where
  "stdoutPieces wrote n = concat (map (\<lambda>i. case wrote i of StdoutBytes p \<Rightarrow> [p] | _ \<Rightarrow> []) [1..<Suc n])"

definition stderrPieces :: "(nat \<Rightarrow> DataOutput) \<Rightarrow> nat \<Rightarrow> nat list list" where
  "stderrPieces wrote n = concat (map (\<lambda>i. case wrote i of StderrBytes p \<Rightarrow> [p] | _ \<Rightarrow> []) [1..<Suc n])"

lemma seenUpTo_Suc: "seenUpTo m wrote (Suc n) = snd (feedAccumulator (Suc n) (wrote (Suc n)) (seenUpTo m wrote n))"
  by (simp add: seenUpTo_def)

lemma feedAccumulator_lastSeq: "lastSeq (snd (feedAccumulator n out acc)) = max (lastSeq acc) n"
  by (cases out) (simp_all add: feedAccumulator_def split_def Let_def)

lemma seenUpTo_lastSeq [simp]: "lastSeq (seenUpTo m wrote n) = n"
  by (induction n) (simp_all add: seenUpTo_Suc feedAccumulator_lastSeq, simp add: seenUpTo_def newOutputAccumulator_def)

lemma feedStream_empty: "feedStream s [] = (None, s)"
  by (simp add: feedStream_def decodeStream_def decodeOut_def withoutMark_def replaced_def emit_def)

lemma feedPieces_snoc: "snd (feedPieces s (ps @ [p])) = snd (feedStream (snd (feedPieces s ps)) p)"
  by (induction ps arbitrary: s) (simp_all add: split_def Let_def)

lemma seenUpTo_streams:
  "accStdout (seenUpTo m wrote n) = snd (feedPieces (newDecodedStream m) (stdoutPieces wrote n))"
  "accStderr (seenUpTo m wrote n) = snd (feedPieces (newDecodedStream m) (stderrPieces wrote n))"
proof (induction n)
  case (Suc n)
  have pieces: "stdoutPieces wrote (Suc n) = stdoutPieces wrote n @ (case wrote (Suc n) of StdoutBytes p \<Rightarrow> [p] | _ \<Rightarrow> [])"
    "stderrPieces wrote (Suc n) = stderrPieces wrote n @ (case wrote (Suc n) of StderrBytes p \<Rightarrow> [p] | _ \<Rightarrow> [])"
    by (simp_all add: stdoutPieces_def stderrPieces_def)
  show "accStdout (seenUpTo m wrote (Suc n)) = snd (feedPieces (newDecodedStream m) (stdoutPieces wrote (Suc n)))"
    "accStderr (seenUpTo m wrote (Suc n)) = snd (feedPieces (newDecodedStream m) (stderrPieces wrote (Suc n)))"
    unfolding pieces using Suc
    by (cases "wrote (Suc n)"; simp add: seenUpTo_Suc feedAccumulator_def feedStream_empty feedPieces_snoc split_def Let_def)+
qed (simp_all add: seenUpTo_def newOutputAccumulator_def stdoutPieces_def stderrPieces_def)

text \<open>A handle without an outcome has seen a part of the output, and its stream goes on from there; a
  result comes from all of it.  Once a loss is logged nothing is said.\<close>

definition handleOk :: "nat \<Rightarrow> (nat \<Rightarrow> DataOutput) \<Rightarrow> nat \<Rightarrow> 's CommandHandle \<Rightarrow> bool" where
  "handleOk m wrote written h \<longleftrightarrow>
     lossLogged h \<or>
     (outcome (progress h) = None \<longrightarrow> accumulator (progress h) = seenUpTo m wrote (lastSeq (accumulator (progress h)))) \<and>
     (\<forall>so se t. outcome (progress h) = Some (CommandResult so se t) \<longrightarrow>
        (\<exists>e. fst (finishAccumulator e (seenUpTo m wrote written)) = CommandResult so se t))"

definition following :: "('m SandboxCore_scheme \<Rightarrow> 's \<Rightarrow> nat) \<Rightarrow> 's CommandHandle \<Rightarrow> 'm SandboxCore_scheme \<Rightarrow> bool" where
  "following position h w \<longleftrightarrow> lossLogged h \<or> position w (handleStream h) = Suc (lastSeq (accumulator (progress h)))"

lemma finish_result:
  assumes "fst (finishAccumulator e acc) = CommandResult so se t"
  shows "\<not> endsEarly e"
  using assms by (auto simp: finishAccumulator_def outcomeFromEnd_def endsEarly_def Let_def split: if_splits)

lemma consumeMessage_fields:
  "handleStream (consumeMessage event h) = handleStream h" "lossLogged (consumeMessage event h) = lossLogged h"
  "pendingCut (consumeMessage event h) = pendingCut h" "progress (consumeMessage event h) = snd (consumeEvent event (progress h))"
  by (simp_all add: consumeMessage_def split_def Let_def)

lemma consumeMessage_ok:
  assumes agent: "faithfulAgent agent position wrote written" and message: "agentNext agent (handleStream h) w = (Inr (Some event), w1)"
    and ok: "handleOk m wrote written h" "following position h w" and running: "outcome (progress h) = None"
  shows "handleOk m wrote written (consumeMessage event h) \<and>
    (outcome (progress (consumeMessage event h)) = None \<longrightarrow> suspended (progress (consumeMessage event h)) \<or> following position (consumeMessage event h) w1)"
proof (cases "lossLogged h")
  case True
  then show ?thesis by (simp add: handleOk_def following_def consumeMessage_fields)
next
  case False
  define n where "n = lastSeq (accumulator (progress h))"
  have acc: "accumulator (progress h) = seenUpTo m wrote n" and pos: "position w (handleStream h) = Suc n"
    using False ok running by (simp_all add: handleOk_def following_def n_def)
  note promise = agent [unfolded faithfulAgent_def, THEN conjunct1, rule_format, OF message]
  show ?thesis
  proof (cases event)
    case (DataEvent k out)
    then have "k = Suc n" "out = wrote (Suc n)" "position w1 (handleStream h) = Suc (Suc n)" using promise pos by auto
    then show ?thesis
      using running DataEvent acc
      by (simp add: handleOk_def following_def consumeMessage_fields consumeEvent_def split_def Let_def seenUpTo_Suc [symmetric])
  next
    case (EndMessage e)
    then have "endsEarly e \<or> n = written" using promise pos by simp
    with EndMessage running acc finish_result [of e "seenUpTo m wrote n"] show ?thesis
      by (auto simp: handleOk_def consumeMessage_fields consumeEvent_def split_def Let_def)
  qed (use promise running acc pos in \<open>simp_all add: handleOk_def following_def consumeMessage_fields consumeEvent_def\<close>)
qed

lemmas consumeStream_induct = consumeStream.raw_induct [rotated, consumes 1, case_names step]
lemmas chunks_induct = chunks.raw_induct [rotated, consumes 1, case_names step]

lemma handleOk_failed: "outcome (progress h) = Some (OutcomeError e) \<Longrightarrow> handleOk m wrote written h"
  by (simp add: handleOk_def)

lemma handleOk_released [simp]: "handleOk m wrote written (h\<lparr>handleTracked := b\<rparr>) = handleOk m wrote written h"
  by (simp add: handleOk_def)

lemma streamThrew_ok:
  assumes "handleOk m wrote written h" "streamThrew env agent e h w = (r, h', w')"
  shows "handleOk m wrote written h'"
  using assms
  by (auto simp: streamThrew_def failHandle_def failProgress_def handleOk_def split: option.splits if_splits prod.splits)

lemma consumeStream_ok:
  assumes "consumeStream env agent h w = Some rhw" "faithfulAgent agent position wrote written" "handleOk m wrote written h"
    "following position h w" "outcome (progress h) = None"
  shows "handleOk m wrote written (fst (snd rhw))"
  using assms
proof (induction env agent h w rhw rule: consumeStream_induct)
  case (step rec env agent h w rhw)
  obtain r w1 where message: "agentNext agent (handleStream h) w = (r, w1)" by fastforce
  consider e where "r = Inl e" | "r = Inr None" | event where "r = Inr (Some event)" by (cases r; cases "projr r") auto
  then show ?case
  proof cases
    case 1
    then have "streamThrew env agent e (h\<lparr>handleTracked := False\<rparr>) w1 = rhw" using step(2) message by simp
    moreover have "handleOk m wrote written (h\<lparr>handleTracked := False\<rparr>)" using step(4) by simp
    ultimately show ?thesis using streamThrew_ok by (metis prod.collapse)
  next
    case 2
    then show ?thesis using step(2,4) message by auto
  next
    case (3 event)
    note message = message [unfolded 3]
    note ok = consumeMessage_ok [OF step(3) message step(4-6)]
    show ?thesis
    proof (cases "isFinished (progress (consumeMessage event h)) \<or> suspended (progress (consumeMessage event h))")
      case True
      then show ?thesis using step(2) message ok by (auto simp: Let_def)
    next
      case False
      then have "rec env agent (consumeMessage event h) w1 = Some rhw" using step(2) message by (simp add: Let_def)
      then show ?thesis using False ok step(1) [OF _ step(3)] by (simp add: isFinished_def)
    qed
  qed
qed

text \<open>A stream that was opened is one that the agent gave.\<close>

lemma retryDelays_answers: "retryDelays ds call pause aborted w = (Inr v, w') \<Longrightarrow> \<exists>w0. call w0 = (Inr v, w')"
proof (induction ds arbitrary: w)
  case (Cons d ds)
  obtain r w1 where "call w = (r, w1)" by fastforce
  with Cons show ?case by (auto simp: Let_def split: sum.splits if_splits option.splits)
qed auto

lemma openStream_answers:
  fixes first :: "('m, 'v) rpc"
  assumes "openStream env translate filesystem reconnecting signal first w = Some (Inr v, w')"
  shows "\<exists>w0. first w0 = (Inr v, w')"
proof -
  note retry = retryDelays_answers [of CONNECT_RETRY_DELAYS_MS first "envSleep env" signal, folded retryUnestablished_def]
  have minted: "firstMessageReminting env signal first u = (Inr v, w') \<Longrightarrow> \<exists>w0. first w0 = (Inr v, w')" for u
    using retry by (auto simp: firstMessageReminting_def split: prod.splits sum.splits if_splits)
  have once: "openStreamOnce env translate filesystem reconnecting signal first w = Some (Inr v, w')"
    using assms by (cases "signal w"; cases "openStreamOnce env translate filesystem reconnecting signal first w")
      (auto simp: openStream_def split: sum.splits)
  obtain r w1 where r: "firstMessageReminting env signal first w = (r, w1)" by fastforce
  show ?thesis
  proof (cases r)
    case (Inr v')
    with once r minted show ?thesis by (auto simp: openStreamOnce_def Let_def)
  next
    case (Inl e)
    define failed where "failed = (\<lambda>e u. case openFailure env translate filesystem e u of (e', u') \<Rightarrow> (Inl e' :: Thrown + 'v, u'))"
    define again where "again = (\<lambda>u. case retryUnestablished first (envSleep env) signal u of (Inr v, u') \<Rightarrow> (Inr v, u') | (Inl e, u') \<Rightarrow> failed e u')"
    have failed: "failed e u \<noteq> (Inr v, w')" for e u by (simp add: failed_def split: prod.split)
    have again: "again u = (Inr v, w') \<Longrightarrow> \<exists>w0. first w0 = (Inr v, w')" for u
      using retry failed by (auto simp: again_def split: prod.splits sum.splits)
    have "Option.bind (reopenedAfterDeadlinePause env e (reopens w) w1) (\<lambda>(reopened, w2).
        if reopened then Some (again w2)
        else if \<not> (reconnecting \<and> \<not> coreClosed w2 \<and> isReconnectable e) then Some (failed e w2)
        else Option.bind (reconnect env e (resumeGeneration w) True w2) (\<lambda>(r, w3).
          case r of
            Inl e' \<Rightarrow> Some (Inl e', w3)
          | Inr out \<Rightarrow> if \<not> resumed out then Some (Inl (reconnectError out e), w3) else Some (again w3))) = Some (Inr v, w')"
      using once unfolding openStreamOnce_def Let_def r Inl again_def failed_def by simp
    then show ?thesis using again failed by (auto simp: bind_eq_Some_conv split: if_splits) (auto split: sum.splits if_splits)
  qed
qed

text \<open>The two ways a step of a program goes on.\<close>

lemma bind_sum_elim:
  assumes "Option.bind x (\<lambda>(r, w). case r of Inl e \<Rightarrow> f e w | Inr v \<Rightarrow> g v w) = Some y"
  obtains (Threw) e w where "x = Some (Inl e, w)" "f e w = Some y" | (Answered) v w where "x = Some (Inr v, w)" "g v w = Some y"
proof -
  obtain r w where x: "x = Some (r, w)" using assms by (cases x) auto
  show thesis
  proof (cases r)
    case (Inl e)
    with x assms show ?thesis by (intro Threw [of e w]) simp_all
  next
    case (Inr v)
    with x assms show ?thesis by (intro Answered [of v w]) simp_all
  qed
qed

lemma openConnect_position:
  assumes "faithfulAgent agent position wrote written" "openConnect env agent pid k d w = Some (Inr stream, w')" "0 < k"
  shows "position w' stream = k"
  using assms(2) unfolding openConnect_def
proof (cases rule: bind_sum_elim)
  case (Answered v w1)
  obtain s first where v: "v = (s, first)" by (cases v)
  with Answered have "s = stream" "w1 = w'" by (auto simp: throw_iff split: if_splits)
  with v obtain w0 where "agentConnect agent pid k d w0 = (Inr (stream, first), w')"
    using openStream_answers [OF Answered(1)] by blast
  then show ?thesis using assms(1,3) unfolding faithfulAgent_def by (metis gr_implies_not0)
qed simp

lemma resubscribed_ok:
  assumes "faithfulAgent agent position wrote written" "resubscribed env agent h w = Some (Inr stream, h', w')"
  shows "h' = h\<lparr>lossLogged := True\<rparr> \<or> h' = h \<and> position w' stream = Suc (lastSeq (accumulator (progress h)))"
  using assms(2) unfolding resubscribed_def resubscribeFromSeq_def Suc_eq_plus1 [symmetric]
proof (cases rule: bind_sum_elim)
  case (Threw e w1)
  then have "Option.bind (resubscribe env agent (h\<lparr>lossLogged := True\<rparr>) 0 w1) (\<lambda>(r, w2).
      case r of Inl e' \<Rightarrow> Some (Inl (asError e'), failHandle (asError e') (h\<lparr>lossLogged := True\<rparr>), w2)
        | Inr stream \<Rightarrow> Some (Inr stream, h\<lparr>lossLogged := True\<rparr>, w2)) = Some (Inr stream, h', w')"
    by (auto simp: Let_def split: if_splits)
  then show ?thesis by (cases rule: bind_sum_elim) auto
next
  case (Answered s w1)
  then show ?thesis
    using openConnect_position [OF assms(1)] by (auto simp: resubscribe_def Let_def split: if_splits)
qed

lemma resubscribeAfterCut_ok:
  assumes agent: "faithfulAgent agent position wrote written" and run: "resubscribeAfterCut env agent h w = Some (Inr (), h', w')"
    and ok: "handleOk m wrote written h" "outcome (progress h) = None"
  shows "handleOk m wrote written h' \<and> (handleDisconnected agent w' \<or> following position h' w')"
  using run unfolding resubscribeAfterCut_def Let_def
proof (cases rule: bind_sum_elim)
  case (Answered out w1)
  define h2 where "h2 = h\<lparr>pendingCut := None, handleGeneration := outcomeGeneration out\<rparr>"
  have h2: "handleOk m wrote written h2" "progress h2 = progress h" using ok by (simp_all add: h2_def handleOk_def)
  have resumed: "resumed out" using Answered(2) by (auto split: if_splits)
  show ?thesis
  proof (cases "handleDisconnected agent w1")
    case True
    then have "h' = h2" "w' = w1" using Answered(2) resumed by (auto simp: h2_def)
    with True h2 show ?thesis by simp
  next
    case False
    obtain n where allowed: "budgetAllows out (budget h) = (True, n)"
      using Answered(2) resumed False by (cases "budgetAllows out (budget h)"; cases "fst (budgetAllows out (budget h))") (auto split: prod.splits)
    obtain r h4 w2 where again: "resubscribed env agent (h2\<lparr>budget := n\<rparr>) w1 = Some (r, h4, w2)"
      using Answered(2) resumed False allowed by (auto simp: h2_def bind_eq_Some_conv)
    then obtain stream where r: "r = Inr stream"
      using Answered(2) resumed False allowed by (cases r) (auto simp: h2_def)
    then have h': "h' = h4\<lparr>handleStream := stream, handleTracked := True, progress := (progress h4)\<lparr>suspended := False\<rparr>,
        reconnectCount := Suc (reconnectCount h4)\<rparr>" "w' = w2"
      using Answered(2) resumed False allowed again by (auto simp: h2_def)
    from resubscribed_ok [OF agent again [unfolded r]] h2 h' show ?thesis by (auto simp: handleOk_def following_def)
  qed
qed simp

lemma chunks_ok:
  assumes "chunks env agent h w = Some rhw" "faithfulAgent agent position wrote written" "handleOk m wrote written h"
    "isFinished (progress h) \<or> handleDisconnected agent w \<or> following position h w" "fst rhw = Inr ()"
  shows "handleOk m wrote written (fst (snd rhw))"
  using assms
proof (induction env agent h w rhw rule: chunks_induct)
  case (step rec env agent h w rhw)
  show ?case
  proof (cases "isFinished (progress h) \<or> handleDisconnected agent w")
    case True
    then show ?thesis using step(2,4) by auto
  next
    case False
    then obtain r h1 w1 where read: "consumeStream env agent h w = Some (r, h1, w1)"
      using step(2) by (auto simp: bind_eq_Some_conv)
    have h1: "handleOk m wrote written h1"
      using consumeStream_ok [OF read step(3,4)] False step(5) by (simp add: isFinished_def)
    show ?thesis
    proof (cases r)
      case (Inl e)
      then show ?thesis using step(2,6) read False by auto
    next
      case (Inr u)
      show ?thesis
      proof (cases "isFinished (progress h1) \<or> handleDisconnected agent w1 \<or> \<not> cut h1")
        case True
        then show ?thesis using step(2) read False Inr h1 by auto
      next
        case more: False
        then obtain r2 h2 w2 where sub: "resubscribeAfterCut env agent h1 w1 = Some (r2, h2, w2)"
          using step(2) read False Inr by (auto simp: bind_eq_Some_conv)
        show ?thesis
        proof (cases r2)
          case (Inl e)
          then show ?thesis using step(2,6) read False Inr more sub by auto
        next
          case (Inr u2)
          then have "rec env agent h2 w2 = Some rhw" using step(2) read False \<open>r = Inr u\<close> more sub by auto
          moreover have "handleOk m wrote written h2 \<and> (handleDisconnected agent w2 \<or> following position h2 w2)"
            using resubscribeAfterCut_ok [OF step(3) _ h1] sub Inr more by (simp add: isFinished_def)
          ultimately show ?thesis using step(1) [OF _ step(3)] step(6) by simp
        qed
      qed
    qed
  qed
qed

lemma finish_texts:
  assumes "fst (finishAccumulator e (seenUpTo m wrote n)) = CommandResult so se t"
  shows "suffix so (textDecode (concat (stdoutPieces wrote n))) \<and> suffix se (textDecode (concat (stderrPieces wrote n))) \<and>
    (\<not> t \<longrightarrow> so = textDecode (concat (stdoutPieces wrote n)) \<and> se = textDecode (concat (stderrPieces wrote n)))"
proof -
  let ?out = "snd (flushStream (accStdout (seenUpTo m wrote n)))" and ?err = "snd (flushStream (accStderr (seenUpTo m wrote n)))"
  have "so = streamText ?out" "se = streamText ?err" "t \<longleftrightarrow> streamTruncated ?out \<or> streamTruncated ?err"
    using assms by (auto simp: finishAccumulator_def outcomeFromEnd_def Let_def split: if_splits option.splits)
  moreover have "suffix (streamText (snd (flushStream (snd (feedPieces (newDecodedStream m) ps))))) (textDecode (concat ps)) \<and>
      (\<not> streamTruncated (snd (flushStream (snd (feedPieces (newDecodedStream m) ps)))) \<longrightarrow>
         streamText (snd (flushStream (snd (feedPieces (newDecodedStream m) ps)))) = textDecode (concat ps))" for ps
    using streamed_text [of m ps] by simp
  ultimately show ?thesis using seenUpTo_streams [of m wrote n] by auto
qed

lemma attach_ok:
  assumes "attach env agent start d fore m w = Some (Inr h, w')" "\<forall>v s first v'. start v = (Inr (s, first), v') \<longrightarrow> position v' s = 1"
  shows "handleOk m wrote written h" "following position h w'" "\<not> lossLogged h"
proof -
  from assms(1) have "(\<exists>s first. handleStream h = s \<and> openStream env None False True (handleSignal agent) start w = Some (Inr (s, first), w')) \<and>
      accumulator (progress h) = newOutputAccumulator m \<and> outcome (progress h) = None \<and> \<not> lossLogged h"
    unfolding attach_def
    by (cases rule: bind_sum_elim) (auto simp: throw_iff newCommandProgress_def split: prod.splits)
  then show "handleOk m wrote written h" "following position h w'" "\<not> lossLogged h"
    using assms(2) openStream_answers [of env None False True "handleSignal agent" start w]
    by (fastforce simp: handleOk_def following_def seenUpTo_def newOutputAccumulator_def)+
qed

lemma wait_ok:
  assumes "faithfulAgent agent position wrote written" "handleOk m wrote written h" "following position h w"
    and "wait env agent h w = Some (Inr (CommandResult so se t), h', w')" "\<not> lossLogged h'"
  shows "\<exists>e. fst (finishAccumulator e (seenUpTo m wrote written)) = CommandResult so se t"
proof -
  obtain r h1 w1 where run: "chunks env agent h w = Some (r, h1, w1)"
    using assms(4) by (auto simp: wait_def bind_eq_Some_conv)
  then obtain u where r: "r = Inr u" using assms(4) by (cases r) (auto simp: wait_def)
  then have done': "outcome (progress h1) = Some (CommandResult so se t)" "lossLogged h' = lossLogged h1"
    using assms(4) run by (auto simp: wait_def resolveProgress_def missingOutcome_def Let_def split: option.splits)
  have "handleOk m wrote written h1" using chunks_ok [OF run assms(1,2)] assms(3) r by simp
  with done' assms(5) show ?thesis by (simp add: handleOk_def)
qed

lemma run_foreground:
  assumes "runCommand env agent start cmd input False maxOutput w = Some (RunOutcome v h, w')"
  obtains m request deadline h0 w1 where "attach env agent (start request deadline) deadline True m w = Some (Inr h0, w1)"
    "wait env agent h0 w1 = Some (Inr v, h, w')"
proof -
  define checked where "checked = (case maxOutput of None \<Rightarrow> Inr COMMAND_OUTPUT_MAX_BYTES | Some n \<Rightarrow> validateMaxOutputBytes n)"
  define built where "built = andThen (buildStartRequest cmd input) (\<lambda>request.
    andThen (streamDeadlineMs (Some (case startTimeout input of None \<Rightarrow> TimeMs DEFAULT_COMMAND_TIMEOUT_MS | Some t \<Rightarrow> t)))
      (\<lambda>deadline. Inr (request, deadline)))"
  note run = assms [unfolded runCommand_def, folded checked_def built_def]
  obtain m where m: "checked = Inr m" using run by (cases checked) auto
  obtain request deadline where built: "built = Inr (request, deadline)" using run m by (cases built) auto
  have "Option.bind (attach env agent (start request deadline) deadline True m w) (\<lambda>(r, w1).
      case r of Inl e \<Rightarrow> Some (RunThrew e, w1)
      | Inr h \<Rightarrow> Option.bind (wait env agent h w1) (\<lambda>(r, h1, w2).
          case r of Inl e \<Rightarrow> Some (RunThrew e, w2) | Inr v \<Rightarrow> Some (RunOutcome v h1, w2))) = Some (RunOutcome v h, w')"
    using run [unfolded m built] by (simp only: sum.case prod.case if_False not_False_eq_True)
  then show thesis
  proof (cases rule: bind_sum_elim)
    case (Answered h0 w1)
    then obtain r h1 w2 where waited: "wait env agent h0 w1 = Some (r, h1, w2)" by (auto simp: bind_eq_Some_conv)
    with Answered(2) have "r = Inr v" "h1 = h" "w2 = w'" by (cases r; simp)+
    with Answered(1) waited that show thesis by blast
  qed simp
qed

text \<open>C16: a command that ends well gives the whole output of its process, through any number of cuts and
  suspensions.  Let the agent number the pieces of output, go on where it is asked to, and announce the end of the process
  after its output.  Then the result of \<open>run\<close> holds the decoding of all the bytes of standard
  output and of standard error, nothing lost and nothing twice: a suffix of it when the limit of kept bytes was
  reached, which the result says, and all of it otherwise.  The only exception is logged: the agent
  no longer kept what was missed.\<close>

theorem run_gives_whole_output:
  assumes "faithfulAgent agent position wrote written"
    and "\<And>request d v s first v'. start request d v = (Inr (s, first), v') \<Longrightarrow> position v' s = 1"
    and "runCommand env agent start cmd input False maxOutput w = Some (RunOutcome (CommandResult so se truncated) h, w')"
    and "\<not> lossLogged h"
  shows "suffix so (textDecode (concat (stdoutPieces wrote written))) \<and> suffix se (textDecode (concat (stderrPieces wrote written))) \<and>
    (\<not> truncated \<longrightarrow> so = textDecode (concat (stdoutPieces wrote written)) \<and> se = textDecode (concat (stderrPieces wrote written)))"
proof -
  obtain m request deadline h0 w1 where attached: "attach env agent (start request deadline) deadline True m w = Some (Inr h0, w1)"
    and waited: "wait env agent h0 w1 = Some (Inr (CommandResult so se truncated), h, w')"
    using assms(3) by (rule run_foreground)
  have "\<forall>v s first v'. start request deadline v = (Inr (s, first), v') \<longrightarrow> position v' s = 1" using assms(2) by blast
  note ok = attach_ok [OF attached this]
  obtain e where "fst (finishAccumulator e (seenUpTo m wrote written)) = CommandResult so se truncated"
    using wait_ok [OF assms(1) ok(1,2) waited assms(4)] by blast
  then show ?thesis by (rule finish_texts)
qed

text \<open>An agent whose process writes \<open>H\<close> and, on standard error, \<open>!\<close>; the rest of the world counts the pieces
  given.\<close>

definition demoOutput :: "nat \<Rightarrow> DataOutput" where
  "demoOutput n = (if n = 1 then StdoutBytes [72] else StderrBytes [33])"

definition given :: "rat SandboxCore_scheme \<Rightarrow> rat" where "given w = SandboxCore.more w"

definition demoAgent :: "(rat, unit) ProcessAgent" where
  "demoAgent =
     \<lparr>agentConnect = (\<lambda>pid fromSeq deadline w. (Inl (ValueThrown ''gone''), w)),
      agentNext = (\<lambda>s w.
        if given w = 0 then (Inr (Some (DataEvent 1 (demoOutput 1))), SandboxCore.more_update (\<lambda>_. 1) w)
        else if given w = 1 then (Inr (Some (DataEvent 2 (demoOutput 2))), SandboxCore.more_update (\<lambda>_. 2) w)
        else (Inr (Some (EndMessage \<lparr>endStatus = STATUS_EXITED, endExitCode = 0, endError = None\<rparr>)), w)),
      handleDisconnected = (\<lambda>w. False), handleSignal = noSignal\<rparr>"

definition demoStart :: "StartRequest \<Rightarrow> int option \<Rightarrow> (rat, unit \<times> ProcessEvent option) rpc" where
  "demoStart request deadline w = (Inr ((), Some (StartEvent 7)), SandboxCore.more_update (\<lambda>_. 0) w)"

definition demoPosition :: "rat SandboxCore_scheme \<Rightarrow> unit \<Rightarrow> nat" where
  "demoPosition w s = (if given w = 0 then 1 else if given w = 1 then 2 else 3)"

definition demoInput :: StartRequestInput where
  "demoInput = \<lparr>startEnvs = None, startUser = None, startCwd = None, startStdin = False, startTimeout = None, startTag = None, startKillTree = False\<rparr>"

lemma demoAgent_faithful: "faithfulAgent demoAgent demoPosition demoOutput 2"
  by (auto simp: faithfulAgent_def demoAgent_def demoPosition_def given_def endsEarly_def split: if_splits)

lemma demoAgent_connected: "\<not> handleDisconnected demoAgent w"
  by (simp add: demoAgent_def)

lemma demoHandle_runs:
  assumes "outcome (progress h) = None" "suspended (progress h) = False" "accumulator (progress h) = newOutputAccumulator 5" "given w = 0" "\<not> lossLogged h"
  shows "\<exists>h' w'. wait demoEnv demoAgent h w = Some (Inr (CommandResult [72] [33] False), h', w') \<and> \<not> lossLogged h'"
proof -
  note eval = demoAgent_def given_def demoOutput_def consumeMessage_def consumeEvent_def feedAccumulator_def finishAccumulator_def
    outcomeFromEnd_def newOutputAccumulator_def isFinished_def STATUS_EXITED_def STATUS_SANDBOX_TIMEOUT_def STATUS_TIMEOUT_def
    STATUS_OUTPUT_TRUNCATED_def STATUS_SUSPENDING_def STATUS_SIGNALED_def streamTruncated_def stream_eval
  obtain h' w' where "consumeStream demoEnv demoAgent h w = Some (Inr (), h', w')"
    and "outcome (progress h') = Some (CommandResult [72] [33] False)" "\<not> lossLogged h'"
    using assms by (subst (asm) consumeStream.simps, subst (asm) consumeStream.simps, subst (asm) consumeStream.simps) (simp add: eval)
  then show ?thesis
    using assms demoAgent_connected unfolding wait_def by (subst chunks.simps) (simp add: isFinished_def resolveProgress_def Let_def)
qed

lemma demo_run:
  "\<exists>h w'. runCommand demoEnv demoAgent demoStart [108, 115] demoInput False (Some (JsInteger 5)) demoCore =
     Some (RunOutcome (CommandResult [72] [33] False) h, w') \<and> \<not> lossLogged h"
proof -
  define h where "h = \<lparr>progress = newCommandProgress 7 5, handleStream = (), handleTracked = True,
    deadlineAtMs = deadlineAt (Some 65000) (monotonicNow demoEnv (SandboxCore.more_update (\<lambda>_. 0) demoCore)), foreground = True,
    handleGeneration = resumeGeneration demoCore, pendingCut = None, reconnectCount = 0, budget = 0, lossLogged = False, yielded = []\<rparr>"
  obtain h' w' where "wait demoEnv demoAgent h (SandboxCore.more_update (\<lambda>_. 0) demoCore) = Some (Inr (CommandResult [72] [33] False), h', w')"
    "\<not> lossLogged h'"
    using demoHandle_runs [of h "SandboxCore.more_update (\<lambda>_. 0) demoCore"] by (auto simp: h_def newCommandProgress_def given_def)
  moreover have "attach demoEnv demoAgent (demoStart r (Some 65000)) (Some 65000) True 5 demoCore =
      Some (Inr h, SandboxCore.more_update (\<lambda>_. 0) demoCore)" for r
    by (simp add: attach_def openStream_def openStreamOnce_def firstMessageReminting_def retryUnestablished_def CONNECT_RETRY_DELAYS_MS_def
        demoStart_def demoAgent_def noSignal_def pidFromStartEvent_def h_def demoCore_def)
  moreover have "\<lfloor>120001 / 2 :: rat\<rfloor> = 60000" by (rule floor_unique) simp_all
  ultimately show ?thesis
    by (simp add: runCommand_def validateMaxOutputBytes_def buildStartRequest_def timeoutToMs_def streamDeadlineMs_def demoInput_def
        DEFAULT_COMMAND_TIMEOUT_MS_def STREAM_DEADLINE_GRACE_MS_def trimBy_def jsSpace_def)
qed

theorem run_gives_whole_output_witness:
  "\<exists>so se h w'. runCommand demoEnv demoAgent demoStart [108, 115] demoInput False (Some (JsInteger 5)) demoCore =
       Some (RunOutcome (CommandResult so se False) h, w') \<and> \<not> lossLogged h \<and>
     so = textDecode (concat (stdoutPieces demoOutput 2)) \<and> se = textDecode (concat (stderrPieces demoOutput 2)) \<and> so = [72] \<and> se = [33]"
proof -
  obtain h w' where run: "runCommand demoEnv demoAgent demoStart [108, 115] demoInput False (Some (JsInteger 5)) demoCore =
     Some (RunOutcome (CommandResult [72] [33] False) h, w')" "\<not> lossLogged h" using demo_run by blast
  have "demoPosition v' s = 1" if "demoStart request d v = (Inr (s, first), v')" for request d v s first v'
    using that by (auto simp: demoStart_def demoPosition_def given_def)
  from run_gives_whole_output [OF demoAgent_faithful this run] run show ?thesis by auto
qed

end
