(* ===== verification/Json_Parse.thy ===== *)
theory Json_Parse
  imports Utf8 "HOL-Library.Log_Nat"
begin

text \<open>
  \<open>JSON.parse\<close>, with the rounding of numbers to doubles.  The parser recurses on fuel that the length of the text gives; more
  fuel changes no result.
\<close>

section \<open>Values\<close>

text \<open>Numbers are integers in the values that the SDK writes and doubles in those it reads.\<close>

datatype 'n JsValue =
    VNull | VBool bool | VNumber 'n | VString codepoints | VArray "'n JsValue list" | VObject "(codepoints \<times> 'n JsValue) list"

lemma array_member_size: "v \<in> set vs \<Longrightarrow> size v < size (VArray vs)"
  by (induction vs) auto

lemma object_member_size: "p \<in> set ps \<Longrightarrow> size (snd p) < size (VObject ps)"
  by (induction ps) auto

section \<open>Doubles\<close>

definition twoTo :: "int \<Rightarrow> rat" where
  "twoTo e = (if 0 \<le> e then 2 ^ nat e else 1 / 2 ^ nat (- e))"

definition roundHalfEven :: "rat \<Rightarrow> int" where
  "roundHalfEven x =
     (let f = \<lfloor>x\<rfloor>; d = x - of_int f in if d < 1 / 2 \<or> d = 1 / 2 \<and> even f then f else f + 1)"

text \<open>The exponent of the largest power of two that is not above a positive number.\<close>

definition binaryExponent :: "rat \<Rightarrow> int" where
  "binaryExponent q =
     (let (n, d) = quotient_of q; e = int (floorlog 2 (nat n)) - int (floorlog 2 (nat d))
      in if twoTo e \<le> q then e else e - 1)"

text \<open>The double nearest to a number; none when it is infinite.\<close>

definition toDouble :: "rat \<Rightarrow> rat option" where
  "toDouble q =
     (if q = 0 then Some 0
      else let u = max (binaryExponent \<bar>q\<bar> - 52) (- 1074);
               r = of_int (roundHalfEven (\<bar>q\<bar> / twoTo u)) * twoTo u
           in if twoTo 1024 \<le> r then None else Some (if q < 0 then - r else r))"

section \<open>Parsing\<close>

definition jsonSpace :: "nat \<Rightarrow> bool" where "jsonSpace c \<longleftrightarrow> c \<in> {9, 10, 13, 32}"

definition skipSpace :: "codepoints \<Rightarrow> codepoints" where "skipSpace text = dropWhile jsonSpace text"

definition jsonEscapes :: "(nat \<times> nat) list" where
  "jsonEscapes = (47, 47) # map (\<lambda>(u, l). (l, u)) letterEscapes"

fun parseBody :: "nat \<Rightarrow> codepoints \<Rightarrow> (codepoints \<times> codepoints) option" where
  "parseBody 0 text = None"
| "parseBody (Suc n) text =
     (case text of
        [] \<Rightarrow> None
      | c # rest \<Rightarrow>
          if c = 34 then Some ([], rest)
          else if c < 32 then None
          else if c \<noteq> 92 then map_option (apfst (Cons c)) (parseBody n rest)
          else (case rest of
                  [] \<Rightarrow> None
                | l # rest' \<Rightarrow>
                    if l = 117
                    then (case hexValue (take 4 rest') of
                            None \<Rightarrow> None
                          | Some u \<Rightarrow> map_option (apfst (Cons u)) (parseBody n (drop 4 rest')))
                    else (case map_of jsonEscapes l of
                            None \<Rightarrow> None
                          | Some u \<Rightarrow> map_option (apfst (Cons u)) (parseBody n rest'))))"

text \<open>A number: the digits before the point, those after it and the exponent.\<close>

definition parseFraction :: "codepoints \<Rightarrow> (codepoints \<times> codepoints) option" where
  "parseFraction text =
     (if take 1 text \<noteq> [46] then Some ([], text)
      else let ds = takeWhile decimalDigit (drop 1 text)
           in if ds = [] then None else Some (ds, dropWhile decimalDigit (drop 1 text)))"

definition parseExponent :: "codepoints \<Rightarrow> (int \<times> codepoints) option" where
  "parseExponent text =
     (if text = [] \<or> hd text \<notin> {69, 101} then Some (0, text)
      else let rest = drop 1 text; negative = (take 1 rest = [45]);
               rest' = (if take 1 rest \<in> {[43], [45]} then drop 1 rest else rest);
               ds = takeWhile decimalDigit rest'
           in if ds = [] then None
              else Some (if negative then - int (decimalValue ds) else int (decimalValue ds), dropWhile decimalDigit rest'))"

definition tenTo :: "int \<Rightarrow> rat" where
  "tenTo e = (if 0 \<le> e then 10 ^ nat e else 1 / 10 ^ nat (- e))"

definition parseNumber :: "codepoints \<Rightarrow> (rat option \<times> codepoints) option" where
  "parseNumber text =
     (let negative = (take 1 text = [45]); body = (if negative then drop 1 text else text);
          ds = takeWhile decimalDigit body; rest = dropWhile decimalDigit body
      in if ds = [] \<or> hd ds = 48 \<and> ds \<noteq> [48] then None
         else case parseFraction rest of
                None \<Rightarrow> None
              | Some (fs, rest1) \<Rightarrow>
                  (case parseExponent rest1 of
                     None \<Rightarrow> None
                   | Some (e, rest2) \<Rightarrow>
                       let m = of_nat (decimalValue (ds @ fs)) * tenTo (e - int (length fs))
                       in Some (toDouble (if negative then - m else m), rest2)))"

definition parseWord :: "string \<Rightarrow> 'a \<Rightarrow> codepoints \<Rightarrow> ('a \<times> codepoints) option" where
  "parseWord word v text = (if take (length word) text = units word then Some (v, drop (length word) text) else None)"

text \<open>The property of a repeated key keeps its place and takes the later value.\<close>

fun putProperty :: "codepoints \<Rightarrow> 'a \<Rightarrow> (codepoints \<times> 'a) list \<Rightarrow> (codepoints \<times> 'a) list" where
  "putProperty k v [] = [(k, v)]"
| "putProperty k v (p # ps) = (if fst p = k then (k, v) # ps else p # putProperty k v ps)"

fun parseValue :: "nat \<Rightarrow> codepoints \<Rightarrow> (rat option JsValue \<times> codepoints) option"
  and parseElements :: "nat \<Rightarrow> codepoints \<Rightarrow> (rat option JsValue list \<times> codepoints) option"
  and parseMembers :: "nat \<Rightarrow> (codepoints \<times> rat option JsValue) list \<Rightarrow> codepoints \<Rightarrow>
    ((codepoints \<times> rat option JsValue) list \<times> codepoints) option" where
  "parseValue 0 text = None"
| "parseValue (Suc n) text =
     (case skipSpace text of
        [] \<Rightarrow> None
      | c # rest \<Rightarrow>
          if c = 34 then map_option (apfst VString) (parseBody n rest)
          else if c = 91 then
            (if take 1 (skipSpace rest) = [93] then Some (VArray [], drop 1 (skipSpace rest))
             else map_option (apfst VArray) (parseElements n rest))
          else if c = 123 then
            (if take 1 (skipSpace rest) = [125] then Some (VObject [], drop 1 (skipSpace rest))
             else map_option (apfst VObject) (parseMembers n [] rest))
          else if c = 116 then parseWord ''true'' (VBool True) (c # rest)
          else if c = 102 then parseWord ''false'' (VBool False) (c # rest)
          else if c = 110 then parseWord ''null'' VNull (c # rest)
          else map_option (apfst VNumber) (parseNumber (c # rest)))"
| "parseElements 0 text = None"
| "parseElements (Suc n) text =
     (case parseValue n text of
        None \<Rightarrow> None
      | Some (v, rest) \<Rightarrow>
          (case skipSpace rest of
             [] \<Rightarrow> None
           | c # rest' \<Rightarrow>
               if c = 93 then Some ([v], rest')
               else if c = 44 then map_option (apfst (Cons v)) (parseElements n rest')
               else None))"
| "parseMembers 0 ps text = None"
| "parseMembers (Suc n) ps text =
     (if take 1 (skipSpace text) \<noteq> [34] then None
      else case parseBody n (drop 1 (skipSpace text)) of
        None \<Rightarrow> None
      | Some (k, rest) \<Rightarrow>
          if take 1 (skipSpace rest) \<noteq> [58] then None
          else (case parseValue n (drop 1 (skipSpace rest)) of
                  None \<Rightarrow> None
                | Some (v, rest') \<Rightarrow>
                    (case skipSpace rest' of
                       [] \<Rightarrow> None
                     | c # rest'' \<Rightarrow>
                         if c = 125 then Some (putProperty k v ps, rest'')
                         else if c = 44 then parseMembers n (putProperty k v ps) rest''
                         else None)))"

text \<open>Every step of the reading takes at least one code unit or goes one level down, so twice the length of the
  text is enough.\<close>

definition jsonParse :: "codepoints \<Rightarrow> rat option JsValue option" where
  "jsonParse text =
     (case parseValue (2 * length text + 2) text of
        Some (v, rest) \<Rightarrow> if skipSpace rest = [] then Some v else None
      | None \<Rightarrow> None)"


section \<open>Enough fuel\<close>

lemma skipSpace_length: "length (skipSpace t) \<le> length t"
  by (simp add: skipSpace_def length_dropWhile_le)

lemma skipSpace_step: "skipSpace t = c # rest \<Longrightarrow> length rest < length t"
  using skipSpace_length [of t] by simp

lemma parseBody_shorter: "parseBody n t = Some (s, rest) \<Longrightarrow> length rest < length t"
proof (induction n t arbitrary: s rest rule: parseBody.induct)
  case (2 n t)
  show ?case
  proof (cases t)
    case (Cons c more)
    show ?thesis
    proof (cases "c = 92")
      case True
      with Cons 2(4) obtain l more' where l: "more = l # more'" by (cases more) auto
      have drop: "length (drop 4 more') \<le> length more'" by simp
      show ?thesis using 2 Cons True l drop
        by (force split: if_splits option.splits)
    qed (use 2 Cons in \<open>fastforce split: if_splits\<close>)
  qed (use 2 in simp)
qed simp

lemma parseFraction_shorter: "parseFraction t = Some (ds, rest) \<Longrightarrow> length rest \<le> length t"
  using length_dropWhile_le [of decimalDigit "drop 1 t"] by (auto simp: parseFraction_def Let_def split: if_splits)

lemma parseExponent_shorter: "parseExponent t = Some (e, rest) \<Longrightarrow> length rest \<le> length t"
  using length_dropWhile_le [of decimalDigit "drop 1 t"] length_dropWhile_le [of decimalDigit "drop (Suc (Suc 0)) t"]
  by (auto simp: parseExponent_def Let_def split: if_splits)

lemma parseNumber_shorter:
  assumes "parseNumber t = Some (q, rest)"
  shows "length rest < length t"
proof -
  define body where "body = (if take 1 t = [45] then drop 1 t else t)"
  obtain fs rest1 e where *: "takeWhile decimalDigit body \<noteq> []" "parseFraction (dropWhile decimalDigit body) = Some (fs, rest1)"
    "parseExponent rest1 = Some (e, rest)"
    using assms unfolding parseNumber_def body_def Let_def by (auto split: if_splits option.splits)
  have "length (dropWhile decimalDigit body) < length body"
    using *(1) takeWhile_dropWhile_id [of decimalDigit body] by (metis length_append length_greater_0_conv less_add_same_cancel2)
  moreover have "length body \<le> length t" by (simp add: body_def)
  ultimately show ?thesis using parseFraction_shorter [OF *(2)] parseExponent_shorter [OF *(3)] by linarith
qed

lemma parseWord_shorter: "parseWord w v t = Some (u, rest) \<Longrightarrow> w \<noteq> [] \<Longrightarrow> length rest < length t"
  by (cases w; cases t) (auto simp: parseWord_def units_def split: if_splits)

lemma parse_shorter:
  "parseValue n t = Some (v, rest) \<Longrightarrow> length rest < length t"
  "parseElements n t = Some (vs, rest') \<Longrightarrow> length rest' < length t"
  "parseMembers n ps t = Some (qs, rest'') \<Longrightarrow> length rest'' < length t"
proof (induction n t and n t and n ps t arbitrary: v rest and vs rest' and qs rest''
    rule: parseValue_parseElements_parseMembers.induct)
  case (2 n t)
  then obtain c more where c: "skipSpace t = c # more" by (cases "skipSpace t") auto
  have "length (drop 1 (skipSpace more)) \<le> length more" using skipSpace_length [of more] by simp
  with 2 c skipSpace_step [OF c] show ?case
    using skipSpace_length [of t] parseBody_shorter [of n more] parseWord_shorter [of _ _ "c # more"] parseNumber_shorter [of "c # more"]
    by (fastforce split: if_splits)
next
  case (4 n t)
  then obtain v more where v: "parseValue n t = Some (v, more)" by (cases "parseValue n t") auto
  with 4(3) obtain c more' where c: "skipSpace more = c # more'" by (cases "skipSpace more") auto
  show ?case using 4 v c skipSpace_step [OF c] by (fastforce split: if_splits)
next
  case (6 n ps t)
  have opn: "take 1 (skipSpace t) = [34]" using 6(3) by (auto split: if_splits)
  with 6(3) obtain k more where k: "parseBody n (drop 1 (skipSpace t)) = Some (k, more)"
    by (cases "parseBody n (drop 1 (skipSpace t))") auto
  have colon: "take 1 (skipSpace more) = [58]" using 6(3) opn k by (auto split: if_splits)
  with 6(3) opn k obtain v more' where v: "parseValue n (drop 1 (skipSpace more)) = Some (v, more')"
    by (cases "parseValue n (drop 1 (skipSpace more))") auto
  with 6(3) opn k colon obtain c more'' where c: "skipSpace more' = c # more''" by (cases "skipSpace more'") auto
  have "length more'' < length more'" using skipSpace_step [OF c] .
  also have "length more' < length (drop 1 (skipSpace more))" using 6(1) [OF _ k _ _ v] opn colon by simp
  also have "\<dots> \<le> length more" using skipSpace_length [of more] by simp
  also have "\<dots> < length (drop 1 (skipSpace t))" using parseBody_shorter [OF k] .
  also have "\<dots> \<le> length t" using skipSpace_length [of t] by simp
  finally show ?case using 6(2) 6(3) opn k colon v c by (fastforce split: if_splits)
qed simp_all

declare parseBody.simps(2) [simp del] parseValue.simps(2) [simp del] parseElements.simps(2) [simp del] parseMembers.simps(2) [simp del]

lemma parseBody_enough: "length t < n \<Longrightarrow> parseBody (Suc n) t = parseBody n t"
proof (induction n arbitrary: t)
  case (Suc n)
  show ?case
  proof (cases t)
    case (Cons c more)
    then have IH: "parseBody (Suc n) r = parseBody n r" if "length r \<le> length more" for r using that Suc by simp
    show ?thesis
    proof (cases more)
      case Nil
      then show ?thesis using IH [of more] by (simp add: parseBody.simps(2) [of _ "[c]"] Cons)
    next
      case (Cons l more')
      have "parseBody (Suc n) (drop 4 more') = parseBody n (drop 4 more')" "parseBody (Suc n) more' = parseBody n more'"
        using Cons by (intro IH, simp)+
      then show ?thesis using IH [of more] Cons \<open>t = c # more\<close>
        by (simp add: parseBody.simps(2) [of _ "c # l # more'"] split: option.split)
    qed
  qed (simp add: parseBody.simps(2))
qed simp

lemma parseValue_enough:
  assumes "length t * 2 < Suc n"
    and "\<And>r. length r < length t \<Longrightarrow> parseElements (Suc n) r = parseElements n r"
    and "\<And>r. length r < length t \<Longrightarrow> parseMembers (Suc n) [] r = parseMembers n [] r"
  shows "parseValue (Suc (Suc n)) t = parseValue (Suc n) t"
proof (cases "skipSpace t")
  case (Cons c more)
  then have len: "length more < length t" by (rule skipSpace_step)
  then have "parseBody (Suc n) more = parseBody n more" using assms(1) by (intro parseBody_enough) simp
  with assms(2,3) [OF len] show ?thesis by (simp add: parseValue.simps(2) Cons)
qed (simp add: parseValue.simps(2))

lemma parseElements_enough:
  assumes "parseValue (Suc n) t = parseValue n t"
    and "\<And>r. length r < length t \<Longrightarrow> parseElements (Suc n) r = parseElements n r"
  shows "parseElements (Suc (Suc n)) t = parseElements (Suc n) t"
proof (cases "parseValue n t")
  case None
  then show ?thesis unfolding parseElements.simps(2) [of "Suc n"] parseElements.simps(2) [of n] assms(1) by simp
next
  case (Some p)
  obtain v more where p: "p = (v, more)" by (cases p)
  have "parseElements (Suc n) r = parseElements n r" if "skipSpace more = c # r" for c r
    using parse_shorter(1) [OF Some [unfolded p]] skipSpace_step [OF that] by (intro assms(2)) simp
  then show ?thesis unfolding parseElements.simps(2) [of "Suc n"] parseElements.simps(2) [of n] assms(1) Some p
    by (cases "skipSpace more") simp_all
qed

lemma parseMembers_enough:
  assumes "length t < n"
    and "\<And>r. length r < length t \<Longrightarrow> parseValue (Suc n) r = parseValue n r"
    and "\<And>r qs. length r < length t \<Longrightarrow> parseMembers (Suc n) qs r = parseMembers n qs r"
  shows "parseMembers (Suc (Suc n)) ps t = parseMembers (Suc n) ps t"
proof (cases "take 1 (skipSpace t) = [34]")
  case True
  have key: "length (drop 1 (skipSpace t)) < length t"
    using True skipSpace_length [of t] by (cases "skipSpace t") auto
  have b: "parseBody (Suc n) (drop 1 (skipSpace t)) = parseBody n (drop 1 (skipSpace t))"
    using key assms(1) by (intro parseBody_enough) simp
  show ?thesis
  proof (cases "parseBody n (drop 1 (skipSpace t))")
    case None
    then show ?thesis unfolding parseMembers.simps(2) [of "Suc n"] parseMembers.simps(2) [of n] b by simp
  next
    case (Some p)
    obtain k more where p: "p = (k, more)" by (cases p)
    have "length (drop 1 (skipSpace more)) \<le> length more" using skipSpace_length [of more] by simp
    then have len: "length (drop 1 (skipSpace more)) < length t" using parseBody_shorter [OF Some [unfolded p]] key by simp
    note body = Some [unfolded p]
    have more: "parseMembers (Suc n) qs r' = parseMembers n qs r'"
      if "parseValue n (drop 1 (skipSpace more)) = Some (v, r)" "skipSpace r = c # r'" for v r c r' qs
      using parse_shorter(1) [OF that(1)] skipSpace_step [OF that(2)] len by (intro assms(3)) simp
    show ?thesis
    proof (cases "parseValue n (drop 1 (skipSpace more))")
      case (Some q)
      obtain v r where q: "q = (v, r)" by (cases q)
      from more [OF Some [unfolded q]] show ?thesis
        by (cases "skipSpace r") (simp_all add: parseMembers.simps(2) True b body Some q assms(2) [OF len] del: One_nat_def)
    qed (simp add: parseMembers.simps(2) True b body assms(2) [OF len] del: One_nat_def)
  qed
qed (simp add: parseMembers.simps(2))

lemma parse_enough:
  "(2 * length t < n \<longrightarrow> parseValue (Suc n) t = parseValue n t) \<and>
   (2 * length t + 1 < n \<longrightarrow> parseElements (Suc n) t = parseElements n t) \<and>
   (2 * length t < n \<longrightarrow> parseMembers (Suc n) ps t = parseMembers n ps t)"
proof (induction n arbitrary: t ps)
  case (Suc n)
  have "parseValue (Suc (Suc n)) t = parseValue (Suc n) t" if "2 * length t < Suc n"
    using that Suc.IH by (intro parseValue_enough) simp_all
  moreover have "parseElements (Suc (Suc n)) t = parseElements (Suc n) t" if "2 * length t + 1 < Suc n"
    using that Suc.IH by (intro parseElements_enough) simp_all
  moreover have "parseMembers (Suc (Suc n)) ps t = parseMembers (Suc n) ps t" if "2 * length t < Suc n"
  proof (cases t)
    case Nil
    then show ?thesis by (simp add: skipSpace_def parseMembers.simps(2))
  next
    case (Cons c r)
    then show ?thesis using that Suc.IH by (intro parseMembers_enough) simp_all
  qed
  ultimately show ?case by blast
qed simp

text \<open>More fuel than twice the length of the text changes nothing.\<close>

lemma jsonParse_fuel:
  assumes "2 * length t < n"
  shows "jsonParse t = (case parseValue n t of Some (v, rest) \<Rightarrow> if skipSpace rest = [] then Some v else None | None \<Rightarrow> None)"
proof -
  have "parseValue (k + Suc (2 * length t)) t = parseValue (Suc (2 * length t)) t" for k
  proof (induction k)
    case (Suc k)
    then show ?case using parse_enough [of t "k + Suc (2 * length t)"] by simp
  qed simp
  from this [of "n - Suc (2 * length t)"] this [of 1] assms show ?thesis
    by (simp add: jsonParse_def)
qed

end
