(* ===== verification/Canonical_Json.thy ===== *)
theory Canonical_Json
  imports Json_Parse
begin

text \<open>
  The canonical text of \<open>sandbox/listing.ts\<close>: \<open>compareCodePoints\<close> orders strings by their code points and
  \<open>canonicalJson\<close> writes a value with its keys in that order.  The language parses the text back to
  the same value with sorted keys, and the text is well formed whatever strings the value holds.
\<close>

section \<open>Order by code points\<close>

fun comparePoints :: "nat list \<Rightarrow> nat list \<Rightarrow> int" where
  "comparePoints (a # as) (b # bs) = (if int a - int b \<noteq> 0 then int a - int b else comparePoints as bs)"
| "comparePoints as bs = int (length as) - int (length bs)"

definition compareCodePoints :: "codepoints \<Rightarrow> codepoints \<Rightarrow> int" where
  "compareCodePoints left right = comparePoints (pointsOf left) (pointsOf right)"

lemma comparePoints_swap: "comparePoints bs as = - comparePoints as bs"
  by (induction as bs rule: comparePoints.induct) auto

lemma comparePoints_zero: "comparePoints as bs = 0 \<longleftrightarrow> as = bs"
  by (induction as bs rule: comparePoints.induct) auto

lemma comparePoints_trans: "comparePoints as bs \<le> 0 \<Longrightarrow> comparePoints bs cs \<le> 0 \<Longrightarrow> comparePoints as cs \<le> 0"
proof (induction as arbitrary: bs cs)
  case Nil
  then show ?case by (cases cs) simp_all
next
  case (Cons a as)
  then obtain b bs' where b: "bs = b # bs'" by (cases bs) auto
  then obtain c cs' where "cs = c # cs'" using Cons.prems(2) by (cases cs) auto
  with b Cons show ?case by (auto split: if_splits)
qed

lemma compareCodePoints_comparator: "js_comparator (\<lambda>x y. compareCodePoints (f x) (f y))"
proof
  show "sgn (compareCodePoints (f x) (f y)) = - sgn (compareCodePoints (f y) (f x))" for x y
    by (simp add: compareCodePoints_def comparePoints_swap [of "pointsOf (f y)"] sgn_minus)
  show "compareCodePoints (f x) (f y) \<le> 0 \<Longrightarrow> compareCodePoints (f y) (f z) \<le> 0 \<Longrightarrow> compareCodePoints (f x) (f z) \<le> 0" for x y z
    unfolding compareCodePoints_def by (rule comparePoints_trans)
qed

interpretation points_order: js_comparator compareCodePoints
  using compareCodePoints_comparator [of id] by simp

interpretation key_order: js_comparator "\<lambda>p q. compareCodePoints (fst p) (fst q)"
  by (rule compareCodePoints_comparator)

lemma compareCodePoints_zero: "jsText s \<Longrightarrow> jsText t \<Longrightarrow> compareCodePoints s t = 0 \<longleftrightarrow> s = t"
  by (metis comparePoints_zero compareCodePoints_def units_of_points)

section \<open>Canonical text\<close>

function canonicalJson :: "int JsValue \<Rightarrow> codepoints" where
  "canonicalJson (VArray vs) = [91] @ joinWith [44] (map canonicalJson vs) @ [93]"
| "canonicalJson (VObject ps) =
     [123] @ joinWith [44] (map (\<lambda>p. quoteText (fst p) @ [58] @ canonicalJson (snd p))
       (jsSort (\<lambda>p q. compareCodePoints (fst p) (fst q)) (ownProperties ps))) @ [125]"
| "canonicalJson VNull = units ''null''"
| "canonicalJson (VBool b) = units (if b then ''true'' else ''false'')"
| "canonicalJson (VNumber n) = numberText n"
| "canonicalJson (VString s) = quoteText s"
  by pat_completeness auto
termination
  by (relation "measure size") (auto dest: array_member_size object_member_size)

text \<open>The value that the text stands for.\<close>

function canonicalRead :: "int JsValue \<Rightarrow> rat option JsValue" where
  "canonicalRead (VArray vs) = VArray (map canonicalRead vs)"
| "canonicalRead (VObject ps) =
     VObject (map (\<lambda>p. (fst p, canonicalRead (snd p))) (jsSort (\<lambda>p q. compareCodePoints (fst p) (fst q)) (ownProperties ps)))"
| "canonicalRead VNull = VNull"
| "canonicalRead (VBool b) = VBool b"
| "canonicalRead (VNumber n) = VNumber (Some (of_int n))"
| "canonicalRead (VString s) = VString s"
  by pat_completeness auto
termination
  by (relation "measure size") (auto dest: array_member_size object_member_size)

text \<open>A value that the SDK writes: text of sixteen bits, distinct keys and numbers that a double holds.\<close>

function valueOk :: "int JsValue \<Rightarrow> bool" where
  "valueOk (VArray vs) = list_all valueOk vs"
| "valueOk (VObject ps) = (distinct (map fst ps) \<and> list_all (\<lambda>p. jsText (fst p) \<and> valueOk (snd p)) ps)"
| "valueOk VNull = True"
| "valueOk (VBool b) = True"
| "valueOk (VNumber n) = (\<bar>n\<bar> < 2 ^ 53)"
| "valueOk (VString s) = jsText s"
  by pat_completeness auto
termination
  by (relation "measure size") (auto dest: array_member_size object_member_size)

section \<open>Integers that a double holds\<close>

lemma roundHalfEven_int [simp]: "roundHalfEven (of_int m) = m"
  by (simp add: roundHalfEven_def)

lemma binaryExponent_int:
  assumes "0 < n" "n < 2 ^ 53"
  shows "binaryExponent (of_int n) \<le> 52"
proof -
  have "2 ^ (floorlog 2 (nat n) - 1) \<le> nat n" using floorlog_leD [of 2] assms floorlog_bounds [of "nat n" 2] by simp
  also have "\<dots> < 2 ^ 53" using assms by (simp add: nat_less_iff)
  finally have "floorlog 2 (nat n) - 1 < 53" by (rule power_less_imp_less_exp [rotated]) simp
  moreover have "floorlog 2 (1 :: nat) = 1" by (simp add: floorlog_def)
  ultimately show ?thesis by (auto simp: binaryExponent_def quotient_of_int Let_def)
qed

lemma toDouble_int:
  assumes "\<bar>n\<bar> < 2 ^ 53"
  shows "toDouble (of_int n) = Some (of_int n)"
proof (cases "n = 0")
  case False
  define q where "q = (of_int n :: rat)"
  define u where "u = max (binaryExponent \<bar>q\<bar> - 52) (- 1074)"
  have q: "\<bar>q\<bar> = of_int \<bar>n\<bar>" "q \<noteq> 0" using False by (simp_all add: q_def)
  have "u \<le> 0" using binaryExponent_int [of "\<bar>n\<bar>"] False assms by (simp add: u_def q)
  then have two: "twoTo u = 1 / 2 ^ nat (- u)" by (cases "u = 0") (simp_all add: twoTo_def)
  have "\<bar>q\<bar> / twoTo u = of_int (\<bar>n\<bar> * 2 ^ nat (- u))" by (simp add: two q)
  then have "roundHalfEven (\<bar>q\<bar> / twoTo u) = \<bar>n\<bar> * 2 ^ nat (- u)" using roundHalfEven_int by presburger
  then have r: "of_int (roundHalfEven (\<bar>q\<bar> / twoTo u)) * twoTo u = \<bar>q\<bar>" by (simp add: two q)
  have "\<bar>q\<bar> < of_int (2 ^ 53)" using assms unfolding q of_int_less_iff .
  also have "\<dots> \<le> twoTo 1024" unfolding twoTo_def by (simp add: power_increasing [of 53 1024 "2 :: rat", simplified])
  finally have "toDouble q = Some (if q < 0 then - \<bar>q\<bar> else \<bar>q\<bar>)"
    using q(2) unfolding toDouble_def u_def [symmetric] Let_def r by simp
  then show ?thesis by (simp add: q_def abs_if)
qed (simp add: toDouble_def)


section \<open>Reading the canonical text back\<close>

definition endsValue :: "codepoints \<Rightarrow> bool" where
  "endsValue rest \<longleftrightarrow> rest = [] \<or> \<not> decimalDigit (hd rest) \<and> hd rest \<notin> {46, 69, 101}"

lemma quoteUnit_parse:
  assumes "c < 65536"
  shows "parseBody (Suc n) (quoteUnit c @ t) = map_option (apfst (Cons c)) (parseBody n t)"
proof (cases "map_of letterEscapes c")
  case (Some l)
  have "l \<noteq> 47" using Some by (auto simp: letterEscapes_def split: if_splits)
  with letterEscapes_range [OF Some] letterEscapes_inverse [OF Some] Some show ?thesis
    by (simp add: quoteUnit_def parseBody.simps(2) jsonEscapes_def)
next
  case None
  then have "c \<noteq> 34" "c \<noteq> 92" by (auto simp: letterEscapes_def split: if_splits)
  moreover obtain h where "unicodeEscape c = [92, 117] @ h" "length h = 4" "hexValue h = Some c" using unicodeEscape_reads [OF assms] .
  ultimately show ?thesis using None by (simp add: quoteUnit_def parseBody.simps(2))
qed

lemma surrogate_parse:
  "highSurrogate c \<or> lowSurrogate c \<Longrightarrow> parseBody (Suc n) (c # t) = map_option (apfst (Cons c)) (parseBody n t)"
  by (auto simp: parseBody.simps(2) highSurrogate_def lowSurrogate_def)

lemma parseBody_text: "jsText s \<Longrightarrow> length s < n \<Longrightarrow> parseBody n (quoteBody s @ 34 # rest) = Some (s, rest)"
proof (induction s arbitrary: n rule: quoteBody.induct)
  case 1
  then show ?case by (cases n) (simp_all add: parseBody.simps(2))
next
  case (2 c)
  then obtain m where m: "n = Suc (Suc m)" by (cases n; cases "n - 1") auto
  with 2 quoteUnit_parse [of c "Suc m"] show ?case by (simp add: jsText_def parseBody.simps(2) [of m "34 # rest"])
next
  case (3 c d s)
  then obtain m where m: "n = Suc (Suc m)" by (cases n; cases "n - 1") auto
  show ?case
  proof (cases "highSurrogate c \<and> lowSurrogate d")
    case True
    with 3(1) [OF True, of m] 3(3,4) m show ?thesis by (simp add: surrogate_parse jsText_def)
  next
    case False
    with 3(2) [OF False, of "Suc m"] 3(3,4) m quoteUnit_parse [of c "Suc m"] show ?thesis by (auto simp: jsText_def)
  qed
qed

lemma quoteUnit_length: "c < 65536 \<Longrightarrow> 1 \<le> length (quoteUnit c)"
  by (rule unicodeEscape_reads [of c]) (auto simp: quoteUnit_def split: option.split)

lemma quoteBody_length: "jsText s \<Longrightarrow> length s \<le> length (quoteBody s)"
proof (induction s rule: quoteBody.induct)
  case (2 c)
  then show ?case using quoteUnit_length [of c] by (simp add: jsText_def)
next
  case (3 c d s)
  then show ?case using quoteUnit_length [of c] by (cases "highSurrogate c \<and> lowSurrogate d") (auto simp: jsText_def)
qed simp

lemma skipSpace_none: "t = [] \<or> \<not> jsonSpace (hd t) \<Longrightarrow> skipSpace t = t"
  by (cases t) (simp_all add: skipSpace_def)

text \<open>A number of more than one digit does not start with zero.\<close>

lemma showDigits_first: "hd (units (showDigits 10 n)) = 48 \<Longrightarrow> n = 0"
proof (induction "10 :: nat" n rule: showDigits.induct)
  case (1 n)
  then show ?case
    by (cases "n < 10") (auto simp: showDigits.simps [of 10 n] units_def digitChar_code hd_append hd_map)
qed

lemma parseNumber_text:
  assumes "\<bar>n\<bar> < 2 ^ 53" "endsValue rest"
  shows "parseNumber (numberText n @ rest) = Some (Some (of_int n), rest)"
proof -
  define ds where "ds = units (showDigits 10 (nat \<bar>n\<bar>))"
  have digits: "list_all decimalDigit ds" using showDigits_code by (auto simp: ds_def list_all_iff)
  have ne: "ds \<noteq> []" by (simp add: ds_def units_def)
  have stop: "takeWhile decimalDigit rest = []" "dropWhile decimalDigit rest = rest" "take 1 rest \<noteq> [46]" "rest = [] \<or> hd rest \<notin> {69, 101}"
    using assms(2) by (cases rest; simp add: endsValue_def)+
  have scan: "takeWhile decimalDigit (ds @ rest) = ds" "dropWhile decimalDigit (ds @ rest) = rest"
    using digits stop by (simp_all add: list_all_iff takeWhile_append2 dropWhile_append2)
  have zero: "hd ds = 48 \<Longrightarrow> ds = [48]" using showDigits_first [of "nat \<bar>n\<bar>"] by (auto simp: ds_def units_def showDigits.simps [of 10 0])
  have val: "decimalValue ds = nat \<bar>n\<bar>" by (simp add: ds_def decimalValue_def parseDigits_showDigits)
  have "decimalDigit (hd ds)" using digits ne by (cases ds) auto
  then have first: "take 1 (ds @ rest) \<noteq> [45]" using ne by (cases ds) (auto simp: decimalDigit_def)
  have tail: "parseFraction rest = Some ([], rest)" "parseExponent rest = Some (0, rest)"
    using stop by (auto simp: parseFraction_def parseExponent_def)
  have m: "of_nat (decimalValue ds) * tenTo 0 = (of_int \<bar>n\<bar> :: rat)" by (simp add: val tenTo_def)
  define t where "t = ds @ rest"
  have sign: "numberText n @ rest = (if n < 0 then 45 # t else t)" by (simp add: numberText_def ds_def t_def)
  show ?thesis
    unfolding parseNumber_def Let_def sign using ne zero toDouble_int [OF assms(1)] m first scan tail
    unfolding t_def [symmetric] by (cases "n < 0") auto
qed

lemma numberText_start:
  obtains c t where "numberText n = c # t" "c = 45 \<or> decimalDigit c"
proof -
  obtain d ds where d: "units (showDigits 10 (nat \<bar>n\<bar>)) = d # ds" by (cases "units (showDigits 10 (nat \<bar>n\<bar>))") (auto simp: units_def)
  then have "decimalDigit d" using showDigits_code [of d "nat \<bar>n\<bar>"] by simp
  with d show ?thesis by (cases "n < 0") (auto simp: numberText_def intro: that)
qed

text \<open>A value does not start with a space, nor with the bracket that closes an array, nor with a byte order mark.\<close>

lemma canonicalJson_start:
  obtains c t where "canonicalJson v = c # t" "\<not> jsonSpace c" "c \<noteq> 93" "c \<noteq> BYTE_ORDER_MARK"
proof (cases v)
  case (VNumber n)
  obtain c t where "numberText n = c # t" "c = 45 \<or> decimalDigit c" by (rule numberText_start)
  with VNumber show ?thesis
    by (intro that [of c t]) (auto simp: decimalDigit_def jsonSpace_def BYTE_ORDER_MARK_def)
next
  case (VBool b)
  then show ?thesis by (cases b) (auto simp: units_def jsonSpace_def BYTE_ORDER_MARK_def intro: that)
qed (auto simp: quoteText_def units_def jsonSpace_def BYTE_ORDER_MARK_def intro: that)

lemma skipSpace_canonical [simp]: "skipSpace (canonicalJson v @ t) = canonicalJson v @ t"
  by (rule canonicalJson_start [of v]) (simp add: skipSpace_none)

lemma canonicalJson_length: "0 < length (canonicalJson v)"
  by (rule canonicalJson_start [of v]) simp

definition readsBack :: "int JsValue \<Rightarrow> bool" where
  "readsBack v \<longleftrightarrow> (\<forall>n rest. length (canonicalJson v) \<le> n \<longrightarrow> endsValue rest \<longrightarrow>
     parseValue (Suc n) (canonicalJson v @ rest) = Some (canonicalRead v, rest))"

lemma parseElements_text:
  assumes "list_all readsBack vs" "vs \<noteq> []" "Suc (length (joinWith [44] (map canonicalJson vs))) < n"
  shows "parseElements n (joinWith [44] (map canonicalJson vs) @ 93 # rest) = Some (map canonicalRead vs, rest)"
  using assms
proof (induction vs arbitrary: n)
  case (Cons v vs)
  define more where "more = (if vs = [] then 93 # rest else 44 # joinWith [44] (map canonicalJson vs) @ 93 # rest)"
  have whole: "joinWith [44] (map canonicalJson (v # vs)) @ 93 # rest = canonicalJson v @ more"
    by (cases vs) (simp_all add: more_def)
  have len: "length (canonicalJson v) + (if vs = [] then 0 else Suc (length (joinWith [44] (map canonicalJson vs)))) < n - 1"
    using Cons.prems(3) by (cases vs) simp_all
  then obtain m where m: "n = Suc (Suc m)" by (cases n; cases "n - 1") auto
  have "endsValue more" by (simp add: more_def endsValue_def decimalDigit_def)
  moreover have "length (canonicalJson v) \<le> m" using len m by simp
  ultimately have val: "parseValue (Suc m) (canonicalJson v @ more) = Some (canonicalRead v, more)"
    using Cons.prems(1) by (simp add: readsBack_def)
  have "parseElements (Suc m) (joinWith [44] (map canonicalJson vs) @ 93 # rest) = Some (map canonicalRead vs, rest)" if "vs \<noteq> []"
    using Cons.prems(1) that len m canonicalJson_length [of v] by (intro Cons.IH) simp_all
  moreover have "skipSpace more = more" by (rule skipSpace_none) (simp add: more_def jsonSpace_def)
  ultimately show ?case unfolding whole m by (simp add: parseElements.simps(2) [of "Suc m"] val) (simp add: more_def)
qed simp

definition memberJson :: "codepoints \<times> int JsValue \<Rightarrow> codepoints" where
  "memberJson p = quoteText (fst p) @ [58] @ canonicalJson (snd p)"

lemma putProperty_new: "k \<notin> fst ` set ps \<Longrightarrow> putProperty k v ps = ps @ [(k, v)]"
  by (induction ps) auto

lemma parseMembers_text:
  assumes "list_all (\<lambda>p. jsText (fst p) \<and> readsBack (snd p)) qs" "qs \<noteq> []" "distinct (map fst qs)"
    "fst ` set qs \<inter> fst ` set acc = {}" "length (joinWith [44] (map memberJson qs)) < n"
  shows "parseMembers n acc (joinWith [44] (map memberJson qs) @ 125 # rest) =
    Some (acc @ map (\<lambda>p. (fst p, canonicalRead (snd p))) qs, rest)"
  using assms
proof (induction qs arbitrary: n acc)
  case (Cons p qs)
  define more where "more = (if qs = [] then 125 # rest else 44 # joinWith [44] (map memberJson qs) @ 125 # rest)"
  have whole: "joinWith [44] (map memberJson (p # qs)) @ 125 # rest = 34 # quoteBody (fst p) @ 34 # 58 # canonicalJson (snd p) @ more"
    by (cases qs) (simp_all add: more_def memberJson_def quoteText_def)
  have len: "length (memberJson p) + (if qs = [] then 0 else Suc (length (joinWith [44] (map memberJson qs)))) < n"
    using Cons.prems(5) by (cases qs) simp_all
  have key: "jsText (fst p)" using Cons.prems(1) by simp
  have mem: "length (fst p) + 3 + length (canonicalJson (snd p)) \<le> length (memberJson p)"
    using quoteBody_length [OF key] by (simp add: memberJson_def quoteText_def)
  obtain m where m: "n = Suc (Suc m)" using len mem by (cases n; cases "n - 1") auto
  have body: "parseBody (Suc m) (quoteBody (fst p) @ 34 # t) = Some (fst p, t)" for t
    using parseBody_text [OF key, of "Suc m"] len mem m by simp
  have "endsValue more" by (simp add: more_def endsValue_def decimalDigit_def)
  moreover have "length (canonicalJson (snd p)) \<le> m" using len mem m by simp
  ultimately have val: "parseValue (Suc m) (canonicalJson (snd p) @ more) = Some (canonicalRead (snd p), more)"
    using Cons.prems(1) by (simp add: readsBack_def)
  have put: "putProperty (fst p) v acc = acc @ [(fst p, v)]" for v using Cons.prems(4) by (intro putProperty_new) auto
  have "parseMembers (Suc m) (acc @ [(fst p, canonicalRead (snd p))]) (joinWith [44] (map memberJson qs) @ 125 # rest) =
      Some ((acc @ [(fst p, canonicalRead (snd p))]) @ map (\<lambda>p. (fst p, canonicalRead (snd p))) qs, rest)" if "qs \<noteq> []"
    using Cons.prems that len m by (intro Cons.IH) auto
  moreover have skip: "skipSpace more = more" "skipSpace (58 # t) = 58 # t" "skipSpace (34 # t) = 34 # t" for t
    by (rule skipSpace_none, simp add: more_def jsonSpace_def)+
  ultimately show ?case unfolding whole m by (simp add: parseMembers.simps(2) [of "Suc m"] skip body val) (simp add: more_def put)
qed simp

lemma canonicalJson_reads: "valueOk v \<Longrightarrow> readsBack v"
proof (induction v rule: canonicalJson.induct)
  case (1 vs)
  then have vs: "list_all readsBack vs" by (simp add: list_all_iff)
  show ?case unfolding readsBack_def
  proof (intro allI impI)
    fix n rest assume len: "length (canonicalJson (VArray vs)) \<le> n" and "endsValue rest"
    show "parseValue (Suc n) (canonicalJson (VArray vs) @ rest) = Some (canonicalRead (VArray vs), rest)"
    proof (cases vs)
      case Nil
      then show ?thesis by (simp add: parseValue.simps(2) skipSpace_none jsonSpace_def)
    next
      case (Cons v ws)
      define t where "t = joinWith [44] (map canonicalJson vs) @ 93 # rest"
      obtain c u where u: "canonicalJson v = c # u" "\<not> jsonSpace c" "c \<noteq> 93" by (rule canonicalJson_start)
      then obtain t' where c: "t = c # t'" "\<not> jsonSpace c" "c \<noteq> 93" by (cases ws) (auto simp: t_def Cons)
      have "parseElements n t = Some (map canonicalRead vs, rest)"
        unfolding t_def using vs len Cons by (intro parseElements_text) auto
      with c show ?thesis unfolding canonicalJson.simps append.simps append_assoc t_def [symmetric]
        by (simp add: parseValue.simps(2) skipSpace_none jsonSpace_def)
    qed
  qed
next
  case (2 ps)
  define qs where "qs = jsSort (\<lambda>p q. compareCodePoints (fst p) (fst q)) (ownProperties ps)"
  have "set qs = set ps" by (simp add: qs_def)
  with 2 have qs: "list_all (\<lambda>p. jsText (fst p) \<and> readsBack (snd p)) qs"
    by (auto simp: list_all_iff)
  have "mset (map fst qs) = mset (map fst ps)" by (simp add: qs_def)
  with 2(2) have dist: "distinct (map fst qs)" using mset_eq_imp_distinct_iff by fastforce
  have written: "canonicalJson (VObject ps) = 123 # joinWith [44] (map memberJson qs) @ [125]"
    by (simp add: qs_def memberJson_def [abs_def])
  show ?case unfolding readsBack_def
  proof (intro allI impI)
    fix n rest assume len: "length (canonicalJson (VObject ps)) \<le> n" and "endsValue rest"
    show "parseValue (Suc n) (canonicalJson (VObject ps) @ rest) = Some (canonicalRead (VObject ps), rest)"
    proof (cases qs)
      case Nil
      then show ?thesis unfolding written by (simp add: parseValue.simps(2) skipSpace_none jsonSpace_def qs_def [symmetric])
    next
      case (Cons q rs)
      define t where "t = joinWith [44] (map memberJson qs) @ 125 # rest"
      obtain t' where c: "t = 34 # t'" unfolding t_def Cons by (cases rs) (auto simp: memberJson_def quoteText_def)
      have "parseMembers n [] t = Some (map (\<lambda>p. (fst p, canonicalRead (snd p))) qs, rest)"
        unfolding t_def using parseMembers_text [OF qs _ dist, of "[]" n rest] len Cons written by simp
      with c show ?thesis unfolding written append.simps append_assoc t_def [symmetric]
        by (simp add: parseValue.simps(2) skipSpace_none jsonSpace_def qs_def [symmetric])
    qed
  qed
next
  case (5 n)
  obtain c t where c: "numberText n = c # t" "c = 45 \<or> decimalDigit c" by (rule numberText_start)
  then have "c \<notin> {34, 91, 123, 116, 102, 110, 9, 10, 13, 32}" by (auto simp: decimalDigit_def)
  with c 5 parseNumber_text [of n] show ?case
    unfolding readsBack_def by (auto simp: parseValue.simps(2) skipSpace_none jsonSpace_def)
next
  case (6 s)
  then show ?case using parseBody_text [of s] quoteBody_length [of s]
    unfolding readsBack_def by (simp add: parseValue.simps(2) skipSpace_none jsonSpace_def quoteText_def)
qed (auto simp: readsBack_def parseValue.simps(2) skipSpace_none jsonSpace_def units_def parseWord_def)

lemma jsonParse_canonical:
  assumes "valueOk v"
  shows "jsonParse (canonicalJson v) = Some (canonicalRead v)"
proof -
  have "parseValue (Suc (2 * length (canonicalJson v) + 1)) (canonicalJson v @ []) = Some (canonicalRead v, [])"
    using canonicalJson_reads [OF assms] unfolding readsBack_def by (simp add: endsValue_def)
  then show ?thesis by (simp add: jsonParse_def skipSpace_def)
qed

section \<open>The canonical text is well formed\<close>

lemma wellFormed_append: "wellFormed s \<Longrightarrow> wellFormed t \<Longrightarrow> wellFormed (s @ t)"
  using textOf_wellFormed [of "pointsOf s @ pointsOf t"] units_of_points [of s] units_of_points [of t]
  by (simp add: wellFormed_def)

lemma wellFormed_units: "list_all (\<lambda>u. u < 55296 \<or> 57344 \<le> u \<and> u < 65536) s \<Longrightarrow> wellFormed s"
proof -
  assume s: "list_all (\<lambda>u. u < 55296 \<or> 57344 \<le> u \<and> u < 65536) s"
  then have "concat (map unitsOf s) = s" by (induction s) (auto simp: unitsOf_def)
  moreover have "list_all scalarValue s" using s by (auto simp: list_all_iff scalarValue_range)
  ultimately show ?thesis using textOf_wellFormed by metis
qed

lemma wellFormed_Nil: "wellFormed []" and wellFormed_ascii: "u < 128 \<Longrightarrow> wellFormed [u]"
  by (simp_all add: wellFormed_units)

lemma wellFormed_quoteUnit: "c < 65536 \<Longrightarrow> wellFormed (quoteUnit c)"
proof -
  assume c: "c < 65536"
  obtain h where "unicodeEscape c = [92, 117] @ h" "list_all (\<lambda>u. 32 \<le> u \<and> u < 128) h" using unicodeEscape_reads [OF c] .
  then have "wellFormed (unicodeEscape c)" by (intro wellFormed_units) (auto simp: list_all_iff)
  moreover have "wellFormed [c]" if "\<not> highSurrogate c" "\<not> lowSurrogate c"
    using that c by (intro wellFormed_units) (auto simp: highSurrogate_def lowSurrogate_def)
  moreover have "wellFormed [92, l]" if "map_of letterEscapes c = Some l" for l
    using letterEscapes_range [OF that] by (intro wellFormed_units) auto
  ultimately show ?thesis by (auto simp: quoteUnit_def split: option.split)
qed

lemma wellFormed_quoteBody: "jsText s \<Longrightarrow> wellFormed (quoteBody s)"
proof (induction s rule: quoteBody.induct)
  case (2 c)
  then show ?case by (simp add: wellFormed_quoteUnit jsText_def)
next
  case (3 c d s)
  have "wellFormed [c, d]" if "highSurrogate c" "lowSurrogate d"
    using textOf_wellFormed [of "[65536 + (c - 55296) * 1024 + (d - 56320)]"] pair_point [OF that] by simp
  then have "wellFormed ([c, d] @ quoteBody s)" if "highSurrogate c \<and> lowSurrogate d"
    using 3 that by (intro wellFormed_append) (auto simp: jsText_def)
  moreover have "wellFormed (quoteUnit c @ quoteBody (d # s))" if "\<not> (highSurrogate c \<and> lowSurrogate d)"
    using 3 that by (intro wellFormed_append wellFormed_quoteUnit) (auto simp: jsText_def)
  ultimately show ?case by auto
qed (simp add: wellFormed_Nil)

lemma wellFormed_joinWith: "wellFormed sep \<Longrightarrow> list_all wellFormed xs \<Longrightarrow> wellFormed (joinWith sep xs)"
  by (induction sep xs rule: joinWith.induct) (simp_all add: wellFormed_append wellFormed_Nil)

lemma wellFormed_quoteText: "jsText s \<Longrightarrow> wellFormed (quoteText s)"
  unfolding quoteText_def by (intro wellFormed_append wellFormed_ascii wellFormed_quoteBody) simp_all

lemma wellFormed_canonicalJson: "valueOk v \<Longrightarrow> wellFormed (canonicalJson v)"
proof (induction v rule: canonicalJson.induct)
  case (1 vs)
  then show ?case unfolding canonicalJson.simps
    by (intro wellFormed_append wellFormed_joinWith wellFormed_ascii) (auto simp: list_all_iff)
next
  case (2 ps)
  then have "wellFormed (quoteText (fst p) @ [58] @ canonicalJson (snd p))" if "p \<in> set ps" for p
    using that by (intro wellFormed_append wellFormed_quoteText wellFormed_ascii) (auto simp: list_all_iff)
  then show ?case unfolding canonicalJson.simps
    by (intro wellFormed_append wellFormed_joinWith wellFormed_ascii) (auto simp: list_all_iff)
next
  case (5 n)
  then show ?case using showDigits_code [of _ "nat \<bar>n\<bar>"]
    by (intro wellFormed_units) (fastforce simp: numberText_def list_all_iff decimalDigit_def)
qed (auto simp: wellFormed_quoteText units_def intro: wellFormed_units)

lemma canonicalJson_bytes:
  assumes "valueOk v"
  shows "fatalDecode (bufferFromText (canonicalJson v)) = Some (canonicalJson v)"
proof -
  have "take 1 (canonicalJson v) \<noteq> [BYTE_ORDER_MARK]" by (rule canonicalJson_start [of v]) simp
  then show ?thesis using fatalDecode_text(1) [OF wellFormed_canonicalJson [OF assms]] by simp
qed

end
