(* ===== verification/Listing.thy ===== *)
theory Listing
  imports Canonical_Json Run_Payload Rpc_Errors
begin

text \<open>
  The pure part of listing sandboxes (\<open>sandbox/listing.ts\<close>): the filters and their fingerprint, the
  opaque \<open>nextToken\<close>, the walk over the pages of AWS, the walk over an ordered listing, and the checks of the
  options.  SHA-256 of \<open>node:crypto\<close> is a parameter that gives the hexadecimal digest of some bytes.
  The token of every cursor is decoded to that cursor.
\<close>

section \<open>Items, pages and cursors\<close>

record SandboxListItem =
  itemId :: codepoints
  itemState :: codepoints
  itemTemplate :: codepoints
  itemTemplateVersion :: codepoints
  itemStartedAt :: int
  itemTemplateName :: codepoints
  itemMetadata :: "(codepoints \<times> codepoints) list option"

record MicrovmListPage =
  pageItems :: "SandboxListItem list"
  pageNext :: "codepoints option"

datatype ListOrder = Asc | Desc

definition LIST_PAGE_SIZE :: nat where "LIST_PAGE_SIZE = 50"
definition NEXT_TOKEN_MAX_CHARS :: nat where "NEXT_TOKEN_MAX_CHARS = 8192"
definition TOKEN_VERSION :: int where "TOKEN_VERSION = 1"
definition METADATA_LIST_STATE :: codepoints where "METADATA_LIST_STATE = units ''RUNNING''"

text \<open>A \<open>Set\<close> is the list of its elements in the order they were added.\<close>

definition setAdd :: "'a list \<Rightarrow> 'a \<Rightarrow> 'a list" where "setAdd s x = (if x \<in> set s then s else s @ [x])"

definition newSet :: "'a list \<Rightarrow> 'a list" where "newSet xs = foldl setAdd [] xs"

datatype ListCursor =
    PageCursor "codepoints option" "codepoints list"
  | KeyCursor int codepoints

definition pageCursor :: "codepoints option \<Rightarrow> codepoints list \<Rightarrow> ListCursor" where
  "pageCursor awsToken consumed = PageCursor awsToken (newSet consumed)"

definition FIRST_PAGE :: ListCursor where "FIRST_PAGE = pageCursor None []"

record DecodedToken =
  tokenFingerprint :: codepoints
  tokenCursor :: ListCursor

text \<open>The hexadecimal digest of the bytes of a text.\<close>

type_synonym hash = "nat list \<Rightarrow> codepoints"

definition sha256Hex :: "hash \<Rightarrow> codepoints \<Rightarrow> codepoints" where
  "sha256Hex sha s = sha (bufferFromText s)"

definition itemDigest :: "hash \<Rightarrow> codepoints \<Rightarrow> codepoints" where
  "itemDigest sha sandboxId = take 12 (sha256Hex sha sandboxId)"

section \<open>Filters\<close>

record ListFilters =
  imageArn :: "codepoints option"
  imageVersion :: "codepoints option"
  filterStates :: "codepoints list option"
  startedAfterMs :: "int option"
  filterMetadata :: "(codepoints \<times> codepoints) list option"
  filterOrder :: "ListOrder option"
  indexTable :: "codepoints option"

text \<open>The constructor of \<open>ListFilters\<close>.\<close>

definition newListFilters :: "ListFilters \<Rightarrow> ListFilters" where
  "newListFilters given =
     given\<lparr>filterStates := map_option (jsSort compareCodePoints) (filterStates given),
       filterMetadata := map_option (jsSort (\<lambda>p q. compareCodePoints (fst p) (fst q))) (filterMetadata given)\<rparr>"

definition orNull :: "('a \<Rightarrow> int JsValue) \<Rightarrow> 'a option \<Rightarrow> int JsValue" where
  "orNull f v = (case v of None \<Rightarrow> VNull | Some x \<Rightarrow> f x)"

definition orderText :: "ListOrder \<Rightarrow> codepoints" where
  "orderText order = units (case order of Asc \<Rightarrow> ''asc'' | Desc \<Rightarrow> ''desc'')"

definition filtersDocument :: "ListFilters \<Rightarrow> int JsValue" where
  "filtersDocument filters =
     VObject ([(units ''image'', orNull VString (imageArn filters)),
        (units ''version'', orNull VString (imageVersion filters)),
        (units ''states'', orNull (\<lambda>states. VArray (map VString states)) (filterStates filters)),
        (units ''started_after_ms'', orNull VNumber (startedAfterMs filters)),
        (units ''metadata'', orNull (\<lambda>metadata. VObject (map (\<lambda>(k, v). (k, VString v)) metadata)) (filterMetadata filters)),
        (units ''order'', orNull (\<lambda>order. VString (orderText order)) (filterOrder filters))] @
      (case indexTable filters of None \<Rightarrow> [] | Some table \<Rightarrow> [(units ''index'', VString table)]))"

definition fingerprint :: "hash \<Rightarrow> ListFilters \<Rightarrow> codepoints" where
  "fingerprint sha filters = take 16 (sha256Hex sha (canonicalJson (filtersDocument filters)))"

definition accepts :: "ListFilters \<Rightarrow> SandboxListItem \<Rightarrow> bool" where
  "accepts filters item =
     (if filterMetadata filters \<noteq> None \<and> indexTable filters = None \<and> itemState item \<noteq> METADATA_LIST_STATE then False
      else (case filterStates filters of
              None \<Rightarrow> itemState item \<notin> set (map units TERMINAL_STATES)
            | Some states \<Rightarrow> itemState item \<in> set states) \<and>
           (case startedAfterMs filters of None \<Rightarrow> True | Some ms \<Rightarrow> itemStartedAt item \<ge> ms))"

section \<open>Tokens\<close>

datatype ListingError =
    BadLimit | BadOrder | BadMetadata PayloadError | BadIndex | BadMetadataStates "codepoints list"
  | BadIndexedStates "codepoints list" | BadStartedAfter | InvalidNextToken | ForeignNextToken

definition tokenDocument :: "codepoints \<Rightarrow> ListCursor \<Rightarrow> int JsValue" where
  "tokenDocument f cursor =
     (case cursor of
        KeyCursor ms sandboxId \<Rightarrow>
          VObject [(units ''v'', VNumber TOKEN_VERSION), (units ''f'', VString f), (units ''k'', VArray [VNumber ms, VString sandboxId])]
      | PageCursor awsToken consumed \<Rightarrow>
          VObject [(units ''v'', VNumber TOKEN_VERSION), (units ''f'', VString f), (units ''a'', orNull VString awsToken),
            (units ''s'', VArray (map VString (jsSort compareCodePoints consumed)))])"

definition encodeNextToken :: "codepoints \<Rightarrow> ListCursor \<Rightarrow> codepoints" where
  "encodeNextToken f cursor = map base64Digit (sextets (bufferFromText (canonicalJson (tokenDocument f cursor))))"

definition nextTokenFor :: "codepoints \<Rightarrow> ListCursor option \<Rightarrow> codepoints option" where
  "nextTokenFor f cursor = map_option (encodeNextToken f) cursor"

datatype TokenInput = TokenText codepoints | TokenOther

definition tokenText :: "TokenInput \<Rightarrow> ListingError + codepoints" where
  "tokenText token =
     (case token of
        TokenOther \<Rightarrow> Inl InvalidNextToken
      | TokenText t \<Rightarrow>
          if t = [] \<or> length t > NEXT_TOKEN_MAX_CHARS \<or> length t mod 4 = 1 \<or> \<not> list_all (\<lambda>c. base64Value c \<noteq> None) t
          then Inl InvalidNextToken
          else (case fatalDecode (octets (List.map_filter base64Value t)) of
                  None \<Rightarrow> Inl InvalidNextToken
                | Some s \<Rightarrow> Inr s))"

definition tokenObject :: "codepoints \<Rightarrow> ListingError + (codepoints \<times> rat option JsValue) list" where
  "tokenObject s = (case jsonParse s of Some (VObject ps) \<Rightarrow> Inr ps | _ \<Rightarrow> Inl InvalidNextToken)"

definition hasExactKeys :: "(codepoints \<times> 'a) list \<Rightarrow> codepoints list \<Rightarrow> bool" where
  "hasExactKeys ps keys \<longleftrightarrow> map fst (jsSort compareEntries (ownProperties ps)) = keys"

definition PAGE_KEYS :: "codepoints list" where "PAGE_KEYS = map units [''a'', ''f'', ''s'', ''v'']"
definition KEY_KEYS :: "codepoints list" where "KEY_KEYS = map units [''f'', ''k'', ''v'']"

definition lowerHexText :: "nat \<Rightarrow> codepoints \<Rightarrow> bool" where
  "lowerHexText n s \<longleftrightarrow> length s = n \<and> list_all (\<lambda>c. 48 \<le> c \<and> c \<le> 57 \<or> 97 \<le> c \<and> c \<le> 102) s"

definition digestValue :: "rat option JsValue \<Rightarrow> codepoints option" where
  "digestValue v = (case v of VString s \<Rightarrow> if lowerHexText 12 s then Some s else None | _ \<Rightarrow> None)"

definition pageCursorFrom :: "(codepoints \<times> rat option JsValue) list \<Rightarrow> ListingError + ListCursor" where
  "pageCursorFrom document =
     (case (map_of document (units ''a''), map_of document (units ''s'')) of
        (Some a, Some (VArray digests)) \<Rightarrow>
          if \<not> (case a of VNull \<Rightarrow> True | VString s \<Rightarrow> True | _ \<Rightarrow> False) \<or> length digests > LIST_PAGE_SIZE \<or> \<not> list_all (\<lambda>d. digestValue d \<noteq> None) digests
          then Inl InvalidNextToken
          else Inr (pageCursor (case a of VString s \<Rightarrow> Some s | _ \<Rightarrow> None) (List.map_filter digestValue digests))
      | _ \<Rightarrow> Inl InvalidNextToken)"

text \<open>\<open>Number.isSafeInteger\<close> of a finite double.\<close>

definition isSafeInteger :: "rat \<Rightarrow> bool" where
  "isSafeInteger q \<longleftrightarrow> q = of_int \<lfloor>q\<rfloor> \<and> \<bar>q\<bar> \<le> 9007199254740991"

definition keyCursorFrom :: "(codepoints \<times> rat option JsValue) list \<Rightarrow> ListingError + ListCursor" where
  "keyCursorFrom document =
     (case map_of document (units ''k'') of
        Some (VArray [VNumber (Some started), VString sandboxId]) \<Rightarrow>
          if \<not> isSafeInteger started \<or> started < 0 \<or> sandboxId = [] then Inl InvalidNextToken
          else Inr (KeyCursor \<lfloor>started\<rfloor> sandboxId)
      | _ \<Rightarrow> Inl InvalidNextToken)"

definition decodeNextToken :: "TokenInput \<Rightarrow> ListingError + DecodedToken" where
  "decodeNextToken token =
     andThen (tokenText token) (\<lambda>s. andThen (tokenObject s) (\<lambda>document.
       case (map_of document (units ''v''), map_of document (units ''f'')) of
         (Some (VNumber (Some v)), Some (VString f)) \<Rightarrow>
           if v \<noteq> of_int TOKEN_VERSION \<or> \<not> lowerHexText 16 f then Inl InvalidNextToken
           else if hasExactKeys document PAGE_KEYS
           then andThen (pageCursorFrom document) (\<lambda>cursor. Inr \<lparr>tokenFingerprint = f, tokenCursor = cursor\<rparr>)
           else if hasExactKeys document KEY_KEYS
           then andThen (keyCursorFrom document) (\<lambda>cursor. Inr \<lparr>tokenFingerprint = f, tokenCursor = cursor\<rparr>)
           else Inl InvalidNextToken
       | _ \<Rightarrow> Inl InvalidNextToken))"

section \<open>The walk over the pages of AWS\<close>

record PageWalk =
  pageToken :: "codepoints option"
  walkConsumed :: "codepoints list"
  walkBuffer :: "SandboxListItem list"
  walkLoaded :: bool
  walkNext :: "codepoints option"

definition newPageWalk :: "ListCursor \<Rightarrow> PageWalk" where
  "newPageWalk cursor =
     (case cursor of
        PageCursor awsToken consumed \<Rightarrow>
          \<lparr>pageToken = awsToken, walkConsumed = newSet consumed, walkBuffer = [], walkLoaded = False, walkNext = None\<rparr>
      | KeyCursor ms sandboxId \<Rightarrow>
          \<lparr>pageToken = None, walkConsumed = [], walkBuffer = [], walkLoaded = False, walkNext = None\<rparr>)"

definition walkHasMore :: "PageWalk \<Rightarrow> bool" where
  "walkHasMore walk \<longleftrightarrow> walkBuffer walk \<noteq> [] \<or> \<not> walkLoaded walk \<or> walkNext walk \<noteq> None"

text \<open>\<open>pageToFetch()\<close>: the token of the page to ask for, if one is due.\<close>

definition pageToFetch :: "PageWalk \<Rightarrow> codepoints option option \<times> PageWalk" where
  "pageToFetch walk =
     (if walkBuffer walk \<noteq> [] then (None, walk)
      else if \<not> walkLoaded walk then (Some (pageToken walk), walk)
      else (case walkNext walk of
              None \<Rightarrow> (None, walk)
            | Some t \<Rightarrow> (Some (Some t), walk\<lparr>pageToken := Some t, walkConsumed := [], walkLoaded := False, walkNext := None\<rparr>)))"

definition acceptPage :: "hash \<Rightarrow> MicrovmListPage \<Rightarrow> PageWalk \<Rightarrow> PageWalk" where
  "acceptPage sha page walk =
     walk\<lparr>walkBuffer := filter (\<lambda>item. itemDigest sha (itemId item) \<notin> set (walkConsumed walk)) (pageItems page),
       walkNext := pageNext page, walkLoaded := True\<rparr>"

definition nextRaw :: "hash \<Rightarrow> PageWalk \<Rightarrow> SandboxListItem option \<times> PageWalk" where
  "nextRaw sha walk =
     (case walkBuffer walk of
        [] \<Rightarrow> (None, walk)
      | item # rest \<Rightarrow>
          (Some item, walk\<lparr>walkBuffer := rest, walkConsumed := setAdd (walkConsumed walk) (itemDigest sha (itemId item))\<rparr>))"

definition walkCursor :: "PageWalk \<Rightarrow> ListCursor" where
  "walkCursor walk = pageCursor (pageToken walk) (walkConsumed walk)"

section \<open>The walk over an ordered listing\<close>

definition compareKeys :: "int \<Rightarrow> codepoints \<Rightarrow> int \<Rightarrow> codepoints \<Rightarrow> int" where
  "compareKeys leftMs leftId rightMs rightId =
     (if leftMs = rightMs then compareCodePoints leftId rightId else leftMs - rightMs)"

record OrderedWalk =
  orderedItems :: "SandboxListItem list"
  orderedIndex :: nat
  orderedLast :: "ListCursor option"

definition direction :: "ListOrder \<Rightarrow> int" where "direction order = (if order = Asc then 1 else - 1)"

definition compareItems :: "ListOrder \<Rightarrow> SandboxListItem \<Rightarrow> SandboxListItem \<Rightarrow> int" where
  "compareItems order left right =
     direction order * compareKeys (itemStartedAt left) (itemId left) (itemStartedAt right) (itemId right)"

text \<open>\<open>after === undefined || keyed(item, after) > 0\<close>.\<close>

definition behind :: "ListOrder \<Rightarrow> ListCursor option \<Rightarrow> SandboxListItem \<Rightarrow> bool" where
  "behind order after item =
     (case after of
        Some (KeyCursor ms sandboxId) \<Rightarrow> direction order * compareKeys (itemStartedAt item) (itemId item) ms sandboxId > 0
      | _ \<Rightarrow> True)"

definition newOrderedWalk :: "SandboxListItem list \<Rightarrow> ListOrder \<Rightarrow> ListCursor option \<Rightarrow> OrderedWalk" where
  "newOrderedWalk items order after =
     \<lparr>orderedItems = filter (behind order after) (jsSort (compareItems order) items), orderedIndex = 0, orderedLast = after\<rparr>"

definition orderedHasMore :: "OrderedWalk \<Rightarrow> bool" where
  "orderedHasMore walk \<longleftrightarrow> orderedIndex walk < length (orderedItems walk)"

definition orderedTake :: "nat option \<Rightarrow> OrderedWalk \<Rightarrow> SandboxListItem list \<times> OrderedWalk" where
  "orderedTake limit walk =
     (let stop = (case limit of None \<Rightarrow> length (orderedItems walk) | Some n \<Rightarrow> orderedIndex walk + n);
          served = drop (orderedIndex walk) (take stop (orderedItems walk))
      in (served, walk\<lparr>orderedIndex := orderedIndex walk + length served,
            orderedLast := (if served = [] then orderedLast walk
              else Some (KeyCursor (itemStartedAt (last served)) (itemId (last served))))\<rparr>))"

section \<open>The options\<close>

datatype OrderInput = OrderIs ListOrder | OrderOther

definition validateOrder :: "OrderInput option \<Rightarrow> ListingError + ListOrder option" where
  "validateOrder order =
     (case order of None \<Rightarrow> Inr None | Some (OrderIs o1) \<Rightarrow> Inr (Some o1) | Some OrderOther \<Rightarrow> Inl BadOrder)"

definition validateLimit :: "JsInput option \<Rightarrow> ListingError + nat option" where
  "validateLimit limit =
     (case limit of
        None \<Rightarrow> Inr None
      | Some JsOther \<Rightarrow> Inl BadLimit
      | Some (JsInteger n) \<Rightarrow> if \<not> isSafeInteger (of_int n) \<or> n < 1 then Inl BadLimit else Inr (Some (nat n)))"

datatype DateInput = DateAt int | DateOther

definition validateStartedAfter :: "DateInput option \<Rightarrow> ListingError + int option" where
  "validateStartedAfter startedAfter =
     (case startedAfter of
        None \<Rightarrow> Inr None
      | Some DateOther \<Rightarrow> Inl BadStartedAfter
      | Some (DateAt ms) \<Rightarrow> if ms < 0 then Inl BadStartedAfter else Inr (Some ms))"

definition validateMetadataStates :: "codepoints list option \<Rightarrow> ListingError + unit" where
  "validateMetadataStates states =
     (let unsupported = filter (\<lambda>state. state \<noteq> METADATA_LIST_STATE) (case states of None \<Rightarrow> [] | Some s \<Rightarrow> s)
      in if length unsupported > 0 then Inl (BadMetadataStates unsupported) else Inr ())"

definition validateIndexedStates :: "codepoints list option \<Rightarrow> ListingError + unit" where
  "validateIndexedStates states =
     (let terminal = filter (\<lambda>state. state \<in> set (map units TERMINAL_STATES)) (case states of None \<Rightarrow> [] | Some s \<Rightarrow> s)
      in if length terminal > 0 then Inl (BadIndexedStates terminal) else Inr ())"

definition validateCursorForm :: "DecodedToken option \<Rightarrow> ListOrder option \<Rightarrow> ListingError + unit" where
  "validateCursorForm decoded order =
     (case decoded of
        None \<Rightarrow> Inr ()
      | Some d \<Rightarrow>
          if (order = None) \<noteq> (case tokenCursor d of PageCursor _ _ \<Rightarrow> True | KeyCursor _ _ \<Rightarrow> False)
          then Inl InvalidNextToken else Inr ())"

text \<open>An index is known here by the name of its table.\<close>

datatype IndexInput = IndexIs codepoints | IndexOther

definition validateIndex :: "IndexInput option \<Rightarrow> ListingError + codepoints option" where
  "validateIndex index =
     (case index of None \<Rightarrow> Inr None | Some (IndexIs table) \<Rightarrow> Inr (Some table) | Some IndexOther \<Rightarrow> Inl BadIndex)"

record ListingRequestOptions =
  optTemplate :: "codepoints option"
  optTemplateVersion :: "codepoints option"
  optStates :: "codepoints list option"
  optMetadata :: "(codepoints \<times> MapValue) list option"
  optStartedAfter :: "DateInput option"
  optOrder :: "OrderInput option"
  optLimit :: "JsInput option"
  optNextToken :: "TokenInput option"
  optIndex :: "IndexInput option"

text \<open>The request, with what its method \<open>filters\<close> closes over.\<close>

record ListingRequest =
  reqTemplate :: "codepoints option"
  reqLimit :: "nat option"
  reqOrder :: "ListOrder option"
  reqDecoded :: "DecodedToken option"
  reqHasMetadata :: bool
  reqIndex :: "codepoints option"
  reqWanted :: "(codepoints \<times> codepoints) list"
  reqTemplateVersion :: "codepoints option"
  reqStates :: "codepoints list option"
  reqStartedAfterMs :: "int option"

definition metadataMatches :: "ListingRequest \<Rightarrow> (codepoints \<times> codepoints) list \<Rightarrow> bool" where
  "metadataMatches request candidate = list_all (\<lambda>(key, v). map_of candidate key = Some v) (reqWanted request)"

definition requestFilters :: "ListingRequest \<Rightarrow> codepoints option \<Rightarrow> ListFilters" where
  "requestFilters request arn =
     newListFilters \<lparr>imageArn = arn, imageVersion = reqTemplateVersion request, filterStates = reqStates request,
       startedAfterMs = reqStartedAfterMs request,
       filterMetadata = (if reqHasMetadata request then Some (reqWanted request) else None),
       filterOrder = reqOrder request, indexTable = reqIndex request\<rparr>"

definition optionalStringMap :: "(codepoints \<times> MapValue) list option \<Rightarrow> ListingError + (codepoints \<times> codepoints) list option" where
  "optionalStringMap metadata =
     (case metadata of
        None \<Rightarrow> Inr None
      | Some entries \<Rightarrow>
          (case validatedStringMap entries ''metadata'' of Inl e \<Rightarrow> Inl (BadMetadata e) | Inr ps \<Rightarrow> Inr (Some ps)))"

definition optionalToken :: "TokenInput option \<Rightarrow> ListingError + DecodedToken option" where
  "optionalToken token =
     (case token of None \<Rightarrow> Inr None | Some t \<Rightarrow> andThen (decodeNextToken t) (\<lambda>decoded. Inr (Some decoded)))"

definition listingRequest :: "ListingRequestOptions \<Rightarrow> ListingError + ListingRequest" where
  "listingRequest options =
     andThen (validateLimit (optLimit options)) (\<lambda>limit.
     andThen (validateOrder (optOrder options)) (\<lambda>order.
     andThen (optionalStringMap (optMetadata options)) (\<lambda>metadata.
     andThen (validateIndex (optIndex options)) (\<lambda>givenIndex.
     let index = (if metadata = None then None else givenIndex) in
     andThen (if metadata \<noteq> None \<and> index = None then validateMetadataStates (optStates options) else Inr ()) (\<lambda>_.
     andThen (if index \<noteq> None then validateIndexedStates (optStates options) else Inr ()) (\<lambda>_.
     andThen (validateStartedAfter (optStartedAfter options)) (\<lambda>after.
     andThen (optionalToken (optNextToken options)) (\<lambda>decoded.
     andThen (validateCursorForm decoded order) (\<lambda>_.
     Inr \<lparr>reqTemplate = optTemplate options, reqLimit = limit, reqOrder = order, reqDecoded = decoded,
       reqHasMetadata = (metadata \<noteq> None), reqIndex = index,
       reqWanted = (case metadata of None \<Rightarrow> [] | Some ps \<Rightarrow> ownProperties ps),
       reqTemplateVersion = optTemplateVersion options, reqStates = optStates options, reqStartedAfterMs = after\<rparr>)))))))))"

definition resumeCursors :: "hash \<Rightarrow> DecodedToken option \<Rightarrow> ListFilters \<Rightarrow> ListingError + ListCursor \<times> ListCursor option" where
  "resumeCursors sha decoded filters =
     (case decoded of
        None \<Rightarrow> Inr (FIRST_PAGE, None)
      | Some d \<Rightarrow>
          if tokenFingerprint d \<noteq> fingerprint sha filters then Inl ForeignNextToken
          else (case tokenCursor d of
                  PageCursor _ _ \<Rightarrow> Inr (tokenCursor d, None)
                | KeyCursor _ _ \<Rightarrow> Inr (FIRST_PAGE, Some (tokenCursor d))))"

section \<open>Tokens are read back\<close>

lemma foldl_setAdd: "distinct (s @ xs) \<Longrightarrow> foldl setAdd s xs = s @ xs"
  by (induction xs arbitrary: s) (simp_all add: setAdd_def)

lemma newSet_distinct [simp]: "distinct xs \<Longrightarrow> newSet xs = xs"
  by (simp add: newSet_def foldl_setAdd)

lemma set_foldl_setAdd [simp]: "set (foldl setAdd s xs) = set s \<union> set xs"
  by (induction xs arbitrary: s) (auto simp: setAdd_def)

lemma set_newSet [simp]: "set (newSet xs) = set xs"
  by (simp add: newSet_def)

lemma distinct_foldl_setAdd [simp]: "distinct s \<Longrightarrow> distinct (foldl setAdd s xs)"
  by (induction xs arbitrary: s) (auto simp: setAdd_def)

lemma distinct_newSet [simp]: "distinct (newSet xs)"
  by (simp add: newSet_def)

lemma distinct_jsSort [simp]: "distinct (jsSort cmp xs) = distinct xs"
  using mset_eq_imp_distinct_iff [OF jsSort_mset] .

lemma utf8Bytes_nonempty: "utf8Bytes c \<noteq> []"
  by (simp add: utf8Bytes_def)

lemma bufferFromText_range: "wellFormed s \<Longrightarrow> list_all (\<lambda>b. b < 256) (bufferFromText s)"
  using utf8Bytes_range by (fastforce simp: wellFormed_bytes wellFormed_def list_all_iff)

lemma pointsOf_empty: "pointsOf s = [] \<longleftrightarrow> s = []"
  by (cases s rule: pointsOf.cases) auto

lemma bufferFromText_empty [simp]: "bufferFromText s = [] \<longleftrightarrow> s = []"
  using utf8Bytes_nonempty pointsOf_empty [of s] by (cases "pointsOf s") (auto simp: bufferFromText_def)

lemma length_sextets: "length (sextets bs) = (4 * length bs + 2) div 3"
  by (induction bs rule: sextets.induct) simp_all

lemma length_sextets_rest: "length (sextets bs) mod 4 \<noteq> 1"
  by (induction bs rule: sextets.induct) (simp_all add: mod_Suc)

lemma sextets_empty [simp]: "sextets bs = [] \<longleftrightarrow> bs = []"
  by (cases bs rule: sextets.cases) auto

lemma base64_text:
  assumes "list_all (\<lambda>b. b < 256) bs"
  shows "list_all (\<lambda>c. base64Value c \<noteq> None) (map base64Digit (sextets bs))"
    "octets (List.map_filter base64Value (map base64Digit (sextets bs))) = bs"
proof -
  have range: "list_all (\<lambda>n. n < 64) (sextets bs)" using sextets_range [OF assms] .
  then show "list_all (\<lambda>c. base64Value c \<noteq> None) (map base64Digit (sextets bs))" by (auto simp: list_all_iff base64Value_digit)
  show "octets (List.map_filter base64Value (map base64Digit (sextets bs))) = bs"
    unfolding map_filter_digits [OF range] by (rule octets_sextets [OF assms])
qed

text \<open>What the SDK puts in a token, and the cursor as it is written: the digests are sorted.\<close>

fun cursorOk :: "ListCursor \<Rightarrow> bool" where
  "cursorOk (PageCursor a consumed) \<longleftrightarrow>
     pred_option jsText a \<and> distinct consumed \<and> list_all (lowerHexText 12) consumed \<and> length consumed \<le> LIST_PAGE_SIZE"
| "cursorOk (KeyCursor ms sandboxId) \<longleftrightarrow> 0 \<le> ms \<and> ms < 2 ^ 53 \<and> jsText sandboxId \<and> sandboxId \<noteq> []"

fun writtenCursor :: "ListCursor \<Rightarrow> ListCursor" where
  "writtenCursor (PageCursor a consumed) = PageCursor a (jsSort compareCodePoints consumed)"
| "writtenCursor (KeyCursor ms sandboxId) = KeyCursor ms sandboxId"

lemma lowerHexText_jsText: "lowerHexText n s \<Longrightarrow> jsText s"
  by (auto simp: lowerHexText_def jsText_def list_all_iff)

lemma units_eq: "units s = units t \<longleftrightarrow> s = t"
  by (metis char_of_units)

lemma tokenDocument_ok: "lowerHexText 16 f \<Longrightarrow> cursorOk cursor \<Longrightarrow> valueOk (tokenDocument f cursor)"
  by (cases cursor)
    (auto simp: tokenDocument_def TOKEN_VERSION_def jsText_units units_eq orNull_def list_all_iff lowerHexText_jsText split: option.split)

lemma tokenText_encode:
  assumes "lowerHexText 16 f" "cursorOk cursor" "length (encodeNextToken f cursor) \<le> NEXT_TOKEN_MAX_CHARS"
  shows "tokenText (TokenText (encodeNextToken f cursor)) = Inr (canonicalJson (tokenDocument f cursor))"
proof -
  define t where "t = canonicalJson (tokenDocument f cursor)"
  have ok: "valueOk (tokenDocument f cursor)" using tokenDocument_ok assms by blast
  have bytes: "list_all (\<lambda>b. b < 256) (bufferFromText t)"
    unfolding t_def by (intro bufferFromText_range wellFormed_canonicalJson ok)
  have "t \<noteq> []" using canonicalJson_length [of "tokenDocument f cursor"] by (auto simp: t_def)
  then show ?thesis
    using base64_text [OF bytes] length_sextets_rest [of "bufferFromText t"] assms(3) canonicalJson_bytes [OF ok]
    by (simp add: tokenText_def encodeNextToken_def t_def [symmetric])
qed

lemmas document_eval = ownProperties_def arrayIndex_def decimalDigit_def units_def jsSort_def compareCodePoints_def compareEntries_def

definition pageDocument :: "codepoints \<Rightarrow> codepoints option \<Rightarrow> codepoints list \<Rightarrow> (codepoints \<times> rat option JsValue) list" where
  "pageDocument f a ds =
     [(units ''a'', case a of None \<Rightarrow> VNull | Some s \<Rightarrow> VString s), (units ''f'', VString f),
      (units ''s'', VArray (map VString ds)), (units ''v'', VNumber (Some 1))]"

definition keyDocument :: "codepoints \<Rightarrow> int \<Rightarrow> codepoints \<Rightarrow> (codepoints \<times> rat option JsValue) list" where
  "keyDocument f ms sandboxId =
     [(units ''f'', VString f), (units ''k'', VArray [VNumber (Some (of_int ms)), VString sandboxId]), (units ''v'', VNumber (Some 1))]"

lemma canonicalRead_page:
  "canonicalRead (tokenDocument f (PageCursor a consumed)) = VObject (pageDocument f a (jsSort compareCodePoints consumed))"
proof -
  define ds where "ds = jsSort compareCodePoints consumed"
  show ?thesis unfolding tokenDocument_def ListCursor.case pageDocument_def ds_def [symmetric]
    by (cases a) (simp_all add: document_eval orNull_def TOKEN_VERSION_def)
qed

lemma canonicalRead_key: "canonicalRead (tokenDocument f (KeyCursor ms sandboxId)) = VObject (keyDocument f ms sandboxId)"
  unfolding tokenDocument_def ListCursor.case keyDocument_def by (simp add: document_eval TOKEN_VERSION_def)

lemma pageDocument_keys: "hasExactKeys (pageDocument f a ds) PAGE_KEYS"
  unfolding hasExactKeys_def PAGE_KEYS_def pageDocument_def by (simp add: document_eval)

lemma keyDocument_keys: "hasExactKeys (keyDocument f ms sandboxId) KEY_KEYS" "\<not> hasExactKeys (keyDocument f ms sandboxId) PAGE_KEYS"
  unfolding hasExactKeys_def PAGE_KEYS_def KEY_KEYS_def keyDocument_def by (simp_all add: document_eval)

lemma pageCursorFrom_document:
  assumes "list_all (lowerHexText 12) ds" "length ds \<le> LIST_PAGE_SIZE" "distinct ds"
  shows "pageCursorFrom (pageDocument f a ds) = Inr (PageCursor a ds)"
proof -
  have "list_all (\<lambda>d. digestValue d \<noteq> None) (map VString ds)" "List.map_filter digestValue (map VString ds) = ds"
    using assms(1) by (induction ds) (simp_all add: digestValue_def map_filter_def)
  then show ?thesis
    using assms by (cases a) (simp_all add: pageCursorFrom_def pageCursor_def pageDocument_def units_eq)
qed

lemma keyCursorFrom_document:
  assumes "0 \<le> ms" "ms < 2 ^ 53" "sandboxId \<noteq> []"
  shows "keyCursorFrom (keyDocument f ms sandboxId) = Inr (KeyCursor ms sandboxId)"
proof -
  have "(of_int ms :: rat) \<le> of_int 9007199254740991" using assms by (subst of_int_le_iff) simp
  then have "isSafeInteger (of_int ms)" using assms by (simp add: isSafeInteger_def)
  then show ?thesis using assms by (simp add: keyCursorFrom_def keyDocument_def units_eq)
qed

lemma decode_documents:
  assumes "lowerHexText 16 f" "tokenText t = Inr s"
  shows "jsonParse s = Some (VObject (pageDocument f a ds)) \<Longrightarrow>
      decodeNextToken t = andThen (pageCursorFrom (pageDocument f a ds)) (\<lambda>cursor. Inr \<lparr>tokenFingerprint = f, tokenCursor = cursor\<rparr>)"
    "jsonParse s = Some (VObject (keyDocument f ms sandboxId)) \<Longrightarrow>
      decodeNextToken t = andThen (keyCursorFrom (keyDocument f ms sandboxId)) (\<lambda>cursor. Inr \<lparr>tokenFingerprint = f, tokenCursor = cursor\<rparr>)"
proof -
  have page: "map_of (pageDocument f a ds) (units ''v'') = Some (VNumber (Some 1))" "map_of (pageDocument f a ds) (units ''f'') = Some (VString f)"
    by (simp_all add: pageDocument_def units_eq)
  have key: "map_of (keyDocument f ms sandboxId) (units ''v'') = Some (VNumber (Some 1))"
    "map_of (keyDocument f ms sandboxId) (units ''f'') = Some (VString f)"
    by (simp_all add: keyDocument_def units_eq)
  show "decodeNextToken t = andThen (pageCursorFrom (pageDocument f a ds)) (\<lambda>cursor. Inr \<lparr>tokenFingerprint = f, tokenCursor = cursor\<rparr>)"
    if "jsonParse s = Some (VObject (pageDocument f a ds))"
    using assms that by (simp add: decodeNextToken_def tokenObject_def page pageDocument_keys TOKEN_VERSION_def)
  show "decodeNextToken t = andThen (keyCursorFrom (keyDocument f ms sandboxId)) (\<lambda>cursor. Inr \<lparr>tokenFingerprint = f, tokenCursor = cursor\<rparr>)"
    if "jsonParse s = Some (VObject (keyDocument f ms sandboxId))"
    using assms that by (simp add: decodeNextToken_def tokenObject_def key keyDocument_keys TOKEN_VERSION_def)
qed

lemma token_decode_encode:
  assumes "lowerHexText 16 f" "cursorOk cursor" "length (encodeNextToken f cursor) \<le> NEXT_TOKEN_MAX_CHARS"
  shows "decodeNextToken (TokenText (encodeNextToken f cursor)) = Inr \<lparr>tokenFingerprint = f, tokenCursor = writtenCursor cursor\<rparr>"
proof -
  have parsed: "jsonParse (canonicalJson (tokenDocument f cursor)) = Some (canonicalRead (tokenDocument f cursor))"
    using jsonParse_canonical tokenDocument_ok assms by blast
  note read = decode_documents [OF assms(1) tokenText_encode [OF assms]]
  show ?thesis
  proof (cases cursor)
    case (PageCursor a consumed)
    have "pageCursorFrom (pageDocument f a (jsSort compareCodePoints consumed)) = Inr (PageCursor a (jsSort compareCodePoints consumed))"
      using assms(2) unfolding PageCursor by (intro pageCursorFrom_document) (simp_all add: list_all_iff)
    then show ?thesis using read(1) parsed unfolding PageCursor canonicalRead_page by simp
  next
    case (KeyCursor ms sandboxId)
    have "keyCursorFrom (keyDocument f ms sandboxId) = Inr (KeyCursor ms sandboxId)"
      using assms(2) unfolding KeyCursor by (intro keyCursorFrom_document) simp_all
    then show ?thesis using read(2) parsed unfolding KeyCursor canonicalRead_key by simp
  qed
qed

end
