(* ===== verification/Sandbox_Index.thy ===== *)
theory Sandbox_Index
  imports Listing
begin

text \<open>
  The index of sandbox metadata in DynamoDB (\<open>index/record.ts\<close>, \<open>index/dynamodb.ts\<close>, \<open>index/join.ts\<close>): the row of a
  sandbox and its encoding as an item, the reading of the rows of many sandboxes in chunks with
  bounded retries, and the join of a listed sandbox with its row.  The two calls of DynamoDB are
  parameters.
\<close>

section \<open>Rows\<close>

datatype AttributeValue =
    AttrS codepoints | AttrN codepoints | AttrM "(codepoints \<times> AttributeValue) list" | AttrOther

type_synonym IndexItem = "(codepoints \<times> AttributeValue) list"

record IndexRecord =
  rowId :: codepoints
  rowImageArn :: codepoints
  rowImageVersion :: codepoints
  rowStartedAtMs :: int
  rowMetadata :: "(codepoints \<times> codepoints) list"
  rowSdk :: codepoints
  rowExpiresAt :: int

text \<open>The fields of a launched sandbox that \<open>recordFor\<close> reads.\<close>

record LaunchedInfo =
  launchedId :: codepoints
  launchedTemplate :: codepoints
  launchedTemplateVersion :: codepoints
  launchedStartedAt :: int
  launchedMaximumDurationSeconds :: int

definition recordFor :: "LaunchedInfo \<Rightarrow> (codepoints \<times> codepoints) list option \<Rightarrow> int \<Rightarrow> codepoints \<Rightarrow> IndexRecord" where
  "recordFor info metadata marginSeconds sdk =
     \<lparr>rowId = launchedId info, rowImageArn = launchedTemplate info, rowImageVersion = launchedTemplateVersion info,
      rowStartedAtMs = launchedStartedAt info, rowMetadata = (case metadata of None \<Rightarrow> [] | Some ps \<Rightarrow> ps), rowSdk = sdk,
      rowExpiresAt = launchedStartedAt info div 1000 + launchedMaximumDurationSeconds info + marginSeconds\<rparr>"

definition toItem :: "IndexRecord \<Rightarrow> IndexItem" where
  "toItem r =
     [(units ''pk'', AttrS (rowId r)), (units ''image_arn'', AttrS (rowImageArn r)),
      (units ''image_version'', AttrS (rowImageVersion r)), (units ''started_at_ms'', AttrN (numberText (rowStartedAtMs r))),
      (units ''metadata'', AttrM (map (\<lambda>(key, v). (key, AttrS v)) (ownProperties (rowMetadata r)))),
      (units ''sdk'', AttrS (rowSdk r)), (units ''expires_at'', AttrN (numberText (rowExpiresAt r)))]"

definition stringOf :: "AttributeValue option \<Rightarrow> codepoints option" where
  "stringOf v = (case v of Some (AttrS s) \<Rightarrow> Some s | _ \<Rightarrow> None)"

definition integerOf :: "AttributeValue option \<Rightarrow> int option" where
  "integerOf v =
     (case v of
        Some (AttrN s) \<Rightarrow>
          (let negative = (take 1 s = [45]); digits = (if negative then drop 1 s else s)
           in if digits = [] \<or> \<not> list_all decimalDigit digits then None
              else let n = of_nat (decimalValue digits)
                   in (case toDouble (if negative then - n else n) of
                         None \<Rightarrow> None
                       | Some q \<Rightarrow> if isSafeInteger q then Some \<lfloor>q\<rfloor> else None))
      | _ \<Rightarrow> None)"

fun metadataEntries :: "(codepoints \<times> AttributeValue) list \<Rightarrow> (codepoints \<times> codepoints) list \<Rightarrow> (codepoints \<times> codepoints) list option" where
  "metadataEntries [] result = Some result"
| "metadataEntries ((key, entry) # rest) result =
     (case stringOf (Some entry) of None \<Rightarrow> None | Some s \<Rightarrow> metadataEntries rest (assignProperty key s result))"

definition metadataOf :: "AttributeValue option \<Rightarrow> (codepoints \<times> codepoints) list option" where
  "metadataOf v = (case v of Some (AttrM m) \<Rightarrow> metadataEntries (ownProperties m) [] | _ \<Rightarrow> None)"

definition fromItem :: "IndexItem \<Rightarrow> IndexRecord option" where
  "fromItem item =
     (case (stringOf (map_of item (units ''pk'')), stringOf (map_of item (units ''image_arn'')),
            stringOf (map_of item (units ''image_version'')), integerOf (map_of item (units ''started_at_ms'')),
            metadataOf (map_of item (units ''metadata'')), stringOf (map_of item (units ''sdk'')),
            integerOf (map_of item (units ''expires_at''))) of
        (Some sandboxId, Some arn, Some version, Some ms, Some metadata, Some sdk, Some expires) \<Rightarrow>
          Some \<lparr>rowId = sandboxId, rowImageArn = arn, rowImageVersion = version, rowStartedAtMs = ms,
            rowMetadata = metadata, rowSdk = sdk, rowExpiresAt = expires\<rparr>
      | _ \<Rightarrow> None)"

section \<open>The table\<close>

datatype WriteFailurePolicy = TerminateOnFailure | WarnOnFailure

datatype PolicyInput = PolicyIs WriteFailurePolicy | PolicyOther

datatype TableInput = TableText codepoints | TableOther

datatype IndexOptionError = BadTableName | BadWriteFailure | BadTtlMargin

record DynamoDbIndex =
  tableName :: codepoints
  onWriteFailure :: WriteFailurePolicy
  ttlMarginSeconds :: int

definition DEFAULT_TTL_MARGIN_SECONDS :: int where "DEFAULT_TTL_MARGIN_SECONDS = 3600"

definition tableNamePattern :: "codepoints \<Rightarrow> bool" where
  "tableNamePattern s \<longleftrightarrow> 3 \<le> length s \<and> length s \<le> 255 \<and>
     list_all (\<lambda>c. 65 \<le> c \<and> c \<le> 90 \<or> 97 \<le> c \<and> c \<le> 122 \<or> 48 \<le> c \<and> c \<le> 57 \<or> c \<in> {95, 46, 45}) s"

definition newDynamoDbIndex :: "TableInput \<Rightarrow> PolicyInput option \<Rightarrow> JsInput option \<Rightarrow> IndexOptionError + DynamoDbIndex" where
  "newDynamoDbIndex table policy margin =
     (case table of
        TableOther \<Rightarrow> Inl BadTableName
      | TableText name \<Rightarrow>
          if \<not> tableNamePattern name then Inl BadTableName
          else (case (case policy of None \<Rightarrow> PolicyIs TerminateOnFailure | Some p \<Rightarrow> p) of
                  PolicyOther \<Rightarrow> Inl BadWriteFailure
                | PolicyIs p \<Rightarrow>
                    (case (case margin of None \<Rightarrow> JsInteger DEFAULT_TTL_MARGIN_SECONDS | Some m \<Rightarrow> m) of
                       JsOther \<Rightarrow> Inl BadTtlMargin
                     | JsInteger m \<Rightarrow>
                         if \<not> isSafeInteger (of_int m) \<or> m < 0 then Inl BadTtlMargin
                         else Inr \<lparr>tableName = name, onWriteFailure = p, ttlMarginSeconds = m\<rparr>)))"

datatype IndexOperation = PutItem | BatchGetItem

datatype IndexReason =
    RowExists | NoTable | NoPermission IndexOperation | RateLimited IndexOperation | OtherFailure IndexOperation "string option"
  | UnprocessedKeys

definition indexError :: "IndexOperation \<Rightarrow> string option \<Rightarrow> IndexReason" where
  "indexError operation awsCode =
     (if awsCode = Some ''ConditionalCheckFailedException'' then RowExists
      else if awsCode = Some ''ResourceNotFoundException'' then NoTable
      else if awsCode = Some ''AccessDeniedException'' then NoPermission operation
      else if awsCode \<in> {Some ''ProvisionedThroughputExceededException'', Some ''ThrottlingException''} then RateLimited operation
      else OtherFailure operation awsCode)"

text \<open>What fails when an index is used: the client cannot be made, or DynamoDB refuses.\<close>

datatype IndexThrown = ClientThrown Thrown | IndexThrown IndexReason

text \<open>The client of DynamoDB: an error is known by the code that AWS gives it.\<close>

record 'w DynamoDbApi =
  apiClient :: "'w \<Rightarrow> (Thrown + unit) \<times> 'w"
  apiPut :: "codepoints \<Rightarrow> IndexItem \<Rightarrow> 'w \<Rightarrow> (string option + unit) \<times> 'w"
  apiBatchGet :: "codepoints \<Rightarrow> codepoints list \<Rightarrow> 'w \<Rightarrow> (string option + IndexItem list \<times> codepoints list) \<times> 'w"
  apiSleep :: "nat \<Rightarrow> 'w \<Rightarrow> 'w"
  apiNow :: "'w \<Rightarrow> rat"

definition nowSeconds :: "'w DynamoDbApi \<Rightarrow> 'w \<Rightarrow> rat" where "nowSeconds api w = apiNow api w / 1000"

definition putRow :: "'w DynamoDbApi \<Rightarrow> DynamoDbIndex \<Rightarrow> IndexRecord \<Rightarrow> 'w \<Rightarrow> (IndexThrown + unit) \<times> 'w" where
  "putRow api index r w =
     (case apiClient api w of
        (Inl e, w1) \<Rightarrow> (Inl (ClientThrown e), w1)
      | (Inr _, w1) \<Rightarrow>
          (case apiPut api (tableName index) (toItem r) w1 of
             (Inl awsCode, w2) \<Rightarrow> (Inl (IndexThrown (indexError PutItem awsCode)), w2)
           | (Inr _, w2) \<Rightarrow> (Inr (), w2)))"

definition BATCH_GET_MAX_KEYS :: nat where "BATCH_GET_MAX_KEYS = 100"
definition UNPROCESSED_RETRY_ATTEMPTS :: nat where "UNPROCESSED_RETRY_ATTEMPTS = 5"
definition UNPROCESSED_FIRST_DELAY_MS :: nat where "UNPROCESSED_FIRST_DELAY_MS = 50"
definition UNPROCESSED_MAX_DELAY_MS :: nat where "UNPROCESSED_MAX_DELAY_MS = 1000"

fun partsOf :: "nat \<Rightarrow> 'a list \<Rightarrow> 'a list list" where
  "partsOf n xs = (if xs = [] \<or> n = 0 then [] else take n xs # partsOf n (drop n xs))"

declare partsOf.simps [simp del]

definition idChunks :: "codepoints list \<Rightarrow> codepoints list list" where
  "idChunks ids = partsOf BATCH_GET_MAX_KEYS (newSet ids)"

text \<open>One turn of the loop of \<open>#batchGetChunk\<close>; the first one does not sleep.\<close>

fun batchGetAttempts :: "'w DynamoDbApi \<Rightarrow> codepoints \<Rightarrow> nat \<Rightarrow> bool \<Rightarrow> nat \<Rightarrow> codepoints list \<Rightarrow> IndexItem list \<Rightarrow> 'w \<Rightarrow>
    (IndexThrown + IndexItem list) \<times> 'w" where
  "batchGetAttempts api table 0 first delay keys items w = (Inl (IndexThrown UnprocessedKeys), w)"
| "batchGetAttempts api table (Suc n) first delay keys items w =
     (let w1 = (if first then w else apiSleep api delay w);
          delay1 = (if first then delay else min (delay * 2) UNPROCESSED_MAX_DELAY_MS)
      in case apiBatchGet api table keys w1 of
           (Inl awsCode, w2) \<Rightarrow> (Inl (IndexThrown (indexError BatchGetItem awsCode)), w2)
         | (Inr (found, pending), w2) \<Rightarrow>
             if pending = [] then (Inr (items @ found), w2)
             else batchGetAttempts api table n False delay1 pending (items @ found) w2)"

definition batchGetChunk :: "'w DynamoDbApi \<Rightarrow> codepoints \<Rightarrow> codepoints list \<Rightarrow> 'w \<Rightarrow> (IndexThrown + IndexItem list) \<times> 'w" where
  "batchGetChunk api table ids w =
     (case apiClient api w of
        (Inl e, w1) \<Rightarrow> (Inl (ClientThrown e), w1)
      | (Inr _, w1) \<Rightarrow> batchGetAttempts api table (Suc UNPROCESSED_RETRY_ATTEMPTS) True UNPROCESSED_FIRST_DELAY_MS ids [] w1)"

text \<open>The rows that count, added to the map \<open>found\<close>.\<close>

fun keepRows :: "rat \<Rightarrow> IndexItem list \<Rightarrow> (codepoints \<times> IndexRecord) list \<Rightarrow> (codepoints \<times> IndexRecord) list" where
  "keepRows now [] found = found"
| "keepRows now (item # items) found =
     keepRows now items
       (case fromItem item of
          None \<Rightarrow> found
        | Some r \<Rightarrow> if of_int (rowExpiresAt r) \<ge> now then putProperty (rowId r) r found else found)"

fun batchGetChunks :: "'w DynamoDbApi \<Rightarrow> codepoints \<Rightarrow> rat \<Rightarrow> codepoints list list \<Rightarrow> (codepoints \<times> IndexRecord) list \<Rightarrow> 'w \<Rightarrow>
    (IndexThrown + (codepoints \<times> IndexRecord) list) \<times> 'w" where
  "batchGetChunks api table now [] found w = (Inr found, w)"
| "batchGetChunks api table now (chunk # rest) found w =
     (case batchGetChunk api table chunk w of
        (Inl e, w1) \<Rightarrow> (Inl e, w1)
      | (Inr items, w1) \<Rightarrow> batchGetChunks api table now rest (keepRows now items found) w1)"

definition batchGet :: "'w DynamoDbApi \<Rightarrow> codepoints \<Rightarrow> codepoints list \<Rightarrow> 'w \<Rightarrow> (IndexThrown + (codepoints \<times> IndexRecord) list) \<times> 'w" where
  "batchGet api table sandboxIds w = batchGetChunks api table (nowSeconds api w) (idChunks sandboxIds) [] w"

section \<open>The join\<close>

definition STARTED_AT_TOLERANCE_MS :: int where "STARTED_AT_TOLERANCE_MS = 1000"

definition joined :: "SandboxListItem \<Rightarrow> IndexRecord option \<Rightarrow> (codepoints \<times> codepoints) list \<Rightarrow> rat \<Rightarrow> SandboxListItem option" where
  "joined item r wanted now =
     (case r of
        None \<Rightarrow> None
      | Some r \<Rightarrow>
          if rowId r \<noteq> itemId item then None
          else if of_int (rowExpiresAt r) < now \<or> rowImageArn r \<noteq> itemTemplate item then None
          else if \<bar>rowStartedAtMs r - itemStartedAt item\<bar> > STARTED_AT_TOLERANCE_MS then None
          else if \<not> list_all (\<lambda>(key, v). map_of (rowMetadata r) key = Some v) wanted then None
          else Some (item\<lparr>itemMetadata := Some (rowMetadata r)\<rparr>))"

section \<open>A row is read as it was written\<close>

lemma integerOf_numberText:
  assumes "\<bar>n\<bar> < 2 ^ 53"
  shows "integerOf (Some (AttrN (numberText n))) = Some n"
proof -
  define ds where "ds = units (showDigits 10 (nat \<bar>n\<bar>))"
  have ds: "ds \<noteq> []" "list_all decimalDigit ds" "decimalValue ds = nat \<bar>n\<bar>"
    using showDigits_code by (auto simp: ds_def units_def list_all_iff decimalValue_def parseDigits_showDigits)
  then have first: "take 1 ds \<noteq> [45]" by (cases ds) (auto simp: decimalDigit_def)
  have "\<bar>of_int n :: rat\<bar> \<le> of_int 9007199254740991" using assms unfolding of_int_abs [symmetric] of_int_le_iff by simp
  then have "isSafeInteger (of_int n)" by (simp add: isSafeInteger_def)
  moreover have "numberText n = (if n < 0 then 45 # ds else ds)" by (simp add: numberText_def ds_def)
  ultimately show ?thesis using ds first toDouble_int [OF assms] by (cases "n < 0") (simp_all add: integerOf_def Let_def)
qed

lemma metadataEntries_text:
  "distinct (map fst (found @ ps)) \<Longrightarrow> units ''__proto__'' \<notin> fst ` set ps \<Longrightarrow>
    metadataEntries (map (\<lambda>(key, v). (key, AttrS v)) ps) found = Some (found @ ps)"
proof (induction ps arbitrary: found)
  case (Cons p ps)
  have "assignProperty (fst p) (snd p) found = found @ [p]"
    using Cons.prems by (auto simp: assignProperty_def)
  with Cons show ?case by (cases p) (simp add: stringOf_def)
qed simp

lemma sort_key_values:
  "sort_key (\<lambda>p. decimalValue (fst p)) (map (\<lambda>p. (fst p, f (snd p))) qs) =
     map (\<lambda>p. (fst p, f (snd p))) (sort_key (\<lambda>p. decimalValue (fst p)) qs)"
proof (induction qs)
  case (Cons q qs)
  have "insort_key (\<lambda>p. decimalValue (fst p)) (fst q, f (snd q)) (map (\<lambda>p. (fst p, f (snd p))) rs) =
      map (\<lambda>p. (fst p, f (snd p))) (insort_key (\<lambda>p. decimalValue (fst p)) q rs)" for rs
    by (induction rs) auto
  with Cons show ?case by simp
qed simp

lemma ownProperties_values: "ownProperties (map (\<lambda>(key, v). (key, f v)) ps) = map (\<lambda>(key, v). (key, f v)) (ownProperties ps)"
  unfolding split_def by (simp add: ownProperties_def sort_key_values filter_map comp_def)

lemma ownProperties_idem: "ownProperties (ownProperties ps) = ownProperties ps"
proof -
  have "filter (\<lambda>p. arrayIndex (fst p)) (ownProperties ps) = sort_key (\<lambda>p. decimalValue (fst p)) (filter (\<lambda>p. arrayIndex (fst p)) ps)"
    by (simp add: ownProperties_def filter_sort)
  moreover have "filter (\<lambda>p. \<not> arrayIndex (fst p)) (ownProperties ps) = filter (\<lambda>p. \<not> arrayIndex (fst p)) ps"
    by (simp add: ownProperties_def filter_sort)
  ultimately show ?thesis
    by (subst (1) ownProperties_def) (simp add: ownProperties_def sort_key_id_if_sorted)
qed

lemma item_roundtrip:
  assumes "\<bar>rowStartedAtMs r\<bar> < 2 ^ 53" "\<bar>rowExpiresAt r\<bar> < 2 ^ 53" "distinct (map fst (rowMetadata r))"
    "units ''__proto__'' \<notin> fst ` set (rowMetadata r)"
  shows "fromItem (toItem r) = Some (r\<lparr>rowMetadata := ownProperties (rowMetadata r)\<rparr>)"
proof -
  have "metadataEntries (map (\<lambda>(key, v). (key, AttrS v)) (ownProperties (rowMetadata r))) [] = Some (ownProperties (rowMetadata r))"
    using metadataEntries_text [of "[]" "ownProperties (rowMetadata r)"] assms(4) ownProperties_map_of(2) [OF assms(3)] by simp
  then have "metadataOf (Some (AttrM (map (\<lambda>(key, v). (key, AttrS v)) (ownProperties (rowMetadata r))))) = Some (ownProperties (rowMetadata r))"
    by (simp add: metadataOf_def ownProperties_values ownProperties_idem)
  then show ?thesis
    using integerOf_numberText [OF assms(1)] integerOf_numberText [OF assms(2)]
    by (simp add: fromItem_def toItem_def units_eq) (simp add: stringOf_def)
qed

section \<open>All the rows that are asked for\<close>

lemma concat_partsOf: "n \<noteq> 0 \<Longrightarrow> concat (partsOf n xs) = xs"
  by (induction n xs rule: partsOf.induct) (subst partsOf.simps, auto)

lemma chunk_size: "chunk \<in> set (partsOf n xs) \<Longrightarrow> chunk \<noteq> [] \<and> length chunk \<le> n"
  by (induction n xs rule: partsOf.induct) (subst (asm) (2) partsOf.simps, auto split: if_splits)

lemma partsOf_single: "xs \<noteq> [] \<Longrightarrow> length xs \<le> n \<Longrightarrow> partsOf n xs = [xs]"
  by (cases n) (simp_all add: partsOf.simps [of "Suc m" xs for m] partsOf.simps [of n "[]" for n])

lemma map_of_putProperty: "map_of (putProperty k v ps) = (map_of ps)(k \<mapsto> v)"
  by (induction ps) auto

text \<open>The rows of the table, by the key of each, and those that count at a time.\<close>

definition keyedRows :: "(codepoints \<Rightarrow> IndexItem option) \<Rightarrow> bool" where
  "keyedRows rows \<longleftrightarrow> (\<forall>k item r. rows k = Some item \<longrightarrow> fromItem item = Some r \<longrightarrow> rowId r = k)"

definition liveRow :: "(codepoints \<Rightarrow> IndexItem option) \<Rightarrow> rat \<Rightarrow> codepoints \<Rightarrow> IndexRecord option" where
  "liveRow rows now k =
     (case rows k of
        None \<Rightarrow> None
      | Some item \<Rightarrow>
          (case fromItem item of None \<Rightarrow> None | Some r \<Rightarrow> if of_int (rowExpiresAt r) \<ge> now then Some r else None))"

text \<open>What DynamoDB documents of \<open>BatchGetItem\<close>: every key of the request is answered by its item, if there is one,
  or is among the unprocessed keys, which are keys of the request.\<close>

definition answersKeys :: "(codepoints \<Rightarrow> IndexItem option) \<Rightarrow> 'w DynamoDbApi \<Rightarrow> bool" where
  "answersKeys rows api \<longleftrightarrow> (\<forall>table keys w found pending w'.
     apiBatchGet api table keys w = (Inr (found, pending), w') \<longrightarrow>
       set pending \<subseteq> set keys \<and> set found \<subseteq> {item. \<exists>k \<in> set keys. rows k = Some item} \<and>
       (\<forall>k \<in> set keys - set pending. \<forall>item. rows k = Some item \<longrightarrow> item \<in> set found))"

lemma batchGetAttempts_complete:
  assumes "answersKeys rows api"
    "batchGetAttempts api table n first delay keys items w = (Inr all, w')"
  shows "set items \<subseteq> set all" "set all \<subseteq> set items \<union> {item. \<exists>k \<in> set keys. rows k = Some item}"
    "k \<in> set keys \<Longrightarrow> rows k = Some item \<Longrightarrow> item \<in> set all"
proof -
  have "set items \<subseteq> set all \<and> set all \<subseteq> set items \<union> {item. \<exists>k \<in> set keys. rows k = Some item} \<and>
      (\<forall>k \<in> set keys. \<forall>item. rows k = Some item \<longrightarrow> item \<in> set all)"
    using assms(2)
  proof (induction n arbitrary: first delay keys items w)
    case (Suc n)
    obtain found pending w2 where call: "apiBatchGet api table keys (if first then w else apiSleep api delay w) = (Inr (found, pending), w2)"
      and rest: "if pending = [] then all = items @ found
        else batchGetAttempts api table n False (if first then delay else min (delay * 2) UNPROCESSED_MAX_DELAY_MS) pending (items @ found) w2 = (Inr all, w')"
      using Suc.prems by (auto simp: Let_def split: prod.splits sum.splits if_splits)
    have ans: "set pending \<subseteq> set keys" "set found \<subseteq> {item. \<exists>k \<in> set keys. rows k = Some item}"
      "\<forall>k \<in> set keys - set pending. \<forall>item. rows k = Some item \<longrightarrow> item \<in> set found"
      using assms(1) call unfolding answersKeys_def by blast+
    show ?case
    proof (cases "pending = []")
      case False
      with rest have "batchGetAttempts api table n False (if first then delay else min (delay * 2) UNPROCESSED_MAX_DELAY_MS)
          pending (items @ found) w2 = (Inr all, w')" by simp
      from Suc.IH [OF this] show ?thesis using ans unfolding set_append by blast
    qed (use rest ans in auto)
  qed simp
  then show "set items \<subseteq> set all" "set all \<subseteq> set items \<union> {item. \<exists>k \<in> set keys. rows k = Some item}"
    "k \<in> set keys \<Longrightarrow> rows k = Some item \<Longrightarrow> item \<in> set all" by blast+
qed

definition rowsFound :: "(codepoints \<Rightarrow> IndexItem option) \<Rightarrow> rat \<Rightarrow> (codepoints \<times> IndexRecord) list \<Rightarrow> bool" where
  "rowsFound rows now found \<longleftrightarrow> (\<forall>k r. map_of found k = Some r \<longrightarrow> liveRow rows now k = Some r)"

lemma keepRows_found:
  assumes "keyedRows rows" "\<forall>item \<in> set items. \<exists>k. rows k = Some item" "rowsFound rows now found"
  shows "rowsFound rows now (keepRows now items found)"
    "map_of found k = Some r \<Longrightarrow> map_of (keepRows now items found) k = Some r"
    "rows k = Some item \<Longrightarrow> item \<in> set items \<Longrightarrow> liveRow rows now k = Some r \<Longrightarrow> map_of (keepRows now items found) k = Some r"
proof -
  have "rowsFound rows now (keepRows now items found) \<and> (map_of found k = Some r \<longrightarrow> map_of (keepRows now items found) k = Some r) \<and>
    (rows k = Some item \<longrightarrow> item \<in> set items \<longrightarrow> liveRow rows now k = Some r \<longrightarrow> map_of (keepRows now items found) k = Some r)"
    using assms(2,3)
  proof (induction items arbitrary: found)
    case (Cons it items)
    obtain j where j: "rows j = Some it" using Cons.prems(1) by auto
    define found' where "found' = (case fromItem it of None \<Rightarrow> found
        | Some r \<Rightarrow> if of_int (rowExpiresAt r) \<ge> now then putProperty (rowId r) r found else found)"
    have step: "map_of found' = (case liveRow rows now j of None \<Rightarrow> map_of found | Some r \<Rightarrow> (map_of found)(j \<mapsto> r))"
      using assms(1) j by (auto simp: found'_def liveRow_def keyedRows_def map_of_putProperty split: option.split)
    then have "rowsFound rows now found'" using Cons.prems(2) by (auto simp: rowsFound_def split: option.splits if_splits)
    moreover have "map_of found k = Some r \<longrightarrow> map_of found' k = Some r"
      using step Cons.prems(2) by (auto simp: rowsFound_def split: option.splits)
    moreover have "rows k = Some it \<longrightarrow> liveRow rows now k = Some r \<longrightarrow> map_of found' k = Some r"
    proof (intro impI)
      assume row: "rows k = Some it" and "liveRow rows now k = Some r"
      then have "fromItem it = Some r" "of_int (rowExpiresAt r) \<ge> now" by (auto simp: liveRow_def split: option.splits if_splits)
      moreover from this row have "rowId r = k" using assms(1) unfolding keyedRows_def by blast
      ultimately show "map_of found' k = Some r" by (simp add: found'_def map_of_putProperty)
    qed
    ultimately show ?case using Cons.IH [of found'] Cons.prems(1) by (auto simp: found'_def)
  qed simp
  then show "rowsFound rows now (keepRows now items found)"
    "map_of found k = Some r \<Longrightarrow> map_of (keepRows now items found) k = Some r"
    "rows k = Some item \<Longrightarrow> item \<in> set items \<Longrightarrow> liveRow rows now k = Some r \<Longrightarrow> map_of (keepRows now items found) k = Some r"
    by blast+
qed

lemma batchGetChunks_found:
  assumes "keyedRows rows" "answersKeys rows api"
    "batchGetChunks api table now parts found w = (Inr all, w')" "rowsFound rows now found"
  shows "rowsFound rows now all \<and> (\<forall>k r. map_of found k = Some r \<longrightarrow> map_of all k = Some r) \<and>
    (\<forall>k r. k \<in> set (concat parts) \<longrightarrow> liveRow rows now k = Some r \<longrightarrow> map_of all k = Some r)"
  using assms(3,4)
proof (induction parts arbitrary: found w)
  case (Cons part parts)
  obtain items w1 where part: "batchGetChunk api table part w = (Inr items, w1)"
    and rest: "batchGetChunks api table now parts (keepRows now items found) w1 = (Inr all, w')"
    using Cons.prems(1) by (auto split: prod.splits sum.splits)
  obtain w0 where tries: "batchGetAttempts api table (Suc UNPROCESSED_RETRY_ATTEMPTS) True UNPROCESSED_FIRST_DELAY_MS part [] w0 = (Inr items, w1)"
    using part by (auto simp: batchGetChunk_def simp del: batchGetAttempts.simps split: prod.splits sum.splits)
  note got = batchGetAttempts_complete [OF assms(2) tries]
  then have rows: "\<forall>item \<in> set items. \<exists>k. rows k = Some item" by auto
  note kept = keepRows_found [OF assms(1) rows Cons.prems(2)]
  have live: "map_of (keepRows now items found) k = Some r" if k: "k \<in> set part" and live: "liveRow rows now k = Some r" for k r
  proof -
    obtain item where "rows k = Some item" using live by (auto simp: liveRow_def split: option.splits)
    then show ?thesis using kept(3) got(3) k live by blast
  qed
  then show ?case using Cons.IH [OF rest kept(1)] kept(2) unfolding concat.simps set_append by blast
qed simp

lemma batchGet_found:
  assumes "keyedRows rows" "answersKeys rows api" "batchGet api table ids w = (Inr found, w')"
  shows "rowsFound rows (nowSeconds api w) found" "k \<in> set ids \<Longrightarrow> map_of found k = liveRow rows (nowSeconds api w) k"
proof -
  have "concat (idChunks ids) = newSet ids" by (simp add: idChunks_def concat_partsOf BATCH_GET_MAX_KEYS_def)
  then have ids: "set (concat (idChunks ids)) = set ids" by (simp only: set_newSet)
  have "rowsFound rows (nowSeconds api w) []" by (simp add: rowsFound_def)
  from batchGetChunks_found [OF assms(1,2) assms(3) [unfolded batchGet_def] this]
  have all: "rowsFound rows (nowSeconds api w) found"
    "\<forall>k r. k \<in> set ids \<longrightarrow> liveRow rows (nowSeconds api w) k = Some r \<longrightarrow> map_of found k = Some r"
    unfolding ids by blast+
  then show "rowsFound rows (nowSeconds api w) found" by simp
  show "map_of found k = liveRow rows (nowSeconds api w) k" if "k \<in> set ids"
  proof (cases "map_of found k")
    case None
    then show ?thesis using all(2) that by (cases "liveRow rows (nowSeconds api w) k") auto
  next
    case (Some r)
    then show ?thesis using all(1) unfolding rowsFound_def by simp
  qed
qed


text \<open>A table with one row, whose key is left unprocessed by the first call.\<close>

definition demoRecord :: IndexRecord where
  "demoRecord = recordFor \<lparr>launchedId = units ''sbx'', launchedTemplate = units ''arn'', launchedTemplateVersion = units ''1'',
     launchedStartedAt = 5000, launchedMaximumDurationSeconds = 60\<rparr> (Some [(units ''user'', units ''42'')]) DEFAULT_TTL_MARGIN_SECONDS (units ''ts'')"

definition demoRows :: "codepoints \<Rightarrow> IndexItem option" where
  "demoRows k = (if k = units ''sbx'' then Some (toItem demoRecord) else None)"

definition demoApi :: "nat DynamoDbApi" where
  "demoApi = \<lparr>apiClient = (\<lambda>w. (Inr (), w)), apiPut = (\<lambda>table item w. (Inr (), w)),
     apiBatchGet = (\<lambda>table keys w. if w = 0 then (Inr ([], keys), 1) else (Inr (List.map_filter demoRows keys, []), Suc w)),
     apiSleep = (\<lambda>ms w. w), apiNow = (\<lambda>w. 6000)\<rparr>"

lemma demo_row: "fromItem (toItem demoRecord) = Some demoRecord"
  using item_roundtrip [of demoRecord]
  by (simp add: demoRecord_def recordFor_def DEFAULT_TTL_MARGIN_SECONDS_def units_eq)
    (simp add: ownProperties_def arrayIndex_def decimalDigit_def units_def)

lemma demo_api: "keyedRows demoRows" "answersKeys demoRows demoApi"
proof -
  show "keyedRows demoRows" using demo_row by (auto simp: keyedRows_def demoRows_def demoRecord_def recordFor_def split: if_splits)
  have "set (List.map_filter demoRows keys) = {item. \<exists>k \<in> set keys. demoRows k = Some item}" for keys
    by (induction keys) (auto simp: map_filter_simps split: option.split)
  then show "answersKeys demoRows demoApi" by (auto simp: answersKeys_def demoApi_def split: if_splits)
qed


end
