(* ===== verification/Paginator.thy ===== *)
theory Paginator
  imports Sandbox_Index Readiness
begin

text \<open>
  Listing sandboxes page by page (\<open>sandbox/paginator.ts\<close> and \<open>sandbox/probe.ts\<close>): the generator of the sandboxes that
  pass the filters, the paginator that serves them in stretches, and the token that lets another paginator go
  on.  The control plane, the probe of a sandbox and the index are parameters.  A generator that
  has thrown is finished, as the language has it.
\<close>

section \<open>The world of a listing\<close>

text \<open>What is thrown: by the control plane, by the probe of a sandbox, by the index, or by the SDK.\<close>

datatype ListThrown =
    PlaneThrown Thrown | ProbeThrown codepoints Thrown | IndexFailed IndexThrown | ListRefused ListingError | Exhausted

record ProbeHealth =
  probeAgentReady :: bool
  probeMetadata :: "(codepoints \<times> codepoints) list"

record 'w ListingContext =
  planeListPage :: "codepoints option \<Rightarrow> codepoints option \<Rightarrow> nat \<Rightarrow> codepoints option \<Rightarrow> 'w \<Rightarrow> (Thrown + MicrovmListPage) \<times> 'w"
  planeResolveTemplateArn :: "codepoints \<Rightarrow> 'w \<Rightarrow> (Thrown + codepoints) \<times> 'w"
  planeGetMicrovm :: "codepoints \<Rightarrow> 'w \<Rightarrow> (Thrown + SandboxInfo) \<times> 'w"
  probeMint :: "SandboxInfo \<Rightarrow> 'w \<Rightarrow> (Thrown + unit) \<times> 'w"
  probeOpen :: "SandboxInfo \<Rightarrow> 'w \<Rightarrow> 'w"
  probeCall :: "nat \<Rightarrow> 'w \<Rightarrow> (Thrown + ProbeHealth) \<times> 'w"
  probeRefreshAll :: "'w \<Rightarrow> (Thrown + unit) \<times> 'w"
  probeAbort :: "'w \<Rightarrow> 'w"
  probeTimeoutMs :: nat
  contextIndex :: "'w DynamoDbApi"

section \<open>The probe of one sandbox\<close>

definition remintingOnce :: "('w \<Rightarrow> (Thrown + 'a) \<times> 'w) \<Rightarrow> ('w \<Rightarrow> (Thrown + unit) \<times> 'w) \<Rightarrow> 'w \<Rightarrow> (Thrown + 'a) \<times> 'w" where
  "remintingOnce call refreshAll w =
     (case call w of
        (Inr v, w1) \<Rightarrow> (Inr v, w1)
      | (Inl e, w1) \<Rightarrow>
          if \<not> isProxyForbidden e then (Inl e, w1)
          else (case refreshAll w1 of
                  (Inl e', w2) \<Rightarrow> (Inl e', w2)
                | (Inr _, w2) \<Rightarrow> call w2))"

definition withDedicatedHealthClient :: "'w ListingContext \<Rightarrow> SandboxInfo \<Rightarrow> ('w \<Rightarrow> (Thrown + 'a) \<times> 'w) \<Rightarrow> 'w \<Rightarrow> (Thrown + 'a) \<times> 'w" where
  "withDedicatedHealthClient context info invoke w =
     (case probeMint context info w of
        (Inl e, w1) \<Rightarrow> (Inl e, w1)
      | (Inr _, w1) \<Rightarrow>
          (case remintingOnce invoke (probeRefreshAll context) (probeOpen context info w1) of
             (r, w2) \<Rightarrow> (r, probeAbort context w2)))"

definition probeHealthAnonymous :: "'w ListingContext \<Rightarrow> SandboxInfo \<Rightarrow> 'w \<Rightarrow> (Thrown + ProbeHealth) \<times> 'w" where
  "probeHealthAnonymous context info w = withDedicatedHealthClient context info (probeCall context (probeTimeoutMs context)) w"

definition readMetadata :: "'w ListingContext \<Rightarrow> SandboxListItem \<Rightarrow> 'w \<Rightarrow>
    (ListThrown + (codepoints \<times> codepoints) list option) \<times> 'w" where
  "readMetadata context item w =
     (case planeGetMicrovm context (itemId item) w of
        (Inl e, w1) \<Rightarrow>
          (if (case e of SdkThrown s \<Rightarrow> errorClass s = SandboxNotFoundError | _ \<Rightarrow> False) then (Inr None, w1)
           else (Inl (PlaneThrown e), w1))
      | (Inr info, w1) \<Rightarrow>
          if infoState info \<noteq> ''RUNNING'' then (Inr None, w1)
          else (case probeHealthAnonymous context info w1 of
                  (Inl e, w2) \<Rightarrow> (Inl (ProbeThrown (itemId item) e), w2)
                | (Inr response, w2) \<Rightarrow>
                    (Inr (if probeAgentReady response then Some (probeMetadata response) else None), w2)))"

definition matching :: "'w ListingContext \<Rightarrow> ListingRequest \<Rightarrow> ListFilters \<Rightarrow> SandboxListItem \<Rightarrow>
    (codepoints \<times> IndexRecord) list \<Rightarrow> 'w \<Rightarrow> (ListThrown + SandboxListItem option) \<times> 'w" where
  "matching context request filters item records w =
     (if \<not> accepts filters item then (Inr None, w)
      else if reqIndex request \<noteq> None
      then (Inr (joined item (map_of records (itemId item)) (reqWanted request) (nowSeconds (contextIndex context) w)), w)
      else if \<not> reqHasMetadata request then (Inr (Some item), w)
      else (case readMetadata context item w of
              (Inl e, w1) \<Rightarrow> (Inl e, w1)
            | (Inr metadata, w1) \<Rightarrow>
                (Inr (case metadata of
                        None \<Rightarrow> None
                      | Some ps \<Rightarrow> if metadataMatches request ps then Some (item\<lparr>itemMetadata := Some ps\<rparr>) else None), w1)))"

section \<open>The generator\<close>

record Generator =
  genWalk :: PageWalk
  genRecords :: "(codepoints \<times> IndexRecord) list"
  genDone :: bool

text \<open>\<open>items.next()\<close>: the next sandbox that passes the filters, or \<open>None\<close> at the end.\<close>

partial_function (option) matchingNext :: "'w ListingContext \<Rightarrow> hash \<Rightarrow> ListingRequest \<Rightarrow> ListFilters \<Rightarrow> Generator \<Rightarrow> 'w \<Rightarrow>
    ((ListThrown + SandboxListItem option) \<times> Generator \<times> 'w) option" where
  "matchingNext context sha request filters g w =
     (if genDone g then Some (Inr None, g, w)
      else case pageToFetch (genWalk g) of
        (Some token, walk1) \<Rightarrow>
          (case planeListPage context (imageArn filters) (imageVersion filters) LIST_PAGE_SIZE token w of
             (Inl e, w1) \<Rightarrow> Some (Inl (PlaneThrown e), g\<lparr>genWalk := walk1, genDone := True\<rparr>, w1)
           | (Inr page, w1) \<Rightarrow>
               (case reqIndex request of
                  None \<Rightarrow> matchingNext context sha request filters (g\<lparr>genWalk := acceptPage sha page walk1\<rparr>) w1
                | Some table \<Rightarrow>
                    (case batchGet (contextIndex context) table
                        (map itemId (filter (accepts filters) (walkBuffer (acceptPage sha page walk1)))) w1 of
                       (Inl e, w2) \<Rightarrow> Some (Inl (IndexFailed e), g\<lparr>genWalk := acceptPage sha page walk1, genDone := True\<rparr>, w2)
                     | (Inr records, w2) \<Rightarrow>
                         matchingNext context sha request filters
                           (g\<lparr>genWalk := acceptPage sha page walk1, genRecords := records\<rparr>) w2)))
      | (None, walk1) \<Rightarrow>
          (case nextRaw sha walk1 of
             (None, walk2) \<Rightarrow> Some (Inr None, g\<lparr>genWalk := walk2, genDone := True\<rparr>, w)
           | (Some raw, walk2) \<Rightarrow>
               (case matching context request filters raw (genRecords g) w of
                  (Inl e, w1) \<Rightarrow> Some (Inl e, g\<lparr>genWalk := walk2, genDone := True\<rparr>, w1)
                | (Inr None, w1) \<Rightarrow> matchingNext context sha request filters (g\<lparr>genWalk := walk2\<rparr>) w1
                | (Inr (Some kept), w1) \<Rightarrow> Some (Inr (Some kept), g\<lparr>genWalk := walk2\<rparr>, w1))))"

text \<open>The loop of \<open>#nextStreamed\<close>; without a limit it is \<open>collectAll\<close>.\<close>

partial_function (option) takeItems :: "'w ListingContext \<Rightarrow> hash \<Rightarrow> ListingRequest \<Rightarrow> ListFilters \<Rightarrow> nat option \<Rightarrow>
    SandboxListItem list \<Rightarrow> Generator \<Rightarrow> 'w \<Rightarrow> ((ListThrown + SandboxListItem list) \<times> Generator \<times> 'w) option" where
  "takeItems context sha request filters limit served g w =
     (if (case limit of None \<Rightarrow> False | Some n \<Rightarrow> n \<le> length served) then Some (Inr served, g, w)
      else Option.bind (matchingNext context sha request filters g w) (\<lambda>(r, g1, w1).
        case r of
          Inl e \<Rightarrow> Some (Inl e, g1, w1)
        | Inr None \<Rightarrow> Some (Inr served, g1, w1)
        | Inr (Some item) \<Rightarrow> takeItems context sha request filters limit (served @ [item]) g1 w1))"

section \<open>The paginator\<close>

record StartedListing =
  startedFilters :: ListFilters
  startedFingerprint :: codepoints
  startedItems :: Generator
  startedOrdered :: "OrderedWalk option"

definition newGenerator :: "ListCursor \<Rightarrow> Generator" where
  "newGenerator cursor = \<lparr>genWalk = newPageWalk cursor, genRecords = [], genDone = False\<rparr>"

definition resolveImage :: "'w ListingContext \<Rightarrow> ListingRequest \<Rightarrow> 'w \<Rightarrow> (Thrown + codepoints option) \<times> 'w" where
  "resolveImage context request w =
     (case reqTemplate request of
        None \<Rightarrow> (Inr None, w)
      | Some template \<Rightarrow>
          (case planeResolveTemplateArn context template w of
             (Inl e, w1) \<Rightarrow> (Inl e, w1)
           | (Inr arn, w1) \<Rightarrow> (Inr (Some arn), w1)))"

definition startListing :: "'w ListingContext \<Rightarrow> hash \<Rightarrow> ListingRequest \<Rightarrow> 'w \<Rightarrow> ((ListThrown + StartedListing) \<times> 'w) option" where
  "startListing context sha request w =
     (case resolveImage context request w of
        (Inl e, w1) \<Rightarrow> Some (Inl (PlaneThrown e), w1)
      | (Inr arn, w1) \<Rightarrow>
          (let filters = requestFilters request arn
           in case resumeCursors sha (reqDecoded request) filters of
                Inl e \<Rightarrow> Some (Inl (ListRefused e), w1)
              | Inr (page, key) \<Rightarrow>
                  (case reqOrder request of
                     None \<Rightarrow>
                       Some (Inr \<lparr>startedFilters = filters, startedFingerprint = fingerprint sha filters,
                         startedItems = newGenerator page, startedOrdered = None\<rparr>, w1)
                   | Some order \<Rightarrow>
                       Option.bind (takeItems context sha request filters None [] (newGenerator page) w1) (\<lambda>(r, g, w2).
                         case r of
                           Inl e \<Rightarrow> Some (Inl e, w2)
                         | Inr items \<Rightarrow>
                             Some (Inr \<lparr>startedFilters = filters, startedFingerprint = fingerprint sha filters,
                               startedItems = g, startedOrdered = Some (newOrderedWalk items order key)\<rparr>, w2)))))"

record SandboxListPaginator =
  pagRequest :: ListingRequest
  pagStarted :: "StartedListing option"
  hasNext :: bool
  pagNextToken :: "codepoints option"

definition newPaginator :: "ListingRequest \<Rightarrow> codepoints option \<Rightarrow> SandboxListPaginator" where
  "newPaginator request token = \<lparr>pagRequest = request, pagStarted = None, hasNext = True, pagNextToken = token\<rparr>"

text \<open>\<open>Sandbox.paginate(options)\<close>.\<close>

definition paginate :: "ListingRequestOptions \<Rightarrow> ListingError + SandboxListPaginator" where
  "paginate options =
     andThen (listingRequest options) (\<lambda>request.
       Inr (newPaginator request (case optNextToken options of Some (TokenText t) \<Rightarrow> Some t | _ \<Rightarrow> None)))"

definition settle :: "SandboxListPaginator \<Rightarrow> StartedListing \<Rightarrow> bool \<Rightarrow> ListCursor option \<Rightarrow> SandboxListPaginator" where
  "settle p started hasMore cursor =
     p\<lparr>pagStarted := Some started, hasNext := hasMore,
       pagNextToken := (if hasMore then nextTokenFor (startedFingerprint started) cursor else None)\<rparr>"

definition nextStreamed :: "'w ListingContext \<Rightarrow> hash \<Rightarrow> SandboxListPaginator \<Rightarrow> StartedListing \<Rightarrow> 'w \<Rightarrow>
    ((ListThrown + SandboxListItem list) \<times> SandboxListPaginator \<times> 'w) option" where
  "nextStreamed context sha p started w =
     Option.bind (takeItems context sha (pagRequest p) (startedFilters started) (reqLimit (pagRequest p)) [] (startedItems started) w)
       (\<lambda>(r, g, w1).
          let started1 = started\<lparr>startedItems := g\<rparr>
          in case r of
               Inl e \<Rightarrow> Some (Inl e, p\<lparr>pagStarted := Some started1\<rparr>, w1)
             | Inr served \<Rightarrow> Some (Inr served, settle p started1 (walkHasMore (genWalk g)) (Some (walkCursor (genWalk g))), w1))"

definition nextOrdered :: "SandboxListPaginator \<Rightarrow> StartedListing \<Rightarrow> OrderedWalk \<Rightarrow> SandboxListItem list \<times> SandboxListPaginator" where
  "nextOrdered p started ordered =
     (case orderedTake (reqLimit (pagRequest p)) ordered of
        (served, ordered1) \<Rightarrow>
          (served, settle p (started\<lparr>startedOrdered := Some ordered1\<rparr>) (orderedHasMore ordered1) (orderedLast ordered1)))"

definition nextItems :: "'w ListingContext \<Rightarrow> hash \<Rightarrow> SandboxListPaginator \<Rightarrow> 'w \<Rightarrow>
    ((ListThrown + SandboxListItem list) \<times> SandboxListPaginator \<times> 'w) option" where
  "nextItems context sha p w =
     (if \<not> hasNext p then Some (Inl Exhausted, p, w)
      else Option.bind
        (case pagStarted p of Some started \<Rightarrow> Some (Inr started, w) | None \<Rightarrow> startListing context sha (pagRequest p) w)
        (\<lambda>(r, w1).
           case r of
             Inl e \<Rightarrow> Some (Inl e, p, w1)
           | Inr started \<Rightarrow>
               (case startedOrdered started of
                  None \<Rightarrow> nextStreamed context sha p started w1
                | Some ordered \<Rightarrow> (case nextOrdered p started ordered of (served, p1) \<Rightarrow> Some (Inr served, p1, w1)))))"

text \<open>\<open>listSandboxes\<close>, iterated to its end.\<close>

definition listSandboxes :: "'w ListingContext \<Rightarrow> hash \<Rightarrow> ListingRequest \<Rightarrow> 'w \<Rightarrow> ((ListThrown + SandboxListItem list) \<times> 'w) option" where
  "listSandboxes context sha request w =
     Option.bind (startListing context sha request w) (\<lambda>(r, w1).
       case r of
         Inl e \<Rightarrow> Some (Inl e, w1)
       | Inr started \<Rightarrow>
           (case startedOrdered started of
              Some ordered \<Rightarrow> Some (Inr (fst (orderedTake None ordered)), w1)
            | None \<Rightarrow>
                Option.bind (takeItems context sha request (startedFilters started) None [] (startedItems started) w1) (\<lambda>(r2, g, w2).
                  Some (r2, w2))))"

end
