(* ===== verification/Listing_Tokens.thy ===== *)
theory Listing_Tokens
  imports Listing
begin

text \<open>
  The tokens of a listing fit: a token for a page of at most fifty sandboxes, or for one sandbox, is within the bound that
  the decoder sets as long as the token of AWS and the identifiers are printable and not too long; it is decoded to
  the cursor it was made of.
\<close>

text \<open>Printable text that JSON writes as it is.\<close>

definition plainText :: "codepoints \<Rightarrow> bool" where
  "plainText s \<longleftrightarrow> list_all (\<lambda>c. 32 \<le> c \<and> c < 128 \<and> c \<noteq> 34 \<and> c \<noteq> 92) s"

lemma plainText_jsText: "plainText s \<Longrightarrow> jsText s"
  by (auto simp: plainText_def jsText_def list_all_iff)

lemma plainText_ascii: "plainText s \<Longrightarrow> list_all (\<lambda>c. c < 128) s"
  by (auto simp: plainText_def list_all_iff)

lemma lowerHexText_plain: "lowerHexText n s \<Longrightarrow> plainText s" "lowerHexText n s \<Longrightarrow> length s = n"
  by (auto simp: lowerHexText_def plainText_def list_all_iff)

lemma quoteBody_plain: "plainText s \<Longrightarrow> quoteBody s = s"
  by (induction s rule: quoteBody.induct)
    (auto simp: plainText_def quoteUnit_def letterEscapes_def highSurrogate_def lowSurrogate_def)

lemma bufferFromText_ascii:
  assumes "list_all (\<lambda>c. c < 128) s"
  shows "bufferFromText s = s"
proof -
  have "pointsOf s = s" using assms by (induction s rule: pointsOf.induct) (auto simp: highSurrogate_def)
  moreover have "concat (map (\<lambda>c. utf8Bytes (if surrogate c then REPLACEMENT else c)) s) = s"
    using assms by (induction s) (auto simp: surrogate_def highSurrogate_def lowSurrogate_def utf8Bytes_def)
  ultimately show ?thesis by (simp add: bufferFromText_def)
qed

lemma length_joinWith: "list_all (\<lambda>x. length x = n) xs \<Longrightarrow> length (joinWith [c] xs) \<le> length xs * Suc n"
  by (induction "[c]" xs rule: joinWith.induct) auto

lemma ascii_joinWith: "c < 128 \<Longrightarrow> list_all (list_all (\<lambda>c. c < 128)) xs \<Longrightarrow> list_all (\<lambda>c. c < (128 :: nat)) (joinWith [c] xs)"
  by (induction "[c]" xs rule: joinWith.induct) auto

lemma quoteText_plain:
  assumes "plainText s"
  shows "length (quoteText s) = length s + 2" "list_all (\<lambda>c. c < 128) (quoteText s)"
  using plainText_ascii [OF assms] by (simp_all add: quoteText_def quoteBody_plain [OF assms])

lemma page_text:
  "canonicalJson (tokenDocument f (PageCursor a consumed)) =
     [123, 34, 97, 34, 58] @ (case a of None \<Rightarrow> units ''null'' | Some s \<Rightarrow> quoteText s) @ [44, 34, 102, 34, 58] @ quoteText f @
     [44, 34, 115, 34, 58, 91] @ joinWith [44] (map quoteText (jsSort compareCodePoints consumed)) @ [93, 44, 34, 118, 34, 58, 49, 125]"
proof -
  define ds where "ds = jsSort compareCodePoints consumed"
  have keys: "quoteText (units ''a'') = [34, 97, 34]" "quoteText (units ''f'') = [34, 102, 34]" "quoteText (units ''s'') = [34, 115, 34]"
    "quoteText (units ''v'') = [34, 118, 34]"
    by (simp_all add: quoteText_def units_def quoteUnit_def letterEscapes_def highSurrogate_def lowSurrogate_def)
  have sorted: "jsSort (\<lambda>p q. compareCodePoints (fst p) (fst q))
      (ownProperties [(units ''v'', v), (units ''f'', g), (units ''a'', x), (units ''s'', y)]) =
      [(units ''a'', x), (units ''f'', g), (units ''s'', y), (units ''v'', v)]" for v g x y :: "int JsValue"
    by (simp add: document_eval)
  have one: "numberText 1 = [49]" by (simp add: numberText_def units_def showDigits.simps)
  show ?thesis
    unfolding tokenDocument_def ListCursor.case ds_def [symmetric] canonicalJson.simps sorted
    by (cases a) (simp_all add: keys orNull_def comp_def TOKEN_VERSION_def one)
qed

lemma key_text:
  "canonicalJson (tokenDocument f (KeyCursor ms sandboxId)) =
     [123, 34, 102, 34, 58] @ quoteText f @ [44, 34, 107, 34, 58, 91] @ numberText ms @ [44] @ quoteText sandboxId @
     [93, 44, 34, 118, 34, 58, 49, 125]"
proof -
  have keys: "quoteText (units ''k'') = [34, 107, 34]" "quoteText (units ''f'') = [34, 102, 34]" "quoteText (units ''v'') = [34, 118, 34]"
    by (simp_all add: quoteText_def units_def quoteUnit_def letterEscapes_def highSurrogate_def lowSurrogate_def)
  have sorted: "jsSort (\<lambda>p q. compareCodePoints (fst p) (fst q)) (ownProperties [(units ''v'', v), (units ''f'', g), (units ''k'', x)]) =
      [(units ''f'', g), (units ''k'', x), (units ''v'', v)]" for v g x :: "int JsValue"
    by (simp add: document_eval)
  have one: "numberText 1 = [49]" by (simp add: numberText_def units_def showDigits.simps)
  show ?thesis
    unfolding tokenDocument_def ListCursor.case canonicalJson.simps sorted by (simp add: keys TOKEN_VERSION_def one)
qed

text \<open>A cursor whose token fits.\<close>

definition LONGEST_TEXT :: nat where "LONGEST_TEXT = 5000"

fun cursorFits :: "ListCursor \<Rightarrow> bool" where
  "cursorFits (PageCursor a consumed) \<longleftrightarrow>
     pred_option (\<lambda>s. plainText s \<and> length s \<le> LONGEST_TEXT) a \<and> distinct consumed \<and>
     list_all (lowerHexText 12) consumed \<and> length consumed \<le> LIST_PAGE_SIZE"
| "cursorFits (KeyCursor ms sandboxId) \<longleftrightarrow>
     0 \<le> ms \<and> ms < 2 ^ 53 \<and> plainText sandboxId \<and> sandboxId \<noteq> [] \<and> length sandboxId \<le> LONGEST_TEXT"

lemma cursorFits_ok: "cursorFits cursor \<Longrightarrow> cursorOk cursor"
  by (cases cursor) (auto simp: plainText_jsText pred_option_def)

lemma encode_length:
  assumes "list_all (\<lambda>c. c < 128) (canonicalJson (tokenDocument f cursor))" "length (canonicalJson (tokenDocument f cursor)) \<le> 6144"
  shows "length (encodeNextToken f cursor) \<le> NEXT_TOKEN_MAX_CHARS"
  using assms(2) by (simp add: encodeNextToken_def bufferFromText_ascii [OF assms(1)] length_sextets NEXT_TOKEN_MAX_CHARS_def)

lemma page_token_length:
  assumes "lowerHexText 16 f" "cursorFits (PageCursor a consumed)"
  shows "length (encodeNextToken f (PageCursor a consumed)) \<le> NEXT_TOKEN_MAX_CHARS"
proof (rule encode_length)
  define ds where "ds = jsSort compareCodePoints consumed"
  have ds: "list_all (lowerHexText 12) ds" "length ds \<le> 50"
    using assms(2) by (simp_all add: ds_def list_all_iff LIST_PAGE_SIZE_def)
  note plain = lowerHexText_plain(1) [of 12] lowerHexText_plain(2) [of 12]
  have each: "list_all (\<lambda>x. length x = 14) (map quoteText ds)" "list_all (list_all (\<lambda>c. c < 128)) (map quoteText ds)"
    using ds(1) by (auto simp: list_all_iff plain quoteText_plain(1)) (metis list_all_iff plain(1) quoteText_plain(2))
  note f = quoteText_plain [OF lowerHexText_plain(1) [OF assms(1)]]
  have a: "list_all (\<lambda>c. c < 128) (case a of None \<Rightarrow> units ''null'' | Some s \<Rightarrow> quoteText s) \<and>
      length (case a of None \<Rightarrow> units ''null'' | Some s \<Rightarrow> quoteText s) \<le> 5002"
    using assms(2) quoteText_plain by (cases a) (simp_all add: units_def LONGEST_TEXT_def)
  show "list_all (\<lambda>c. c < 128) (canonicalJson (tokenDocument f (PageCursor a consumed)))"
    unfolding page_text ds_def [symmetric] using a f(2) ascii_joinWith [OF _ each(2), of 44] by simp
  have "length (joinWith [44] (map quoteText ds)) \<le> 750"
    using length_joinWith [OF each(1), of 44] ds(2) by simp
  then show "length (canonicalJson (tokenDocument f (PageCursor a consumed))) \<le> 6144"
    unfolding page_text ds_def [symmetric] using a f(1) lowerHexText_plain(2) [OF assms(1)] by simp
qed

lemma numberText_length:
  assumes "0 \<le> ms" "ms < 2 ^ 53"
  shows "length (numberText ms) \<le> 16" "list_all (\<lambda>c. c < 128) (numberText ms)"
proof -
  have "nat ms < 10 ^ Suc 15" using assms by simp
  then show "length (numberText ms) \<le> 16" using showDigits_at_most [of "nat ms" 10 15] assms(1) by (simp add: numberText_def)
  show "list_all (\<lambda>c. c < 128) (numberText ms)"
    using assms(1) showDigits_code [of _ "nat ms"] by (fastforce simp: numberText_def list_all_iff decimalDigit_def)
qed

lemma key_token_length:
  assumes "lowerHexText 16 f" "cursorFits (KeyCursor ms sandboxId)"
  shows "length (encodeNextToken f (KeyCursor ms sandboxId)) \<le> NEXT_TOKEN_MAX_CHARS"
proof (rule encode_length)
  note f = quoteText_plain [OF lowerHexText_plain(1) [OF assms(1)]] lowerHexText_plain(2) [OF assms(1)]
  have key: "0 \<le> ms" "ms < 2 ^ 53" "plainText sandboxId" "length sandboxId \<le> 5000" using assms(2) by (simp_all add: LONGEST_TEXT_def)
  show "list_all (\<lambda>c. c < 128) (canonicalJson (tokenDocument f (KeyCursor ms sandboxId)))"
    unfolding key_text using f quoteText_plain(2) [OF key(3)] numberText_length(2) [OF key(1,2)] by simp
  show "length (canonicalJson (tokenDocument f (KeyCursor ms sandboxId))) \<le> 6144"
    unfolding key_text using f quoteText_plain(1) [OF key(3)] numberText_length(1) [OF key(1,2)] key(4) by simp
qed

lemma token_read_back:
  assumes "lowerHexText 16 f" "cursorFits cursor"
  shows "decodeNextToken (TokenText (encodeNextToken f cursor)) = Inr \<lparr>tokenFingerprint = f, tokenCursor = writtenCursor cursor\<rparr>"
proof (rule token_decode_encode [OF assms(1) cursorFits_ok [OF assms(2)]])
  show "length (encodeNextToken f cursor) \<le> NEXT_TOKEN_MAX_CHARS"
    using assms page_token_length key_token_length by (cases cursor) blast+
qed

text \<open>C19: a \<open>nextToken\<close> means the same to every client.  For a fingerprint and any cursor of a
  listing, of a page with at most fifty sandboxes consumed or of the last sandbox of an ordered one, the token that
  is written is within the length the decoder accepts and is decoded to that fingerprint and that cursor, the digests
  sorted; the token of AWS and the identifier are printable ASCII of at most 5000 characters, without quotes or backslashes.\<close>

theorem next_token_roundtrip:
  assumes "lowerHexText 16 f" "cursorFits cursor"
  shows "length (encodeNextToken f cursor) \<le> NEXT_TOKEN_MAX_CHARS \<and>
    decodeNextToken (TokenText (encodeNextToken f cursor)) = Inr \<lparr>tokenFingerprint = f, tokenCursor = writtenCursor cursor\<rparr>"
  using token_read_back [OF assms] assms page_token_length key_token_length by (cases cursor) auto

theorem next_token_roundtrip_witness:
  "decodeNextToken (TokenText (encodeNextToken (units ''0123456789abcdef'') (KeyCursor 1700000000000 (units ''sbx-1'')))) =
     Inr \<lparr>tokenFingerprint = units ''0123456789abcdef'', tokenCursor = KeyCursor 1700000000000 (units ''sbx-1'')\<rparr>"
  using next_token_roundtrip [of "units ''0123456789abcdef''" "KeyCursor 1700000000000 (units ''sbx-1'')"]
  by (simp add: lowerHexText_def plainText_def units_def LONGEST_TEXT_def)

end
