(* ===== verification/Listing_Follow.thy ===== *)
theory Listing_Follow
  imports Paginator Listing_Tokens "HOL-Library.Sublist"
begin

text \<open>
  What a client of the paginator gets.  While AWS and the sandboxes hold still, calling \<open>nextItems\<close> again and
  again, on the same paginator or on a new one made from the token of the last, serves every
  sandbox that passes the filters exactly once and in order, with any limit.
\<close>

section \<open>Where a walk stands\<close>

type_synonym pages = "(codepoints option \<times> MicrovmListPage) list"

text \<open>The pages of AWS, each with the token that asks for it.\<close>

fun linkedPages :: "pages \<Rightarrow> bool" where
  "linkedPages [] = False"
| "linkedPages [(t, page)] = (pageNext page = None)"
| "linkedPages ((t, page) # (t', page') # rest) = (pageNext page = t' \<and> t' \<noteq> None \<and> linkedPages ((t', page') # rest))"

abbreviation digest :: "hash \<Rightarrow> SandboxListItem \<Rightarrow> codepoints" where "digest sha item \<equiv> itemDigest sha (itemId item)"

definition pageOk :: "hash \<Rightarrow> MicrovmListPage \<Rightarrow> bool" where
  "pageOk sha page \<longleftrightarrow> distinct (map (digest sha) (pageItems page)) \<and> length (pageItems page) \<le> LIST_PAGE_SIZE"

definition unread :: "hash \<Rightarrow> codepoints list \<Rightarrow> MicrovmListPage \<Rightarrow> SandboxListItem list" where
  "unread sha consumed page = filter (\<lambda>item. digest sha item \<notin> set consumed) (pageItems page)"

definition remaining :: "hash \<Rightarrow> codepoints list \<Rightarrow> pages \<Rightarrow> SandboxListItem list" where
  "remaining sha consumed ps =
     (case ps of [] \<Rightarrow> [] | p # rest \<Rightarrow> unread sha consumed (snd p) @ concat (map (\<lambda>q. pageItems (snd q)) rest))"

definition readOn :: "hash \<Rightarrow> codepoints list \<Rightarrow> pages \<Rightarrow> bool" where
  "readOn sha consumed ps \<longleftrightarrow> ps \<noteq> [] \<and> distinct consumed \<and> set consumed \<subseteq> digest sha ` set (pageItems (snd (hd ps)))"

definition walkOn :: "hash \<Rightarrow> PageWalk \<Rightarrow> pages \<Rightarrow> bool" where
  "walkOn sha walk ps \<longleftrightarrow> readOn sha (walkConsumed walk) ps \<and> pageToken walk = fst (hd ps) \<and>
     (if walkLoaded walk
      then walkBuffer walk = unread sha (walkConsumed walk) (snd (hd ps)) \<and> walkNext walk = pageNext (snd (hd ps))
      else walkBuffer walk = [] \<and> walkNext walk = None)"

lemma unread_step:
  assumes "pageOk sha page" "unread sha consumed page = item # others"
  shows "digest sha item \<notin> set consumed" "item \<in> set (pageItems page)" "unread sha (consumed @ [digest sha item]) page = others"
proof -
  have in_filter: "item \<in> set (unread sha consumed page)" using assms(2) by simp
  then show "digest sha item \<notin> set consumed" "item \<in> set (pageItems page)" by (auto simp: unread_def)
  have "distinct (map (digest sha) (unread sha consumed page))"
    using assms(1) unfolding pageOk_def unread_def by (simp add: distinct_map_filter)
  then have "digest sha item \<notin> digest sha ` set others" using assms(2) by simp
  then have "filter (\<lambda>x. digest sha x \<noteq> digest sha item) (item # others) = others"
    by (simp add: filter_id_conv) (metis image_eqI)
  moreover have "unread sha (consumed @ [digest sha item]) page = filter (\<lambda>x. digest sha x \<noteq> digest sha item) (unread sha consumed page)"
    by (auto simp: unread_def intro!: filter_cong)
  ultimately show "unread sha (consumed @ [digest sha item]) page = others" using assms(2) by simp
qed

text \<open>The world holds still: every page is answered alike, every sandbox passes or not whenever it is looked at, and
  the index answers with the same rows.\<close>

definition steady :: "'w ListingContext \<Rightarrow> ListingRequest \<Rightarrow> ListFilters \<Rightarrow> pages \<Rightarrow> (codepoints \<Rightarrow> IndexRecord option) \<Rightarrow>
    (SandboxListItem \<Rightarrow> SandboxListItem option) \<Rightarrow> bool" where
  "steady context request filters pages rows keep \<longleftrightarrow>
     (\<forall>t page w. (t, page) \<in> set pages \<longrightarrow>
        fst (planeListPage context (imageArn filters) (imageVersion filters) LIST_PAGE_SIZE t w) = Inr page) \<and>
     (\<forall>t page item records w. (t, page) \<in> set pages \<longrightarrow> item \<in> set (pageItems page) \<longrightarrow>
        (accepts filters item \<longrightarrow> reqIndex request \<noteq> None \<longrightarrow> map_of records (itemId item) = rows (itemId item)) \<longrightarrow>
        fst (matching context request filters item records w) = Inr (keep item)) \<and>
     (\<forall>table ids w. reqIndex request = Some table \<longrightarrow>
        (\<exists>found. fst (batchGet (contextIndex context) table ids w) = Inr found \<and> (\<forall>k. k \<in> set ids \<longrightarrow> map_of found k = rows k)))"

definition genOn :: "hash \<Rightarrow> ListingRequest \<Rightarrow> ListFilters \<Rightarrow> (codepoints \<Rightarrow> IndexRecord option) \<Rightarrow> Generator \<Rightarrow> pages \<Rightarrow> bool" where
  "genOn sha request filters rows g ps \<longleftrightarrow> walkOn sha (genWalk g) ps \<and> \<not> genDone g \<and>
     (reqIndex request \<noteq> None \<longrightarrow>
        (\<forall>item. item \<in> set (walkBuffer (genWalk g)) \<longrightarrow> accepts filters item \<longrightarrow> map_of (genRecords g) (itemId item) = rows (itemId item)))"

lemma fetch_step:
  assumes steady: "steady context request filters pages rows keep" "(t, page) \<in> set pages"
    and fetch: "\<not> genDone g" "pageToFetch (genWalk g) = (Some t, walk1)" "\<not> walkLoaded walk1"
    and on: "walkOn sha walk1 ((t, page) # ps)"
  obtains g1 w1 where "matchingNext context sha request filters g w = matchingNext context sha request filters g1 w1"
    "genOn sha request filters rows g1 ((t, page) # ps)" "walkLoaded (genWalk g1)" "walkConsumed (genWalk g1) = walkConsumed walk1"
proof -
  define walk2 where "walk2 = acceptPage sha page walk1"
  have on2: "walkOn sha walk2 ((t, page) # ps)" "walkLoaded walk2" "walkConsumed walk2 = walkConsumed walk1"
    using on by (auto simp: walk2_def walkOn_def acceptPage_def unread_def)
  obtain w1 where list: "planeListPage context (imageArn filters) (imageVersion filters) LIST_PAGE_SIZE t w = (Inr page, w1)"
    using steady unfolding steady_def by (metis prod.collapse)
  show ?thesis
  proof (cases "reqIndex request")
    case None
    have "matchingNext context sha request filters g w = matchingNext context sha request filters (g\<lparr>genWalk := walk2\<rparr>) w1"
      using fetch list None by (subst matchingNext.simps) (simp add: walk2_def)
    then show ?thesis using on2 fetch(1) None by (intro that [of "g\<lparr>genWalk := walk2\<rparr>" w1]) (simp_all add: genOn_def)
  next
    case (Some table)
    define ids where "ids = map itemId (filter (accepts filters) (walkBuffer walk2))"
    obtain found w2 where found: "batchGet (contextIndex context) table ids w1 = (Inr found, w2)" "\<forall>k. k \<in> set ids \<longrightarrow> map_of found k = rows k"
      using steady(1) Some unfolding steady_def by (metis prod.collapse)
    have "matchingNext context sha request filters g w =
        matchingNext context sha request filters (g\<lparr>genWalk := walk2, genRecords := found\<rparr>) w2"
      using fetch list Some found(1) by (subst matchingNext.simps) (simp add: walk2_def ids_def)
    then show ?thesis using on2 fetch(1) found(2)
      by (intro that [of "g\<lparr>genWalk := walk2, genRecords := found\<rparr>" w2]) (auto simp: genOn_def ids_def)
  qed
qed

lemma raw_step:
  assumes on: "walkOn sha walk ((t, page) # ps)" "pageOk sha page" and buffer: "walkBuffer walk = item # others"
  obtains walk2 where "pageToFetch walk = (None, walk)" "nextRaw sha walk = (Some item, walk2)" "walkOn sha walk2 ((t, page) # ps)"
    "walkBuffer walk2 = others" "walkLoaded walk2" "item \<in> set (pageItems page)"
    "remaining sha (walkConsumed walk) ((t, page) # ps) = item # remaining sha (walkConsumed walk2) ((t, page) # ps)"
proof -
  define walk2 where "walk2 = snd (nextRaw sha walk)"
  have loaded: "walkLoaded walk" and unread: "unread sha (walkConsumed walk) page = item # others"
    using on(1) buffer by (auto simp: walkOn_def split: if_splits)
  note step = unread_step [OF on(2) unread]
  have walk2: "nextRaw sha walk = (Some item, walk2)" "walkConsumed walk2 = walkConsumed walk @ [digest sha item]"
    "walkBuffer walk2 = others" "walkLoaded walk2" "pageToken walk2 = pageToken walk" "walkNext walk2 = walkNext walk"
    using buffer step(1) loaded by (simp_all add: walk2_def nextRaw_def setAdd_def)
  show ?thesis
  proof (rule that)
    show "pageToFetch walk = (None, walk)" using buffer by (simp add: pageToFetch_def)
    show "nextRaw sha walk = (Some item, walk2)" "walkBuffer walk2 = others" "walkLoaded walk2" by (rule walk2)+
    show "walkOn sha walk2 ((t, page) # ps)" using on(1) step walk2 loaded by (auto simp: walkOn_def readOn_def)
    show "item \<in> set (pageItems page)" by (rule step(2))
    show "remaining sha (walkConsumed walk) ((t, page) # ps) = item # remaining sha (walkConsumed walk2) ((t, page) # ps)"
      using unread step(3) walk2(2) by (simp add: remaining_def)
  qed
qed

text \<open>The pages still to come of a walk, and how much work they are.\<close>

definition pagesOk :: "hash \<Rightarrow> pages \<Rightarrow> bool" where
  "pagesOk sha ps \<longleftrightarrow> linkedPages ps \<and> list_all (\<lambda>p. pageOk sha (snd p)) ps"

definition walkWork :: "hash \<Rightarrow> PageWalk \<Rightarrow> pages \<Rightarrow> nat" where
  "walkWork sha walk ps = 2 * length ps + length (remaining sha (walkConsumed walk) ps) + (if walkLoaded walk then 0 else 1)"

lemma linkedPages_tl: "linkedPages (p # q # ps) \<Longrightarrow> linkedPages (q # ps)"
  by (cases p; cases q) simp

lemma pagesOk_suffix: "suffix ps' ps \<Longrightarrow> ps' \<noteq> [] \<Longrightarrow> pagesOk sha ps \<Longrightarrow> pagesOk sha ps'"
proof (induction ps)
  case (Cons p ps)
  show ?case
  proof (cases "ps' = p # ps")
    case False
    with Cons.prems have suf: "suffix ps' ps" by (simp add: suffix_Cons)
    with Cons.prems(2) obtain q qs where "ps = q # qs" by (cases ps) auto
    with Cons.prems(3) linkedPages_tl [of p q qs] have "pagesOk sha ps" by (simp add: pagesOk_def)
    with Cons.IH suf Cons.prems(2) show ?thesis by blast
  qed (use Cons.prems in simp)
qed simp

text \<open>One turn of the generator: it looks at the first sandbox left, \<dots>\<close>

lemma turn_raw:
  assumes "steady context request filters pages rows keep" "(t, page) \<in> set pages" "pageOk sha page"
    and "genOn sha request filters rows g ((t, page) # post)" "walkBuffer (genWalk g) \<noteq> []"
  obtains item g1 w1 where "genOn sha request filters rows g1 ((t, page) # post)"
    "remaining sha (walkConsumed (genWalk g)) ((t, page) # post) = item # remaining sha (walkConsumed (genWalk g1)) ((t, page) # post)"
    "walkWork sha (genWalk g1) ((t, page) # post) < walkWork sha (genWalk g) ((t, page) # post)"
    "matchingNext context sha request filters g w =
       (if keep item = None then matchingNext context sha request filters g1 w1 else Some (Inr (keep item), g1, w1))"
proof -
  define walk where "walk = genWalk g"
  obtain item others where buffer: "walkBuffer walk = item # others" using assms(5) by (cases "walkBuffer walk") (auto simp: walk_def)
  have on: "walkOn sha walk ((t, page) # post)" and running: "\<not> genDone g" using assms(4) by (simp_all add: genOn_def walk_def)
  obtain walk2 where step: "pageToFetch walk = (None, walk)" "nextRaw sha walk = (Some item, walk2)" "walkOn sha walk2 ((t, page) # post)"
    "walkBuffer walk2 = others" "walkLoaded walk2" "item \<in> set (pageItems page)"
    "remaining sha (walkConsumed walk) ((t, page) # post) = item # remaining sha (walkConsumed walk2) ((t, page) # post)"
    using raw_step [OF on assms(3) buffer] .
  have "accepts filters item \<longrightarrow> reqIndex request \<noteq> None \<longrightarrow> map_of (genRecords g) (itemId item) = rows (itemId item)"
    using assms(4) buffer by (auto simp: genOn_def walk_def)
  then obtain w1 where match: "matching context request filters item (genRecords g) w = (Inr (keep item), w1)"
    using assms(1,2) step(6) unfolding steady_def by (metis prod.collapse)
  have "genOn sha request filters rows (g\<lparr>genWalk := walk2\<rparr>) ((t, page) # post)"
    using assms(4) step(3,4) buffer by (auto simp: genOn_def walk_def)
  moreover have "matchingNext context sha request filters g w =
      (if keep item = None then matchingNext context sha request filters (g\<lparr>genWalk := walk2\<rparr>) w1
       else Some (Inr (keep item), g\<lparr>genWalk := walk2\<rparr>, w1))"
    using running step(1,2) match by (subst matchingNext.simps) (auto simp: walk_def [symmetric] split: option.split)
  moreover have "walkLoaded walk" using on buffer by (auto simp: walkOn_def split: if_splits)
  ultimately show ?thesis
    using step(5,7) by (intro that [of "g\<lparr>genWalk := walk2\<rparr>" item w1]) (simp_all add: walk_def walkWork_def)
qed

text \<open>\<dots> it asks for the page it stands on, \<dots>\<close>

lemma turn_fetch:
  assumes "steady context request filters pages rows keep" "(t, page) \<in> set pages"
    and "genOn sha request filters rows g ((t, page) # post)" "walkBuffer (genWalk g) = []" "\<not> walkLoaded (genWalk g)"
  obtains g1 w1 where "genOn sha request filters rows g1 ((t, page) # post)" "walkConsumed (genWalk g1) = walkConsumed (genWalk g)"
    "walkWork sha (genWalk g1) ((t, page) # post) < walkWork sha (genWalk g) ((t, page) # post)"
    "matchingNext context sha request filters g w = matchingNext context sha request filters g1 w1"
proof -
  have on: "walkOn sha (genWalk g) ((t, page) # post)" "\<not> genDone g" using assms(3) by (simp_all add: genOn_def)
  have "pageToken (genWalk g) = t" using on(1) by (simp add: walkOn_def)
  then have "pageToFetch (genWalk g) = (Some t, genWalk g)" using assms(4,5) by (simp add: pageToFetch_def)
  from fetch_step [OF assms(1,2) on(2) this assms(5) on(1)]
  obtain g1 w1 where "matchingNext context sha request filters g w = matchingNext context sha request filters g1 w1"
    "genOn sha request filters rows g1 ((t, page) # post)" "walkLoaded (genWalk g1)" "walkConsumed (genWalk g1) = walkConsumed (genWalk g)" .
  then show ?thesis using assms(5) by (intro that [of g1 w1]) (simp_all add: walkWork_def)
qed

text \<open>\<dots> it goes on to the next page, \<dots>\<close>

lemma turn_page:
  assumes "steady context request filters pages rows keep" "(Some t', page') \<in> set pages" "pageNext page = Some t'"
    and "genOn sha request filters rows g ((t, page) # (Some t', page') # post)" "walkBuffer (genWalk g) = []" "walkLoaded (genWalk g)"
  obtains g1 w1 where "genOn sha request filters rows g1 ((Some t', page') # post)"
    "remaining sha (walkConsumed (genWalk g1)) ((Some t', page') # post) =
       remaining sha (walkConsumed (genWalk g)) ((t, page) # (Some t', page') # post)"
    "walkWork sha (genWalk g1) ((Some t', page') # post) < walkWork sha (genWalk g) ((t, page) # (Some t', page') # post)"
    "matchingNext context sha request filters g w = matchingNext context sha request filters g1 w1"
proof -
  define walk where "walk = genWalk g"
  define walk1 where "walk1 = walk\<lparr>pageToken := Some t', walkConsumed := [], walkLoaded := False, walkNext := None\<rparr>"
  have on: "walkOn sha walk ((t, page) # (Some t', page') # post)" "\<not> genDone g" using assms(4) by (simp_all add: genOn_def walk_def)
  have unread: "unread sha (walkConsumed walk) page = []" "walkNext walk = Some t'"
    using on(1) assms(3,5,6) by (simp_all add: walkOn_def walk_def)
  have fetch: "pageToFetch (genWalk g) = (Some (Some t'), walk1)"
    using assms(5,6) unread(2) by (simp add: pageToFetch_def walk_def [symmetric] walk1_def)
  have on1: "walkOn sha walk1 ((Some t', page') # post)" "\<not> walkLoaded walk1"
    using assms(5) by (simp_all add: walkOn_def walk1_def readOn_def walk_def)
  obtain g1 w1 where g1: "matchingNext context sha request filters g w = matchingNext context sha request filters g1 w1"
    "genOn sha request filters rows g1 ((Some t', page') # post)" "walkLoaded (genWalk g1)" "walkConsumed (genWalk g1) = walkConsumed walk1"
    using fetch_step [OF assms(1,2) on(2) fetch on1(2) on1(1)] .
  have rest: "remaining sha (walkConsumed (genWalk g1)) ((Some t', page') # post) =
      remaining sha (walkConsumed walk) ((t, page) # (Some t', page') # post)"
    using unread(1) g1(4) by (simp add: remaining_def walk1_def) (simp add: unread_def)
  then show ?thesis using g1 by (intro that [of g1 w1]) (simp_all add: walkWork_def walk_def)
qed

text \<open>\<dots> or it is at the end.\<close>

lemma turn_end:
  assumes "genOn sha request filters rows g [(t, page)]" "pageNext page = None" "walkBuffer (genWalk g) = []" "walkLoaded (genWalk g)"
  obtains g1 where "remaining sha (walkConsumed (genWalk g)) [(t, page)] = []" "\<not> walkHasMore (genWalk g1)"
    "matchingNext context sha request filters g w = Some (Inr None, g1, w)"
proof -
  have on: "walkOn sha (genWalk g) [(t, page)]" "\<not> genDone g" using assms(1) by (simp_all add: genOn_def)
  then have "walkNext (genWalk g) = None" "unread sha (walkConsumed (genWalk g)) page = []" using assms(2-4) by (simp_all add: walkOn_def)
  moreover have "matchingNext context sha request filters g w = Some (Inr None, g\<lparr>genDone := True\<rparr>, w)"
    using on(2) assms(3,4) calculation(1) by (subst matchingNext.simps) (simp add: pageToFetch_def nextRaw_def)
  ultimately show ?thesis using assms(3,4) by (intro that [of "g\<lparr>genDone := True\<rparr>"]) (simp_all add: remaining_def walkHasMore_def)
qed

text \<open>The next sandbox is the first one left that passes; then the ones behind it are left.\<close>

inductive servesNext :: "hash \<Rightarrow> ListingRequest \<Rightarrow> ListFilters \<Rightarrow> (codepoints \<Rightarrow> IndexRecord option) \<Rightarrow>
    (SandboxListItem \<Rightarrow> SandboxListItem option) \<Rightarrow> pages \<Rightarrow> SandboxListItem list \<Rightarrow>
    ((ListThrown + SandboxListItem option) \<times> Generator \<times> 'w) option \<Rightarrow> bool"
  for sha request filters rows keep ps where
  at_end: "list_all (\<lambda>x. keep x = None) rest \<Longrightarrow> \<not> walkHasMore (genWalk g') \<Longrightarrow>
    servesNext sha request filters rows keep ps rest (Some (Inr None, g', w'))"
| at_item: "list_all (\<lambda>x. keep x = None) skipped \<Longrightarrow> keep x = Some y \<Longrightarrow> suffix ps' ps \<Longrightarrow> genOn sha request filters rows g' ps' \<Longrightarrow>
    servesNext sha request filters rows keep ps (skipped @ x # remaining sha (walkConsumed (genWalk g')) ps') (Some (Inr (Some y), g', w'))"

lemma servesNext_suffix:
  "servesNext sha request filters rows keep ps' rest out \<Longrightarrow> suffix ps' ps \<Longrightarrow> servesNext sha request filters rows keep ps rest out"
  by (induction rule: servesNext.induct) (auto intro: servesNext.intros suffix_order.trans)

lemma servesNext_skip:
  "servesNext sha request filters rows keep ps rest out \<Longrightarrow> keep item = None \<Longrightarrow> servesNext sha request filters rows keep ps (item # rest) out"
proof (induction rule: servesNext.induct)
  case (at_item skipped x y ps' g' w')
  then show ?case using servesNext.at_item [of keep "item # skipped"] by simp
qed (simp add: servesNext.at_end)

lemma matchingNext_serves:
  assumes "steady context request filters pages rows keep" "set ps \<subseteq> set pages" "pagesOk sha ps" "genOn sha request filters rows g ps"
  shows "servesNext sha request filters rows keep ps (remaining sha (walkConsumed (genWalk g)) ps) (matchingNext context sha request filters g w)"
  using assms(2-4)
proof (induction "walkWork sha (genWalk g) ps" arbitrary: g ps w rule: less_induct)
  case less
  obtain t page post where ps: "ps = (t, page) # post" using less.prems(2) by (cases ps) (auto simp: pagesOk_def)
  have pg: "(t, page) \<in> set pages" "pageOk sha page" using less.prems(1,2) by (simp_all add: ps pagesOk_def)
  consider (raw) "walkBuffer (genWalk g) \<noteq> []" | (fetch) "walkBuffer (genWalk g) = []" "\<not> walkLoaded (genWalk g)"
    | (page) p' post' where "walkBuffer (genWalk g) = []" "walkLoaded (genWalk g)" "post = p' # post'"
    | (stop) "walkBuffer (genWalk g) = []" "walkLoaded (genWalk g)" "post = []" by (cases post) auto
  then show ?case
  proof cases
    case raw
    from turn_raw [OF assms(1) pg less.prems(3) [unfolded ps] raw]
    obtain item g1 w1 where g1: "genOn sha request filters rows g1 ps"
      "remaining sha (walkConsumed (genWalk g)) ps = item # remaining sha (walkConsumed (genWalk g1)) ps"
      "walkWork sha (genWalk g1) ps < walkWork sha (genWalk g) ps"
      "matchingNext context sha request filters g w =
         (if keep item = None then matchingNext context sha request filters g1 w1 else Some (Inr (keep item), g1, w1))"
      unfolding ps .
    from less.hyps [OF g1(3) less.prems(1,2) g1(1), of w1] g1(1,2,4) show ?thesis
      using servesNext.at_item [of keep "[]" item _ ps ps sha request filters rows g1 w1] by (cases "keep item") (simp_all add: servesNext_skip)
  next
    case fetch
    from turn_fetch [OF assms(1) pg(1) less.prems(3) [unfolded ps] fetch]
    obtain g1 w1 where g1: "genOn sha request filters rows g1 ps" "walkConsumed (genWalk g1) = walkConsumed (genWalk g)"
      "walkWork sha (genWalk g1) ps < walkWork sha (genWalk g) ps"
      "matchingNext context sha request filters g w = matchingNext context sha request filters g1 w1" unfolding ps .
    from less.hyps [OF g1(3) less.prems(1,2) g1(1), of w1] show ?thesis unfolding g1(2,4) .
  next
    case page
    obtain t' page' where p': "p' = (Some t', page')" "pageNext page = Some t'"
      using less.prems(2) by (cases p') (auto simp: pagesOk_def ps page(3))
    have in': "(Some t', page') \<in> set pages" "set (p' # post') \<subseteq> set pages" using less.prems(1) by (auto simp: ps page(3) p')
    have suf: "suffix (p' # post') ps" by (simp add: ps page(3) suffix_ConsI)
    from turn_page [OF assms(1) in'(1) p'(2) less.prems(3) [unfolded ps page(3) p'(1)] page(1,2)]
    obtain g1 w1 where g1: "genOn sha request filters rows g1 (p' # post')"
      "remaining sha (walkConsumed (genWalk g1)) (p' # post') = remaining sha (walkConsumed (genWalk g)) ps"
      "walkWork sha (genWalk g1) (p' # post') < walkWork sha (genWalk g) ps"
      "matchingNext context sha request filters g w = matchingNext context sha request filters g1 w1" unfolding ps page(3) p'(1) .
    from less.hyps [OF g1(3) in'(2) pagesOk_suffix [OF suf _ less.prems(2)] g1(1), of w1] show ?thesis
      unfolding g1(2,4) by (auto intro: servesNext_suffix [OF _ suf])
  next
    case stop
    have "pageNext page = None" using less.prems(2) by (simp add: pagesOk_def ps stop(3))
    from turn_end [OF less.prems(3) [unfolded ps stop(3)] this stop(1,2)] obtain g1 where
      "remaining sha (walkConsumed (genWalk g)) ps = []" "\<not> walkHasMore (genWalk g1)"
      "matchingNext context sha request filters g w = Some (Inr None, g1, w)" unfolding ps stop(3) .
    then show ?thesis by (simp add: servesNext.at_end)
  qed
qed

section \<open>What one call serves\<close>

abbreviation keptOf :: "(SandboxListItem \<Rightarrow> SandboxListItem option) \<Rightarrow> SandboxListItem list \<Rightarrow> SandboxListItem list" where
  "keptOf keep items \<equiv> List.map_filter keep items"

lemma keptOf_none: "list_all (\<lambda>x. keep x = None) xs \<Longrightarrow> keptOf keep xs = []"
  by (induction xs) (simp_all add: map_filter_simps)

lemma keptOf_append: "keptOf keep (xs @ ys) = keptOf keep xs @ keptOf keep ys"
  by (simp add: map_filter_def)

text \<open>A call ends at the end of the listing, or at its limit with the rest still to come.\<close>

inductive servesUpTo :: "hash \<Rightarrow> ListingRequest \<Rightarrow> ListFilters \<Rightarrow> (codepoints \<Rightarrow> IndexRecord option) \<Rightarrow>
    (SandboxListItem \<Rightarrow> SandboxListItem option) \<Rightarrow> pages \<Rightarrow> nat option \<Rightarrow> SandboxListItem list \<Rightarrow> SandboxListItem list \<Rightarrow>
    ((ListThrown + SandboxListItem list) \<times> Generator \<times> 'w) option \<Rightarrow> bool"
  for sha request filters rows keep ps where
  finished: "\<not> walkHasMore (genWalk g') \<Longrightarrow>
    servesUpTo sha request filters rows keep ps limit served rest (Some (Inr (served @ keptOf keep rest), g', w'))"
| full: "suffix ps' ps \<Longrightarrow> genOn sha request filters rows g' ps' \<Longrightarrow> rest' = remaining sha (walkConsumed (genWalk g')) ps' \<Longrightarrow>
    keptOf keep rest = now @ keptOf keep rest' \<Longrightarrow> length rest' + length now \<le> length rest \<Longrightarrow> n \<le> length (served @ now) \<Longrightarrow>
    servesUpTo sha request filters rows keep ps (Some n) served rest (Some (Inr (served @ now), g', w'))"

lemma servesUpTo_step:
  assumes "servesUpTo sha request filters rows keep ps' limit (served @ [y]) rest out"
    and "suffix ps' ps" "list_all (\<lambda>x. keep x = None) skipped" "keep x = Some y"
  shows "servesUpTo sha request filters rows keep ps limit served (skipped @ x # rest) out"
  using assms(1)
proof cases
  case (finished g' w')
  then show ?thesis using assms(3,4) servesUpTo.finished [of g' sha request filters rows keep ps limit served "skipped @ x # rest" w']
    by (simp add: keptOf_append keptOf_none map_filter_simps)
next
  case (full ps'' g' rest' now n w')
  then show ?thesis
    using assms(2-4) servesUpTo.full [of ps'' ps sha request filters rows g' rest' keep "skipped @ x # rest" "y # now" n served w']
    by (simp add: keptOf_append keptOf_none map_filter_simps suffix_order.trans [of ps'' ps' ps])
qed

lemma takeItems_serves:
  assumes "steady context request filters pages rows keep" "set ps \<subseteq> set pages" "pagesOk sha ps" "genOn sha request filters rows g ps"
  shows "servesUpTo sha request filters rows keep ps limit served (remaining sha (walkConsumed (genWalk g)) ps)
    (takeItems context sha request filters limit served g w)"
  using assms(2-4)
proof (induction "length (remaining sha (walkConsumed (genWalk g)) ps)" arbitrary: g ps served w rule: less_induct)
  case less
  show ?case
  proof (cases "case limit of None \<Rightarrow> False | Some n \<Rightarrow> n \<le> length served")
    case True
    then obtain n where n: "limit = Some n" "n \<le> length served" by (cases limit) auto
    have "takeItems context sha request filters limit served g w = Some (Inr served, g, w)"
      using True by (subst takeItems.simps) simp
    then show ?thesis
      using n less.prems(3) servesUpTo.full [of ps ps sha request filters rows g _ keep _ "[]" n served w] by simp
  next
    case False
    from matchingNext_serves [OF assms(1) less.prems, of w] show ?thesis
    proof cases
      case (at_end g' w')
      have "takeItems context sha request filters limit served g w = Some (Inr served, g', w')"
        using False at_end(1) by (subst takeItems.simps) simp
      then show ?thesis using at_end servesUpTo.finished [of g'] by (metis append_Nil2 keptOf_none)
    next
      case (at_item skipped x y ps' g' w')
      have "set ps' \<subseteq> set pages" using less.prems(1) at_item(5) by (meson set_mono_suffix subset_trans)
      moreover have "pagesOk sha ps'" using pagesOk_suffix [OF at_item(5) _ less.prems(2)] at_item(6) by (auto simp: genOn_def walkOn_def readOn_def)
      moreover have "length (remaining sha (walkConsumed (genWalk g')) ps') < length (remaining sha (walkConsumed (genWalk g)) ps)"
        using at_item(1) by simp
      ultimately have "servesUpTo sha request filters rows keep ps' limit (served @ [y]) (remaining sha (walkConsumed (genWalk g')) ps')
          (takeItems context sha request filters limit (served @ [y]) g' w')"
        using less.hyps at_item(6) by blast
      moreover have "takeItems context sha request filters limit served g w = takeItems context sha request filters limit (served @ [y]) g' w'"
        using False at_item(2) by (subst takeItems.simps) simp
      ultimately show ?thesis using servesUpTo_step at_item by metis
    qed
  qed
qed

section \<open>A client that follows the tokens\<close>

text \<open>Each call is made on the same paginator, or on a new one that is given the token of the last, as \<open>fresh\<close> says.\<close>

fun followPages :: "'w ListingContext \<Rightarrow> hash \<Rightarrow> ListingRequestOptions \<Rightarrow> bool list \<Rightarrow> SandboxListPaginator \<Rightarrow> 'w \<Rightarrow>
    ((ListThrown + SandboxListItem list) \<times> SandboxListPaginator \<times> 'w) option" where
  "followPages context sha opts [] p w = Some (Inr [], p, w)"
| "followPages context sha opts (fresh # calls) p w =
     (if \<not> hasNext p then Some (Inr [], p, w)
      else case (if fresh then paginate (opts\<lparr>optNextToken := map_option TokenText (pagNextToken p)\<rparr>) else Inr p) of
             Inl e \<Rightarrow> Some (Inl (ListRefused e), p, w)
           | Inr p1 \<Rightarrow>
               Option.bind (nextItems context sha p1 w) (\<lambda>(r, p2, w1).
                 case r of
                   Inl e \<Rightarrow> Some (Inl e, p2, w1)
                 | Inr served \<Rightarrow>
                     Option.bind (followPages context sha opts calls p2 w1) (\<lambda>(r', p3, w2).
                       Some (map_sum id (\<lambda>later. served @ later) r', p3, w2))))"

definition hexDigests :: "hash \<Rightarrow> bool" where "hexDigests sha \<longleftrightarrow> (\<forall>bytes. lowerHexText 64 (sha bytes))"

lemma lowerHexText_take: "lowerHexText n s \<Longrightarrow> m \<le> n \<Longrightarrow> lowerHexText m (take m s)"
  by (auto simp: lowerHexText_def list_all_iff dest: in_set_takeD)

lemma hexDigests_take:
  assumes "hexDigests sha"
  shows "lowerHexText 16 (fingerprint sha filters)" "lowerHexText 12 (itemDigest sha sandboxId)"
  using assms lowerHexText_take [of 64] by (simp_all add: hexDigests_def fingerprint_def itemDigest_def sha256Hex_def)

text \<open>The request of the same options with a token is the same but for what the token says.\<close>

lemma listingRequest_parts:
  assumes "listingRequest opts = Inr request" "optNextToken opts = None"
  obtains limit order metadata givenIndex after where
    "validateLimit (optLimit opts) = Inr limit" "validateOrder (optOrder opts) = Inr order"
    "optionalStringMap (optMetadata opts) = Inr metadata" "validateIndex (optIndex opts) = Inr givenIndex"
    "validateStartedAfter (optStartedAfter opts) = Inr after" "reqLimit request = limit" "reqOrder request = order" "reqDecoded request = None"
    "\<And>t d. decodeNextToken t = Inr d \<Longrightarrow> validateCursorForm (Some d) order = Inr () \<Longrightarrow>
      listingRequest (opts\<lparr>optNextToken := Some t\<rparr>) = Inr (request\<lparr>reqDecoded := Some d\<rparr>)"
proof -
  obtain limit order metadata givenIndex where checks: "validateLimit (optLimit opts) = Inr limit" "validateOrder (optOrder opts) = Inr order"
    "optionalStringMap (optMetadata opts) = Inr metadata" "validateIndex (optIndex opts) = Inr givenIndex"
    using assms(1) unfolding listingRequest_def throw_iff by blast
  define index where "index = (if metadata = None then None else givenIndex)"
  define states where "states = (if metadata \<noteq> None \<and> index = None then validateMetadataStates (optStates opts) else Inr ())"
  define indexed where "indexed = (if index \<noteq> None then validateIndexedStates (optStates opts) else Inr ())"
  note simps = checks andThen_simps Let_def index_def [symmetric] states_def [symmetric] indexed_def [symmetric]
  have "andThen states (\<lambda>_. andThen indexed (\<lambda>_. andThen (validateStartedAfter (optStartedAfter opts)) (\<lambda>after.
      Inr \<lparr>reqTemplate = optTemplate opts, reqLimit = limit, reqOrder = order, reqDecoded = None,
       reqHasMetadata = (metadata \<noteq> None), reqIndex = index, reqWanted = (case metadata of None \<Rightarrow> [] | Some ps \<Rightarrow> ownProperties ps),
       reqTemplateVersion = optTemplateVersion opts, reqStates = optStates opts, reqStartedAfterMs = after\<rparr>))) = Inr request"
    using assms(1) unfolding listingRequest_def by (simp only: simps assms(2) optionalToken_def validateCursorForm_def option.case)
  then obtain after where rest: "states = Inr ()" "indexed = Inr ()" "validateStartedAfter (optStartedAfter opts) = Inr after"
    "request = \<lparr>reqTemplate = optTemplate opts, reqLimit = limit, reqOrder = order, reqDecoded = None,
       reqHasMetadata = (metadata \<noteq> None), reqIndex = index, reqWanted = (case metadata of None \<Rightarrow> [] | Some ps \<Rightarrow> ownProperties ps),
       reqTemplateVersion = optTemplateVersion opts, reqStates = optStates opts, reqStartedAfterMs = after\<rparr>"
    by (auto simp: throw_iff)
  have "listingRequest (opts\<lparr>optNextToken := Some t\<rparr>) = Inr (request\<lparr>reqDecoded := Some d\<rparr>)"
    if "decodeNextToken t = Inr d" "validateCursorForm (Some d) order = Inr ()" for t d
  proof -
    define opts' where "opts' = opts\<lparr>optNextToken := Some t\<rparr>"
    have given: "optLimit opts' = optLimit opts" "optOrder opts' = optOrder opts" "optMetadata opts' = optMetadata opts"
      "optIndex opts' = optIndex opts" "optStates opts' = optStates opts" "optStartedAfter opts' = optStartedAfter opts"
      "optNextToken opts' = Some t" "optTemplate opts' = optTemplate opts" "optTemplateVersion opts' = optTemplateVersion opts"
      by (simp_all add: opts'_def)
    show ?thesis unfolding opts'_def [symmetric] listingRequest_def by (simp only: given simps that rest optionalToken_def option.case) simp
  qed
  then show ?thesis using checks rest that by simp
qed

lemma listingRequest_token:
  assumes "listingRequest opts = Inr request" "optNextToken opts = None" "decodeNextToken t = Inr d"
    "validateCursorForm (Some d) (reqOrder request) = Inr ()"
  shows "listingRequest (opts\<lparr>optNextToken := Some t\<rparr>) = Inr (request\<lparr>reqDecoded := Some d\<rparr>)"
  using assms(3,4) by (rule_tac listingRequest_parts [OF assms(1,2)]) simp

lemma listingRequest_fields:
  assumes "listingRequest opts = Inr request" "optNextToken opts = None"
  shows "reqLimit request \<noteq> Some 0" "reqDecoded request = None"
proof -
  obtain limit where limit: "validateLimit (optLimit opts) = Inr limit" "reqLimit request = limit" and "reqDecoded request = None"
    using listingRequest_parts [OF assms] .
  then show "reqDecoded request = None" by simp
  show "reqLimit request \<noteq> Some 0" using limit by (auto simp: validateLimit_def split: option.splits JsInput.splits if_splits)
qed

lemma steady_decoded: "steady context (request\<lparr>reqDecoded := d\<rparr>) filters pages rows keep = steady context request filters pages rows keep"
proof -
  have "matching context (request\<lparr>reqDecoded := d\<rparr>) filters item records w = matching context request filters item records w" for item records w
    by (simp add: matching_def metadataMatches_def split: prod.split sum.split option.split)
  then show ?thesis by (simp add: steady_def)
qed

lemma genOn_decoded: "genOn sha (request\<lparr>reqDecoded := d\<rparr>) filters rows g ps = genOn sha request filters rows g ps"
  by (simp add: genOn_def)

lemma request_decoded:
  "requestFilters (request\<lparr>reqDecoded := d\<rparr>) arn = requestFilters request arn"
  "resolveImage context (request\<lparr>reqDecoded := d\<rparr>) w = resolveImage context request w"
  by (simp_all add: requestFilters_def resolveImage_def split: option.split)

text \<open>A listing in a world that holds still: the options without a token, what they stand for, and the pages.\<close>

definition steadyListing :: "'w ListingContext \<Rightarrow> hash \<Rightarrow> ListingRequestOptions \<Rightarrow> ListingRequest \<Rightarrow> codepoints option \<Rightarrow> pages \<Rightarrow>
    (codepoints \<Rightarrow> IndexRecord option) \<Rightarrow> (SandboxListItem \<Rightarrow> SandboxListItem option) \<Rightarrow> bool" where
  "steadyListing context sha opts request arn pages rows keep \<longleftrightarrow>
     hexDigests sha \<and> optNextToken opts = None \<and> listingRequest opts = Inr request \<and>
     (\<forall>w. fst (resolveImage context request w) = Inr arn) \<and>
     steady context request (requestFilters request arn) pages rows keep \<and> pagesOk sha pages \<and> fst (hd pages) = None \<and>
     list_all (\<lambda>p. pred_option (\<lambda>s. plainText s \<and> length s \<le> LONGEST_TEXT) (fst p)) pages"

definition sameSet :: "'a list \<Rightarrow> 'a list \<Rightarrow> bool" where "sameSet xs ys \<longleftrightarrow> distinct xs \<and> set xs = set ys"

text \<open>A paginator without an order that stands at a place of the pages, and whose token says so.\<close>

definition streamAt :: "hash \<Rightarrow> ListingRequest \<Rightarrow> ListFilters \<Rightarrow> pages \<Rightarrow> (codepoints \<Rightarrow> IndexRecord option) \<Rightarrow>
    SandboxListPaginator \<Rightarrow> pages \<Rightarrow> codepoints list \<Rightarrow> bool" where
  "streamAt sha request filters pages rows p ps consumed \<longleftrightarrow>
     hasNext p \<and> readOn sha consumed ps \<and> suffix ps pages \<and> (\<exists>d. pagRequest p = request\<lparr>reqDecoded := d\<rparr> \<and>
       (case pagStarted p of
          None \<Rightarrow> resumeCursors sha d filters = Inr (PageCursor (fst (hd ps)) consumed, None)
        | Some st \<Rightarrow> startedFilters st = filters \<and> startedFingerprint st = fingerprint sha filters \<and> startedOrdered st = None \<and>
            genOn sha request filters rows (startedItems st) ps \<and> walkConsumed (genWalk (startedItems st)) = consumed)) \<and>
     (pagNextToken p = None \<and> ps = pages \<and> consumed = [] \<or>
      (\<exists>c. sameSet c consumed \<and> pagNextToken p = Some (encodeNextToken (fingerprint sha filters) (PageCursor (fst (hd ps)) c))))"

lemma stream_starts:
  assumes "steadyListing context sha opts request arn pages rows keep" "reqOrder request = None"
    and "streamAt sha request (requestFilters request arn) pages rows p ps consumed"
  obtains st w1 where "nextItems context sha p w = nextStreamed context sha p st w1"
    "startedFilters st = requestFilters request arn" "startedFingerprint st = fingerprint sha (requestFilters request arn)"
    "startedOrdered st = None" "genOn sha request (requestFilters request arn) rows (startedItems st) ps"
    "walkConsumed (genWalk (startedItems st)) = consumed"
proof (cases "pagStarted p")
  case None
  obtain d where d: "pagRequest p = request\<lparr>reqDecoded := d\<rparr>" "hasNext p" "readOn sha consumed ps"
    "resumeCursors sha d (requestFilters request arn) = Inr (PageCursor (fst (hd ps)) consumed, None)"
    using assms(3) None by (auto simp: streamAt_def)
  obtain w1 where arn: "resolveImage context request w = (Inr arn, w1)"
    using assms(1) unfolding steadyListing_def by (metis prod.collapse)
  define g where "g = newGenerator (PageCursor (fst (hd ps)) consumed)"
  define st where "st = \<lparr>startedFilters = requestFilters request arn, startedFingerprint = fingerprint sha (requestFilters request arn),
    startedItems = g, startedOrdered = None\<rparr>"
  have "distinct consumed" using d(3) by (simp add: readOn_def)
  then have g: "walkConsumed (genWalk g) = consumed" "genOn sha request (requestFilters request arn) rows g ps"
    using d(3) by (auto simp: g_def newGenerator_def newPageWalk_def genOn_def walkOn_def)
  have "startListing context sha (pagRequest p) w = Some (Inr st, w1)"
    using assms(2) d arn by (simp add: startListing_def request_decoded st_def g_def Let_def)
  then have "nextItems context sha p w = nextStreamed context sha p st w1"
    using d(2) None by (simp add: nextItems_def) (simp add: st_def)
  then show ?thesis using g by (intro that [of st w1]) (simp_all add: st_def)
next
  case (Some st)
  then have "nextItems context sha p w = nextStreamed context sha p st w" using assms(3) by (auto simp: streamAt_def nextItems_def)
  then show ?thesis using assms(3) Some by (intro that [of st w]) (auto simp: streamAt_def)
qed

text \<open>A walk that has no more to come is at its end.\<close>

lemma walk_ended:
  assumes "walkOn sha walk ps" "pagesOk sha ps" "\<not> walkHasMore walk"
  shows "remaining sha (walkConsumed walk) ps = []"
proof -
  obtain t page post where ps: "ps = (t, page) # post" using assms(2) by (cases ps) (auto simp: pagesOk_def)
  have "unread sha (walkConsumed walk) page = []" "pageNext page = None"
    using assms(1,3) by (auto simp: walkOn_def walkHasMore_def ps split: if_splits)
  moreover from this assms(2) have "post = []" by (cases post) (auto simp: pagesOk_def ps)
  ultimately show ?thesis by (simp add: remaining_def ps)
qed

inductive callServes :: "hash \<Rightarrow> ListingRequest \<Rightarrow> ListFilters \<Rightarrow> pages \<Rightarrow> (codepoints \<Rightarrow> IndexRecord option) \<Rightarrow>
    (SandboxListItem \<Rightarrow> SandboxListItem option) \<Rightarrow> SandboxListItem list \<Rightarrow>
    ((ListThrown + SandboxListItem list) \<times> SandboxListPaginator \<times> 'w) option \<Rightarrow> bool"
  for sha request filters pages rows keep rest where
  last_call: "\<not> hasNext p' \<Longrightarrow> callServes sha request filters pages rows keep rest (Some (Inr (keptOf keep rest), p', w'))"
| one_of_more: "streamAt sha request filters pages rows p' ps' consumed' \<Longrightarrow>
    keptOf keep rest = served @ keptOf keep (remaining sha consumed' ps') \<Longrightarrow> length (remaining sha consumed' ps') < length rest \<Longrightarrow>
    callServes sha request filters pages rows keep rest (Some (Inr served, p', w'))"

lemma stream_settled:
  assumes "genOn sha request filters rows g ps" "suffix ps pages" "pagRequest p = request\<lparr>reqDecoded := d\<rparr>"
    and "startedFilters st = filters" "startedFingerprint st = fingerprint sha filters" "startedOrdered st = None"
  shows "streamAt sha request filters pages rows (settle p (st\<lparr>startedItems := g\<rparr>) True (Some (walkCursor (genWalk g)))) ps (walkConsumed (genWalk g))"
proof -
  have read: "readOn sha (walkConsumed (genWalk g)) ps" "pageToken (genWalk g) = fst (hd ps)" using assms(1) by (simp_all add: genOn_def walkOn_def)
  then have "distinct (walkConsumed (genWalk g))" by (simp add: readOn_def)
  then have "walkCursor (genWalk g) = PageCursor (fst (hd ps)) (walkConsumed (genWalk g))" "sameSet (walkConsumed (genWalk g)) (walkConsumed (genWalk g))"
    using read(2) by (simp_all add: walkCursor_def pageCursor_def sameSet_def)
  then show ?thesis unfolding streamAt_def using assms read(1) by (auto simp: settle_def nextTokenFor_def)
qed

lemma streamed_call:
  assumes steady: "steadyListing context sha opts request arn pages rows keep" "reqOrder request = None"
    and at: "streamAt sha request (requestFilters request arn) pages rows p ps consumed"
  shows "callServes sha request (requestFilters request arn) pages rows keep (remaining sha consumed ps) (nextItems context sha p w)"
proof -
  define filters where "filters = requestFilters request arn"
  obtain st w1 where st: "nextItems context sha p w = nextStreamed context sha p st w1" "startedFilters st = filters"
    "startedFingerprint st = fingerprint sha filters" "startedOrdered st = None" "genOn sha request filters rows (startedItems st) ps"
    "walkConsumed (genWalk (startedItems st)) = consumed"
    using stream_starts [OF steady at, of w] unfolding filters_def .
  obtain d where req: "pagRequest p = request\<lparr>reqDecoded := d\<rparr>" using at by (auto simp: streamAt_def)
  have world: "steady context (request\<lparr>reqDecoded := d\<rparr>) filters pages rows keep"
    using steady(1) by (simp add: steady_decoded steadyListing_def filters_def)
  have ps: "suffix ps pages" "ps \<noteq> []" "pagesOk sha pages" using at steady(1) by (auto simp: streamAt_def readOn_def steadyListing_def)
  have limit: "reqLimit request \<noteq> Some 0" using listingRequest_fields steady(1) by (auto simp: steadyListing_def)
  have gen: "genOn sha (request\<lparr>reqDecoded := d\<rparr>) filters rows (startedItems st) ps" using st(5) by (simp only: genOn_decoded)
  from takeItems_serves [OF world set_mono_suffix [OF ps(1)] pagesOk_suffix [OF ps] gen, of "reqLimit request" "[]" w1]
  have "servesUpTo sha (request\<lparr>reqDecoded := d\<rparr>) filters rows keep ps (reqLimit request) [] (remaining sha consumed ps)
      (takeItems context sha (pagRequest p) (startedFilters st) (reqLimit (pagRequest p)) [] (startedItems st) w1)"
    by (simp add: req st(2,6))
  then have "callServes sha request filters pages rows keep (remaining sha consumed ps) (nextItems context sha p w)"
  proof cases
    case (finished g' w')
    then have "nextItems context sha p w = Some (Inr (keptOf keep (remaining sha consumed ps)),
        settle p (st\<lparr>startedItems := g'\<rparr>) False (Some (walkCursor (genWalk g'))), w')"
      by (simp add: st(1) nextStreamed_def Let_def)
    then show ?thesis by (simp add: settle_def callServes.last_call)
  next
    case (full ps' g' rest' now n w')
    define p' where "p' = settle p (st\<lparr>startedItems := g'\<rparr>) (walkHasMore (genWalk g')) (Some (walkCursor (genWalk g')))"
    have call: "nextItems context sha p w = Some (Inr now, p', w')"
      using full(2) by (simp add: st(1) nextStreamed_def Let_def p'_def)
    have on: "genOn sha request filters rows g' ps'" "walkOn sha (genWalk g') ps'" using full(4) by (simp_all add: genOn_decoded genOn_def)
    have suf: "suffix ps' pages" "ps' \<noteq> []" using full(3) ps(1) suffix_order.trans on(2) by (auto simp: walkOn_def readOn_def)
    show ?thesis
    proof (cases "walkHasMore (genWalk g')")
      case False
      then have "rest' = []" using walk_ended [OF on(2) pagesOk_suffix [OF suf ps(3)]] full(5) by simp
      then have "now = keptOf keep (remaining sha consumed ps)" using full(6) by (simp add: map_filter_simps)
      moreover have "\<not> hasNext p'" using False by (simp add: p'_def settle_def)
      ultimately show ?thesis unfolding call by (auto intro: callServes.last_call)
    next
      case True
      then have "streamAt sha request filters pages rows p' ps' (walkConsumed (genWalk g'))"
        using stream_settled [OF on(1) suf(1) req st(2-4)] by (simp add: p'_def)
      moreover have "0 < length now" using full(1,8) limit by (cases n) auto
      then have "length (remaining sha (walkConsumed (genWalk g')) ps') < length (remaining sha consumed ps)" using full(7) unfolding full(5) by linarith
      ultimately show ?thesis using call full(5,6) by (auto intro!: callServes.one_of_more)
    qed
  qed
  then show ?thesis by (simp only: filters_def)
qed

lemma remaining_sameSet: "set c = set consumed \<Longrightarrow> remaining sha c ps = remaining sha consumed ps"
  by (cases ps) (simp_all add: remaining_def unread_def)

lemma stream_cursor_fits:
  assumes "steadyListing context sha opts request arn pages rows keep" "suffix ps pages" "readOn sha consumed ps" "sameSet c consumed"
  shows "cursorFits (PageCursor (fst (hd ps)) c)"
proof -
  obtain t page post where ps: "ps = (t, page) # post" using assms(3) by (cases ps) (auto simp: readOn_def)
  have "(t, page) \<in> set pages" using set_mono_suffix [OF assms(2)] by (auto simp: ps)
  then have page: "pred_option (\<lambda>s. plainText s \<and> length s \<le> LONGEST_TEXT) t" "pageOk sha page" "hexDigests sha"
    using assms(1) by (auto simp: steadyListing_def pagesOk_def list_all_iff)
  have sub: "set c \<subseteq> digest sha ` set (pageItems page)" "distinct c" using assms(3,4) by (auto simp: readOn_def sameSet_def ps)
  have "length c = card (set c)" using sub(2) distinct_card by metis
  also have "\<dots> \<le> card (digest sha ` set (pageItems page))" using sub(1) by (intro card_mono) auto
  also have "\<dots> \<le> length (pageItems page)" using card_image_le card_length le_trans by (metis List.finite_set)
  also have "\<dots> \<le> LIST_PAGE_SIZE" using page(2) by (simp add: pageOk_def)
  finally show ?thesis using page(1) sub hexDigests_take(2) [OF page(3)] by (auto simp: ps list_all_iff)
qed

lemma stream_initial:
  assumes "steadyListing context sha opts request arn pages rows keep"
  shows "paginate opts = Inr (newPaginator request None)"
    "streamAt sha request (requestFilters request arn) pages rows (newPaginator request None) pages []"
proof -
  have opts: "listingRequest opts = Inr request" "optNextToken opts = None" and pages: "pages \<noteq> []" "fst (hd pages) = None"
    using assms by (auto simp: steadyListing_def pagesOk_def)
  then show "paginate opts = Inr (newPaginator request None)" by (simp add: paginate_def)
  have "reqDecoded request = None" using listingRequest_fields(2) [OF opts] .
  then have "request = request\<lparr>reqDecoded := None\<rparr>" by (cases request) simp
  then show "streamAt sha request (requestFilters request arn) pages rows (newPaginator request None) pages []"
    using pages by (auto simp: streamAt_def newPaginator_def resumeCursors_def FIRST_PAGE_def pageCursor_def newSet_def readOn_def intro!: exI [of _ None])
qed

lemma stream_resumes:
  assumes steady: "steadyListing context sha opts request arn pages rows keep" "reqOrder request = None"
    and at: "streamAt sha request (requestFilters request arn) pages rows p ps consumed"
  obtains p1 c where "paginate (opts\<lparr>optNextToken := map_option TokenText (pagNextToken p)\<rparr>) = Inr p1"
    "streamAt sha request (requestFilters request arn) pages rows p1 ps c" "set c = set consumed"
proof -
  define filters where "filters = requestFilters request arn"
  have opts: "listingRequest opts = Inr request" "optNextToken opts = None" using steady(1) by (simp_all add: steadyListing_def)
  have at': "readOn sha consumed ps" "suffix ps pages" using at by (simp_all add: streamAt_def)
  consider (first) "pagNextToken p = None" "ps = pages" "consumed = []"
    | (later) c where "sameSet c consumed" "pagNextToken p = Some (encodeNextToken (fingerprint sha filters) (PageCursor (fst (hd ps)) c))"
  proof -
    have "pagNextToken p = None \<and> ps = pages \<and> consumed = [] \<or>
        (\<exists>c. sameSet c consumed \<and> pagNextToken p = Some (encodeNextToken (fingerprint sha filters) (PageCursor (fst (hd ps)) c)))"
      using at by (simp add: streamAt_def filters_def)
    then show ?thesis using that by blast
  qed
  then show ?thesis
  proof cases
    case first
    have same: "opts\<lparr>optNextToken := None\<rparr> = opts" using opts(2) by (cases opts) simp
    have "streamAt sha request filters pages rows (newPaginator request None) ps []"
      using stream_initial(2) [OF steady(1)] first(2) by (simp add: filters_def)
    moreover have "paginate (opts\<lparr>optNextToken := map_option TokenText (pagNextToken p)\<rparr>) = Inr (newPaginator request None)"
      unfolding first(1) option.map same paginate_def opts by simp
    ultimately show ?thesis using first(3) by (intro that [of "newPaginator request None" "[]"]) (simp_all add: filters_def)
  next
    case later
    define cursor where "cursor = PageCursor (fst (hd ps)) (jsSort compareCodePoints c)"
    define token where "token = encodeNextToken (fingerprint sha filters) (PageCursor (fst (hd ps)) c)"
    have "lowerHexText 16 (fingerprint sha filters)" using hexDigests_take(1) steady(1) by (simp add: steadyListing_def)
    then have decoded: "decodeNextToken (TokenText token) = Inr \<lparr>tokenFingerprint = fingerprint sha filters, tokenCursor = cursor\<rparr>"
      using token_read_back stream_cursor_fits [OF steady(1) at'(2,1) later(1)] unfolding token_def cursor_def by fastforce
    define d where "d = \<lparr>tokenFingerprint = fingerprint sha filters, tokenCursor = cursor\<rparr>"
    have req: "listingRequest (opts\<lparr>optNextToken := Some (TokenText token)\<rparr>) = Inr (request\<lparr>reqDecoded := Some d\<rparr>)"
      using listingRequest_token [OF opts decoded] steady(2) by (simp add: validateCursorForm_def d_def cursor_def)
    have c: "distinct (jsSort compareCodePoints c)" "set (jsSort compareCodePoints c) = set consumed" using later(1) by (simp_all add: sameSet_def)
    then have "streamAt sha request filters pages rows (newPaginator (request\<lparr>reqDecoded := Some d\<rparr>) (Some token)) ps (jsSort compareCodePoints c)"
      using at' later(1) unfolding streamAt_def
      by (auto simp: newPaginator_def resumeCursors_def d_def cursor_def readOn_def sameSet_def token_def intro!: exI [of _ c] exI [of _ "Some d"])
    then show ?thesis using req later c that [of "newPaginator (request\<lparr>reqDecoded := Some d\<rparr>) (Some token)" "jsSort compareCodePoints c"]
      by (simp add: paginate_def filters_def token_def)
  qed
qed

lemma follow_streamed:
  assumes steady: "steadyListing context sha opts request arn pages rows keep" "reqOrder request = None"
    and at: "streamAt sha request (requestFilters request arn) pages rows p ps consumed" "length (remaining sha consumed ps) < length calls"
  shows "\<exists>p' w'. followPages context sha opts calls p w = Some (Inr (keptOf keep (remaining sha consumed ps)), p', w') \<and> \<not> hasNext p'"
  using at
proof (induction calls arbitrary: p ps consumed w)
  case (Cons fresh calls)
  have more: "hasNext p" using Cons.prems(1) by (simp add: streamAt_def)
  obtain p1 c where p1: "(if fresh then paginate (opts\<lparr>optNextToken := map_option TokenText (pagNextToken p)\<rparr>) else Inr p) = Inr p1"
    "streamAt sha request (requestFilters request arn) pages rows p1 ps c" "set c = set consumed"
  proof (cases fresh)
    case True
    then show ?thesis using stream_resumes [OF steady Cons.prems(1)] that by (metis (full_types))
  qed (use Cons.prems(1) that in auto)
  note rest = remaining_sameSet [OF p1(3), of sha ps]
  from streamed_call [OF steady p1(2), of w, unfolded rest] show ?case
  proof cases
    case (last_call p' w')
    moreover have "followPages context sha opts calls p' w' = Some (Inr [], p', w')" using last_call(2) by (cases calls) simp_all
    ultimately show ?thesis using more p1(1) by simp
  next
    case (one_of_more p' ps' consumed' served w')
    then obtain p3 w3 where "followPages context sha opts calls p' w' = Some (Inr (keptOf keep (remaining sha consumed' ps')), p3, w3)" "\<not> hasNext p3"
      using Cons.IH [OF one_of_more(2)] Cons.prems(2) by fastforce
    then show ?thesis using more p1(1) one_of_more by simp
  qed
qed simp

abbreviation allItems :: "pages \<Rightarrow> SandboxListItem list" where
  "allItems pages \<equiv> concat (map (\<lambda>q. pageItems (snd q)) pages)"

lemma remaining_all: "remaining sha [] pages = allItems pages"
  by (cases pages) (simp_all add: remaining_def unread_def)

text \<open>C17: following the tokens of a listing without an order serves every sandbox that passes the filters exactly once, in the
  order of AWS.  The pages of AWS and the sandboxes hold still; each call of \<open>nextItems\<close> is made on the same
  paginator or on a new one made from the last token, and the limit is any.  After one call more than there are
  sandboxes the listing has ended, no call has thrown, and what was served together is exactly the sandboxes that
  pass.  The digests of the sandboxes of a page are distinct and AWS keeps to fifty sandboxes a page.\<close>

theorem streamed_pages_complete:
  assumes "steadyListing context sha opts request arn pages rows keep" "reqOrder request = None"
    and "paginate opts = Inr p" "length (allItems pages) < length calls"
  shows "\<exists>p' w'. followPages context sha opts calls p w = Some (Inr (List.map_filter keep (allItems pages)), p', w') \<and> \<not> hasNext p'"
  using follow_streamed [OF assms(1,2) stream_initial(2) [OF assms(1)], of calls w] assms(3,4) stream_initial(1) [OF assms(1)]
  by (simp add: remaining_all)

text \<open>Three sandboxes on two pages, one of them terminated.\<close>

definition demoSha :: hash where "demoSha bytes = (48 + sum_list bytes mod 10) # replicate 63 48"

definition demoItem :: "string \<Rightarrow> string \<Rightarrow> int \<Rightarrow> SandboxListItem" where
  "demoItem name state ms = \<lparr>itemId = units name, itemState = units state, itemTemplate = units ''arn'', itemTemplateVersion = units ''1'',
     itemStartedAt = ms, itemTemplateName = units ''base'', itemMetadata = None\<rparr>"

definition demoPages :: pages where
  "demoPages = [(None, \<lparr>pageItems = [demoItem ''a'' ''RUNNING'' 10, demoItem ''b'' ''TERMINATED'' 20], pageNext = Some (units ''t'')\<rparr>),
     (Some (units ''t''), \<lparr>pageItems = [demoItem ''c'' ''SUSPENDED'' 30], pageNext = None\<rparr>)]"

definition demoContext :: "unit ListingContext" where
  "demoContext = \<lparr>planeListPage = (\<lambda>arn version size t w. (Inr (snd (demoPages ! (if t = None then 0 else 1))), w)),
     planeResolveTemplateArn = (\<lambda>t w. (Inr t, w)), planeGetMicrovm = (\<lambda>i w. (Inl (ValueThrown []), w)),
     probeMint = (\<lambda>i w. (Inr (), w)), probeOpen = (\<lambda>i w. w), probeCall = (\<lambda>t w. (Inl (ValueThrown []), w)),
     probeRefreshAll = (\<lambda>w. (Inr (), w)), probeAbort = (\<lambda>w. w), probeTimeoutMs = 5000,
     contextIndex = \<lparr>apiClient = (\<lambda>w. (Inr (), w)), apiPut = (\<lambda>t i w. (Inr (), w)), apiBatchGet = (\<lambda>t k w. (Inr ([], []), w)),
       apiSleep = (\<lambda>n w. w), apiNow = (\<lambda>w. 0)\<rparr>\<rparr>"

definition demoListing :: "OrderInput option \<Rightarrow> ListingRequestOptions" where
  "demoListing order = \<lparr>optTemplate = None, optTemplateVersion = None, optStates = None, optMetadata = None, optStartedAfter = None,
     optOrder = order, optLimit = Some (JsInteger 1), optNextToken = None, optIndex = None\<rparr>"

definition demoRequest :: "ListOrder option \<Rightarrow> ListingRequest" where
  "demoRequest order = \<lparr>reqTemplate = None, reqLimit = Some 1, reqOrder = order, reqDecoded = None, reqHasMetadata = False,
     reqIndex = None, reqWanted = [], reqTemplateVersion = None, reqStates = None, reqStartedAfterMs = None\<rparr>"

definition demoKeep :: "SandboxListItem \<Rightarrow> SandboxListItem option" where
  "demoKeep item = (if itemState item \<in> set (map units TERMINAL_STATES) then None else Some item)"

lemma demo_digests: "hexDigests demoSha" "pagesOk demoSha demoPages"
proof -
  have "48 + n mod 10 \<le> 57" for n :: nat by (simp add: Suc_leI less_Suc_eq_le [symmetric])
  then show "hexDigests demoSha" by (auto simp: hexDigests_def demoSha_def lowerHexText_def list_all_iff)
  have "digest demoSha (demoItem ''a'' s ms) = 55 # replicate 11 48" "digest demoSha (demoItem ''b'' s ms) = 56 # replicate 11 48" for s ms
    by (simp_all add: demoItem_def itemDigest_def sha256Hex_def demoSha_def bufferFromText_ascii units_def)
  then show "pagesOk demoSha demoPages" by (simp add: pagesOk_def demoPages_def pageOk_def LIST_PAGE_SIZE_def)
qed

lemma demo_request: "listingRequest (demoListing (map_option OrderIs order)) = Inr (demoRequest order)"
  by (cases order) (simp_all add: listingRequest_def demoListing_def demoRequest_def validateLimit_def isSafeInteger_def validateOrder_def
    optionalStringMap_def validateIndex_def validateStartedAfter_def optionalToken_def validateCursorForm_def)

lemma demo_steady:
  "steadyListing demoContext demoSha (demoListing (map_option OrderIs order)) (demoRequest order) None demoPages Map.empty demoKeep"
proof -
  define filters where "filters = requestFilters (demoRequest order) None"
  have "accepts filters item \<longleftrightarrow> demoKeep item \<noteq> None" for item
    by (simp add: filters_def accepts_def requestFilters_def newListFilters_def demoRequest_def demoKeep_def)
  then have "fst (matching demoContext (demoRequest order) filters item records w) = Inr (demoKeep item)" for item records w
    by (auto simp: matching_def demoRequest_def demoKeep_def split: if_splits)
  moreover have "fst (planeListPage demoContext arn version n t w) = Inr page" if "(t, page) \<in> set demoPages" for arn version n t w page
    using that by (auto simp: demoContext_def demoPages_def)
  ultimately have "steady demoContext (demoRequest order) filters demoPages Map.empty demoKeep"
    by (simp add: steady_def) (simp add: demoRequest_def)
  moreover have "plainText (units ''t'')" by (simp add: plainText_def units_def)
  ultimately show ?thesis
    using demo_digests demo_request [of order] unfolding filters_def steadyListing_def
    by (simp add: demoPages_def LONGEST_TEXT_def) (simp add: demoListing_def demoRequest_def resolveImage_def)
qed

lemma demo_kept: "List.map_filter demoKeep (allItems demoPages) = [demoItem ''a'' ''RUNNING'' 10, demoItem ''c'' ''SUSPENDED'' 30]"
  by (simp add: demoPages_def map_filter_simps demoKeep_def demoItem_def TERMINAL_STATES_def)

theorem streamed_pages_complete_witness:
  "\<exists>p' w'. followPages demoContext demoSha (demoListing None) [True, False, True, True] (newPaginator (demoRequest None) None) () =
     Some (Inr [demoItem ''a'' ''RUNNING'' 10, demoItem ''c'' ''SUSPENDED'' 30], p', w') \<and> \<not> hasNext p'"
proof -
  have "paginate (demoListing None) = Inr (newPaginator (demoRequest None) None)" using stream_initial(1) [OF demo_steady, of None] by simp
  then show ?thesis
    using streamed_pages_complete [OF demo_steady [of None], of "newPaginator (demoRequest None) None" "[True, False, True, True]" "()"] demo_kept
    by (simp add: demoRequest_def demoPages_def del: followPages.simps)
qed

end
