(* ===== verification/Listing_Failures.thy ===== *)
theory Listing_Failures
  imports Listing_Follow
begin

text \<open>
  What is left of a paginator whose call has thrown.  The generator behind it is finished, so the paginator serves nothing any
  more; it still says that there is more.
\<close>

lemmas matchingNext_induct = matchingNext.raw_induct [rotated, consumes 1, case_names step]
lemmas takeItems_induct = takeItems.raw_induct [rotated, consumes 1, case_names step]

lemma matchingNext_throws: "matchingNext ctx sha request filters g w = Some out \<Longrightarrow> fst out = Inl e \<Longrightarrow> genDone (fst (snd out))"
proof (induction ctx sha request filters g w out rule: matchingNext_induct)
  case (step rec ctx sha request filters g w out)
  show ?case
  proof (cases "genDone g")
    case False
    obtain t walk1 where fetch: "pageToFetch (genWalk g) = (t, walk1)" by fastforce
    show ?thesis
    proof (cases t)
      case None
      then show ?thesis using step False fetch
        by (auto split: prod.splits option.splits sum.splits)
    next
      case (Some token)
      then show ?thesis using step False fetch
        by (auto split: prod.splits option.splits sum.splits)
    qed
  qed (use step in auto)
qed

lemma takeItems_throws: "takeItems ctx sha request filters limit served g w = Some out \<Longrightarrow> fst out = Inl e \<Longrightarrow> genDone (fst (snd out))"
proof (induction ctx sha request filters limit served g w out rule: takeItems_induct)
  case (step rec ctx sha request filters limit served g w out)
  show ?case
  proof (cases "case limit of None \<Rightarrow> False | Some n \<Rightarrow> n \<le> length served")
    case False
    with step(2) obtain r g1 w1 where item: "matchingNext ctx sha request filters g w = Some (r, g1, w1)"
      and rest: "(case r of Inl e \<Rightarrow> Some (Inl e, g1, w1) | Inr None \<Rightarrow> Some (Inr served, g1, w1)
        | Inr (Some item) \<Rightarrow> rec ctx sha request filters limit (served @ [item]) g1 w1) = Some out"
      by (auto simp: bind_eq_Some_conv)
    show ?thesis
    proof (cases r)
      case (Inl e1)
      then show ?thesis using matchingNext_throws [OF item] rest by auto
    next
      case (Inr found)
      then show ?thesis using rest step(1,3) by (cases found) auto
    qed
  qed (use step in auto)
qed

text \<open>A finished generator gives nothing and touches nothing.\<close>

lemma takeItems_done:
  assumes "genDone g" "limit \<noteq> Some 0"
  shows "takeItems ctx sha request filters limit [] g w = Some (Inr [], g, w)"
proof -
  have "matchingNext ctx sha request filters g w = Some (Inr None, g, w)" using assms(1) by (subst matchingNext.simps) simp
  then show ?thesis using assms(2) by (subst takeItems.simps) (auto split: option.split)
qed

text \<open>A paginator behind which the generator is finished.\<close>

definition streamDone :: "SandboxListPaginator \<Rightarrow> bool" where
  "streamDone p \<longleftrightarrow> (\<exists>st. pagStarted p = Some st \<and> startedOrdered st = None \<and> genDone (startedItems st) \<and>
     reqLimit (pagRequest p) \<noteq> Some 0)"

definition streamWalk :: "SandboxListPaginator \<Rightarrow> PageWalk" where
  "streamWalk p = (case pagStarted p of Some st \<Rightarrow> genWalk (startedItems st) | None \<Rightarrow> newPageWalk FIRST_PAGE)"

lemma sum_case_SomeE:
  assumes "(case r of Inl e \<Rightarrow> f e | Inr x \<Rightarrow> g x) = Some y"
  obtains (thrown) e where "r = Inl e" "f e = Some y" | (returned) x where "r = Inr x" "g x = Some y"
  using assms by (cases r) auto

lemma nextItems_throws:
  assumes "nextItems ctx sha p w = Some (Inl e, p', w')" "hasNext p" "pagStarted p' \<noteq> None" "reqOrder (pagRequest p) = None"
    "reqLimit (pagRequest p) \<noteq> Some 0" "\<forall>st. pagStarted p = Some st \<longrightarrow> startedOrdered st = None"
  shows "hasNext p'" "streamDone p'" "pagNextToken p' = pagNextToken p"
proof -
  obtain r w1 where start: "(case pagStarted p of Some st \<Rightarrow> Some (Inr st, w) | None \<Rightarrow> startListing ctx sha (pagRequest p) w) = Some (r, w1)"
    and rest: "(case r of Inl e \<Rightarrow> Some (Inl e, p, w1) | Inr st \<Rightarrow> (case startedOrdered st of
        None \<Rightarrow> nextStreamed ctx sha p st w1
      | Some ordered \<Rightarrow> (case nextOrdered p st ordered of (served, p1) \<Rightarrow> Some (Inr served, p1, w1)))) = Some (Inl e, p', w')"
    using assms(1,2) by (auto simp: nextItems_def bind_eq_Some_conv split del: option.split)
  obtain st where st: "r = Inr st" "startedOrdered st = None"
  proof (cases "pagStarted p")
    case None
    then have "r \<noteq> Inl e1" for e1 using start rest assms(3) by auto
    then show ?thesis using that start None assms(4)
      by (cases r) (auto simp: startListing_def Let_def split: prod.splits sum.splits)
  qed (use start assms(6) that in auto)
  then obtain g where take: "takeItems ctx sha (pagRequest p) (startedFilters st) (reqLimit (pagRequest p)) [] (startedItems st) w1 = Some (Inl e, g, w')"
    "p' = p\<lparr>pagStarted := Some (st\<lparr>startedItems := g\<rparr>)\<rparr>"
    using rest by (auto simp: nextStreamed_def bind_eq_Some_conv Let_def elim!: sum_case_SomeE)
  then show "hasNext p'" "streamDone p'" "pagNextToken p' = pagNextToken p"
    using takeItems_throws [OF take(1)] st(2) assms(2,5) by (auto simp: streamDone_def)
qed

lemma streamDone_call:
  assumes "streamDone p" "hasNext p"
  obtains p' where "nextItems ctx sha p w = Some (Inr [], p', w)" "streamDone p'" "streamWalk p' = streamWalk p" "hasNext p' = walkHasMore (streamWalk p)"
proof -
  obtain st where st: "pagStarted p = Some st" "startedOrdered st = None" "genDone (startedItems st)" "reqLimit (pagRequest p) \<noteq> Some 0"
    using assms(1) by (auto simp: streamDone_def)
  define p' where "p' = settle p (st\<lparr>startedItems := startedItems st\<rparr>) (walkHasMore (genWalk (startedItems st))) (Some (walkCursor (genWalk (startedItems st))))"
  have "nextItems ctx sha p w = Some (Inr [], p', w)"
    using st assms(2) by (simp add: nextItems_def nextStreamed_def p'_def Let_def takeItems_done)
  then show ?thesis using st by (intro that [of p']) (auto simp: streamDone_def streamWalk_def p'_def settle_def)
qed

lemma follow_done:
  assumes "streamDone p"
  shows "\<exists>p'. followPages ctx sha opts (replicate n False) p w = Some (Inr [], p', w) \<and> streamWalk p' = streamWalk p \<and>
    (hasNext p \<longrightarrow> walkHasMore (streamWalk p) \<longrightarrow> hasNext p')"
  using assms
proof (induction n arbitrary: p)
  case (Suc n)
  show ?case
  proof (cases "hasNext p")
    case True
    obtain p1 where p1: "nextItems ctx sha p w = Some (Inr [], p1, w)" "streamDone p1" "streamWalk p1 = streamWalk p"
      "hasNext p1 = walkHasMore (streamWalk p)" using streamDone_call [OF Suc.prems True] .
    with Suc.IH [OF p1(2)] True show ?thesis by auto
  qed simp
qed simp


text \<open>One failed request for the first page is enough, although AWS answers every later one.\<close>

definition failingContext :: "unit ListingContext" where
  "failingContext = demoContext\<lparr>planeListPage := (\<lambda>arn version size t w. (Inl (ValueThrown []), w))\<rparr>"

definition failedPaginator :: SandboxListPaginator where
  "failedPaginator = (newPaginator (demoRequest None) None)\<lparr>pagStarted :=
     Some \<lparr>startedFilters = requestFilters (demoRequest None) None, startedFingerprint = fingerprint demoSha (requestFilters (demoRequest None) None),
       startedItems = (newGenerator FIRST_PAGE)\<lparr>genDone := True\<rparr>, startedOrdered = None\<rparr>\<rparr>"

lemma failing_call: "nextItems failingContext demoSha (newPaginator (demoRequest None) None) () = Some (Inl (PlaneThrown (ValueThrown [])), failedPaginator, ())"
proof -
  have "matchingNext failingContext demoSha request filters (newGenerator FIRST_PAGE) () =
      Some (Inl (PlaneThrown (ValueThrown [])), (newGenerator FIRST_PAGE)\<lparr>genDone := True\<rparr>, ())" for request filters
    by (subst matchingNext.simps) (simp add: newGenerator_def newPageWalk_def FIRST_PAGE_def pageCursor_def pageToFetch_def failingContext_def)
  then have "takeItems failingContext demoSha request filters (Some 1) [] (newGenerator FIRST_PAGE) () =
      Some (Inl (PlaneThrown (ValueThrown [])), (newGenerator FIRST_PAGE)\<lparr>genDone := True\<rparr>, ())" for request filters
    by (subst takeItems.simps) simp
  then show ?thesis
    by (simp add: nextItems_def newPaginator_def startListing_def resolveImage_def nextStreamed_def failedPaginator_def demoRequest_def
      resumeCursors_def Let_def)
qed


end
