(* ===== verification/Listing_Ordered.thy ===== *)
theory Listing_Ordered
  imports Listing_Follow
begin

text \<open>
  What a client of the paginator gets with an order.  A walk reads every page first and sorts; a token holds the key of the
  last sandbox served, so that a new paginator goes on behind that key.  Following the tokens serves
  every sandbox that passes the filters exactly once, in strictly increasing or decreasing order of start and identifier.
\<close>

section \<open>The order of a listing\<close>

lemma compareKeys_nonpos:
  "compareKeys m s n t \<le> 0 \<longleftrightarrow> m < n \<or> m = n \<and> compareCodePoints s t \<le> 0"
  by (auto simp: compareKeys_def)

lemma compareKeys_sym: "sgn (compareKeys m s n t) = - sgn (compareKeys n t m s)"
  using points_order.cmp_sym [of s t] by (auto simp: compareKeys_def sgn_if split: if_splits)

lemma compareKeys_trans: "compareKeys m s n t \<le> 0 \<Longrightarrow> compareKeys n t k u \<le> 0 \<Longrightarrow> compareKeys m s k u \<le> 0"
  using points_order.cmp_trans [of s t u] by (auto simp: compareKeys_nonpos)

lemma compareKeys_swap: "0 \<le> compareKeys m s n t \<longleftrightarrow> compareKeys n t m s \<le> 0"
  using compareKeys_sym [of m s n t] by (auto simp: sgn_if split: if_splits)

interpretation item_order: js_comparator "compareItems order" for order
proof
  show "sgn (compareItems order x y) = - sgn (compareItems order y x)" for x y
    using compareKeys_sym [of "itemStartedAt x" "itemId x" "itemStartedAt y" "itemId y"]
    by (cases order) (simp_all add: compareItems_def direction_def sgn_minus)
  show "compareItems order x y \<le> 0 \<Longrightarrow> compareItems order y z \<le> 0 \<Longrightarrow> compareItems order x z \<le> 0" for x y z
    using compareKeys_trans by (cases order) (auto simp: compareItems_def direction_def compareKeys_swap)
qed

definition itemKey :: "SandboxListItem \<Rightarrow> ListCursor" where
  "itemKey item = KeyCursor (itemStartedAt item) (itemId item)"

lemma behind_itemKey: "behind order (Some (itemKey key)) = (\<lambda>item. compareItems order item key > 0)"
  by (simp add: fun_eq_iff behind_def itemKey_def compareItems_def)

abbreviation strictlyOrdered :: "ListOrder \<Rightarrow> SandboxListItem list \<Rightarrow> bool" where
  "strictlyOrdered order items \<equiv> sorted_wrt (\<lambda>x y. compareItems order x y < 0) items"

lemma compareItems_zero:
  assumes "compareItems order x y = 0" "jsText (itemId x)" "jsText (itemId y)"
  shows "itemId x = itemId y"
  using assms compareCodePoints_zero by (cases order) (auto simp: compareItems_def direction_def compareKeys_def split: if_splits)

lemma jsSort_strict:
  assumes "distinct (map itemId items)" "\<And>x. x \<in> set items \<Longrightarrow> jsText (itemId x)"
  shows "strictlyOrdered order (jsSort (compareItems order) items)"
proof -
  define sorted where "sorted = jsSort (compareItems order) items"
  have "mset (map itemId sorted) = mset (map itemId items)" by (simp add: sorted_def)
  then have ids: "distinct (map itemId sorted)" using assms(1) by (metis mset_eq_imp_distinct_iff)
  have le: "sorted_wrt (\<lambda>x y. compareItems order x y \<le> 0) sorted" unfolding sorted_def by (rule item_order.sorted_jsSort)
  have "compareItems order (sorted ! i) (sorted ! j) < 0" if "i < j" "j < length sorted" for i j
  proof -
    have "itemId (sorted ! i) \<noteq> itemId (sorted ! j)" using ids that by (auto simp: distinct_conv_nth)
    moreover have "sorted ! i \<in> set items" "sorted ! j \<in> set items" using that nth_mem [of _ sorted] by (auto simp: sorted_def)
    ultimately have "compareItems order (sorted ! i) (sorted ! j) \<noteq> 0" using compareItems_zero assms(2) by blast
    then show ?thesis using le that by (fastforce simp: sorted_wrt_iff_nth_less)
  qed
  then show ?thesis unfolding sorted_def [symmetric] by (simp add: sorted_wrt_iff_nth_less)
qed

text \<open>Behind the key of a sandbox of the list come exactly the ones after it.\<close>

lemma behind_drops:
  assumes "strictlyOrdered order items" "0 < i" "i \<le> length items"
  shows "filter (behind order (Some (itemKey (items ! (i - 1))))) items = drop i items"
proof -
  define key where "key = items ! (i - 1)"
  have split: "items = take (i - 1) items @ key # drop i items"
    using id_take_nth_drop [of "i - 1" items] assms(2,3) by (simp add: key_def)
  have "strictlyOrdered order (take (i - 1) items @ key # drop i items)" using assms(1) split by simp
  then have before: "\<And>x. x \<in> set (take (i - 1) items) \<Longrightarrow> compareItems order x key < 0"
    and after: "\<And>x. x \<in> set (drop i items) \<Longrightarrow> compareItems order key x < 0"
    by (auto simp: sorted_wrt_append)
  have "\<not> compareItems order key key > 0" using item_order.cmp_refl [of order key] by linarith
  moreover have "compareItems order x key > 0" if "x \<in> set (drop i items)" for x
    using after [OF that] item_order.cmp_less [of order key x] by linarith
  moreover have "\<not> compareItems order x key > 0" if "x \<in> set (take (i - 1) items)" for x
    using before [OF that] by simp
  ultimately have "filter (\<lambda>x. compareItems order x key > 0) (take (i - 1) items @ key # drop i items) = drop i items"
    by simp
  then have "filter (\<lambda>x. compareItems order x key > 0) items = drop i items" by (simp only: split [symmetric])
  then show ?thesis by (simp only: behind_itemKey key_def)
qed

section \<open>One call\<close>

lemma orderedTake_serves:
  assumes "orderedTake limit walk = (served, walk')" "drop (orderedIndex walk) (orderedItems walk) = rest"
  shows "served = (case limit of None \<Rightarrow> rest | Some n \<Rightarrow> take n rest)"
    "drop (orderedIndex walk') (orderedItems walk') = drop (length served) rest"
    "orderedHasMore walk' \<longleftrightarrow> length served < length rest"
    "served \<noteq> [] \<Longrightarrow> orderedLast walk' = Some (itemKey (last served))"
proof -
  have walk': "walk' = walk\<lparr>orderedIndex := orderedIndex walk + length served,
      orderedLast := (if served = [] then orderedLast walk else Some (itemKey (last served)))\<rparr>"
    using assms(1) by (auto simp: orderedTake_def Let_def itemKey_def)
  show "served = (case limit of None \<Rightarrow> rest | Some n \<Rightarrow> take n rest)"
    using assms by (auto simp: orderedTake_def Let_def drop_take split: option.splits)
  show "drop (orderedIndex walk') (orderedItems walk') = drop (length served) rest"
    using assms(2) by (auto simp: walk' add.commute)
  have "length rest = length (orderedItems walk) - orderedIndex walk" using assms(2) by auto
  then show "orderedHasMore walk' \<longleftrightarrow> length served < length rest" by (auto simp: orderedHasMore_def walk')
  show "served \<noteq> [] \<Longrightarrow> orderedLast walk' = Some (itemKey (last served))" by (simp add: walk')
qed

text \<open>A paginator with an order that has served the first \<open>i\<close> sandboxes, and whose token says so.\<close>

definition orderedAt :: "hash \<Rightarrow> ListingRequest \<Rightarrow> ListFilters \<Rightarrow> ListOrder \<Rightarrow> SandboxListItem list \<Rightarrow> SandboxListPaginator \<Rightarrow> nat \<Rightarrow> bool" where
  "orderedAt sha request filters order items p i \<longleftrightarrow>
     hasNext p \<and> i \<le> length items \<and> (\<exists>d. pagRequest p = request\<lparr>reqDecoded := d\<rparr> \<and>
       (case pagStarted p of
          None \<Rightarrow> (\<exists>after. resumeCursors sha d filters = Inr (FIRST_PAGE, after) \<and> filter (behind order after) items = drop i items)
        | Some st \<Rightarrow> startedFingerprint st = fingerprint sha filters \<and>
            (\<exists>walk. startedOrdered st = Some walk \<and> drop (orderedIndex walk) (orderedItems walk) = drop i items))) \<and>
     (pagNextToken p = None \<and> i = 0 \<or>
      0 < i \<and> pagNextToken p = Some (encodeNextToken (fingerprint sha filters) (itemKey (items ! (i - 1)))))"

text \<open>The sandboxes of the pages that pass, sorted.\<close>

definition sortedItems :: "ListOrder \<Rightarrow> (SandboxListItem \<Rightarrow> SandboxListItem option) \<Rightarrow> pages \<Rightarrow> SandboxListItem list" where
  "sortedItems order keep pages = jsSort (compareItems order) (keptOf keep (allItems pages))"

lemma collect_all:
  assumes "steadyListing context sha opts request arn pages rows keep"
  obtains g w' where "takeItems context sha (request\<lparr>reqDecoded := d\<rparr>) (requestFilters request arn) None [] (newGenerator FIRST_PAGE) w =
    Some (Inr (keptOf keep (allItems pages)), g, w')"
proof -
  define g where "g = newGenerator FIRST_PAGE"
  have pages: "pagesOk sha pages" "pages \<noteq> []" "fst (hd pages) = None" using assms by (auto simp: steadyListing_def pagesOk_def)
  have world: "steady context (request\<lparr>reqDecoded := d\<rparr>) (requestFilters request arn) pages rows keep"
    using assms by (simp add: steady_decoded steadyListing_def)
  have g: "genOn sha (request\<lparr>reqDecoded := d\<rparr>) (requestFilters request arn) rows g pages" "walkConsumed (genWalk g) = []"
    using pages by (auto simp: g_def newGenerator_def newPageWalk_def FIRST_PAGE_def pageCursor_def newSet_def genOn_def walkOn_def readOn_def)
  from takeItems_serves [OF world order.refl pages(1) g(1), of None "[]" w, unfolded g(2) remaining_all]
  show ?thesis by cases (simp add: that g_def)
qed

lemma ordered_starts:
  assumes "steadyListing context sha opts request arn pages rows keep" "reqOrder request = Some order"
    and "orderedAt sha request (requestFilters request arn) order (sortedItems order keep pages) p i"
  obtains st walk served p' w1 where "startedOrdered st = Some walk" "startedFingerprint st = fingerprint sha (requestFilters request arn)"
    "drop (orderedIndex walk) (orderedItems walk) = drop i (sortedItems order keep pages)"
    "nextOrdered p st walk = (served, p')" "nextItems context sha p w = Some (Inr served, p', w1)"
proof (cases "pagStarted p")
  case None
  obtain d after where d: "pagRequest p = request\<lparr>reqDecoded := d\<rparr>" "hasNext p"
    "resumeCursors sha d (requestFilters request arn) = Inr (FIRST_PAGE, after)"
    "filter (behind order after) (sortedItems order keep pages) = drop i (sortedItems order keep pages)"
    using assms(3) None by (auto simp: orderedAt_def)
  obtain w1 where arn: "resolveImage context request w = (Inr arn, w1)"
    using assms(1) unfolding steadyListing_def by (metis prod.collapse)
  obtain g w2 where all: "takeItems context sha (request\<lparr>reqDecoded := d\<rparr>) (requestFilters request arn) None [] (newGenerator FIRST_PAGE) w1 =
      Some (Inr (keptOf keep (allItems pages)), g, w2)" using collect_all [OF assms(1)] .
  define walk where "walk = newOrderedWalk (keptOf keep (allItems pages)) order after"
  define st where "st = \<lparr>startedFilters = requestFilters request arn, startedFingerprint = fingerprint sha (requestFilters request arn),
    startedItems = g, startedOrdered = Some walk\<rparr>"
  have "startListing context sha (pagRequest p) w = Some (Inr st, w2)"
    using assms(2) d arn all by (simp add: startListing_def request_decoded st_def walk_def Let_def)
  then have "nextItems context sha p w = (case nextOrdered p st walk of (served, p1) \<Rightarrow> Some (Inr served, p1, w2))"
    using d(2) None by (simp add: nextItems_def) (simp add: st_def)
  moreover obtain served p' where "nextOrdered p st walk = (served, p')" by fastforce
  ultimately show ?thesis using d(4)
    by (intro that [of st walk served p' w2]) (simp_all add: st_def walk_def newOrderedWalk_def sortedItems_def)
next
  case (Some st)
  then obtain walk where st: "startedFingerprint st = fingerprint sha (requestFilters request arn)" "startedOrdered st = Some walk"
    "drop (orderedIndex walk) (orderedItems walk) = drop i (sortedItems order keep pages)" using assms(3) by (auto simp: orderedAt_def)
  moreover obtain served p' where "nextOrdered p st walk = (served, p')" by fastforce
  ultimately show ?thesis using Some assms(3) by (intro that [of st walk served p' w]) (auto simp: orderedAt_def nextItems_def)
qed

lemma ordered_call:
  assumes "steadyListing context sha opts request arn pages rows keep" "reqOrder request = Some order"
    and at: "orderedAt sha request (requestFilters request arn) order (sortedItems order keep pages) p i"
  obtains (last_call) p' w' where "nextItems context sha p w = Some (Inr (drop i (sortedItems order keep pages)), p', w')" "\<not> hasNext p'"
  | (one_of_more) served p' w' where "nextItems context sha p w = Some (Inr served, p', w')"
      "drop i (sortedItems order keep pages) = served @ drop (i + length served) (sortedItems order keep pages)" "served \<noteq> []"
      "orderedAt sha request (requestFilters request arn) order (sortedItems order keep pages) p' (i + length served)"
proof -
  define items where "items = sortedItems order keep pages"
  obtain st walk served p' w1 where st: "startedOrdered st = Some walk" "startedFingerprint st = fingerprint sha (requestFilters request arn)"
    "drop (orderedIndex walk) (orderedItems walk) = drop i items" "nextOrdered p st walk = (served, p')"
    "nextItems context sha p w = Some (Inr served, p', w1)" using ordered_starts [OF assms, of w] unfolding items_def .
  obtain walk' where take: "orderedTake (reqLimit (pagRequest p)) walk = (served, walk')"
    and p': "p' = settle p (st\<lparr>startedOrdered := Some walk'\<rparr>) (orderedHasMore walk') (orderedLast walk')"
    using st(4) by (auto simp: nextOrdered_def split: prod.splits)
  note got = orderedTake_serves [OF take st(3)]
  obtain d where d: "pagRequest p = request\<lparr>reqDecoded := d\<rparr>" "i \<le> length items" using at by (auto simp: orderedAt_def items_def)
  have limit: "reqLimit (pagRequest p) \<noteq> Some 0" using listingRequest_fields assms(1) d by (auto simp: steadyListing_def)
  have split: "drop i items = served @ drop (length served) (drop i items)"
    using got(1) by (metis append_take_drop_id append_Nil2 drop_all length_take min_def nat_le_linear option.case_eq_if take_all)
  show ?thesis
  proof (cases "orderedHasMore walk'")
    case False
    then have "served = drop i items" using got(3) split by simp
    then show ?thesis using last_call st(5) False p' by (simp add: items_def settle_def)
  next
    case True
    then have more: "length served < length (drop i items)" using got(3) by simp
    then have some: "served \<noteq> []" using got(1) limit by (cases "reqLimit (pagRequest p)") auto
    have "last served = items ! (i + length served - 1)"
    proof -
      have "last served = (served @ drop (length served) (drop i items)) ! (length served - 1)" using some by (simp add: last_conv_nth nth_append)
      also have "\<dots> = drop i items ! (length served - 1)" using split by simp
      also have "\<dots> = items ! (i + length served - 1)" using some d(2) by (simp add: Suc_leI)
      finally show ?thesis .
    qed
    then have "orderedLast walk' = Some (itemKey (items ! (i + length served - 1)))" using got(4) some by simp
    then have "orderedAt sha request (requestFilters request arn) order items p' (i + length served)"
      using True some more d st(2) got(2) unfolding orderedAt_def p' by (auto simp: settle_def nextTokenFor_def add.commute)
    then show ?thesis using one_of_more st(5) some split by (simp add: items_def add.commute)
  qed
qed

section \<open>Following the tokens\<close>

lemma ordered_initial:
  assumes "steadyListing context sha opts request arn pages rows keep"
  shows "orderedAt sha request (requestFilters request arn) order (sortedItems order keep pages) (newPaginator request None) 0"
proof -
  have "listingRequest opts = Inr request" "optNextToken opts = None" using assms by (simp_all add: steadyListing_def)
  then have "reqDecoded request = None" by (rule listingRequest_fields(2))
  then have "request = request\<lparr>reqDecoded := None\<rparr>" by (cases request) simp
  then show ?thesis by (auto simp: orderedAt_def newPaginator_def resumeCursors_def behind_def intro!: exI [of _ None])
qed

text \<open>What the order relies on: identifiers are distinct, and keys fit a token.\<close>

definition orderable :: "SandboxListItem list \<Rightarrow> bool" where
  "orderable items \<longleftrightarrow> distinct (map itemId items) \<and> list_all (\<lambda>item. cursorFits (itemKey item)) items"

lemma sortedItems_strict:
  assumes "orderable (keptOf keep (allItems pages))"
  shows "strictlyOrdered order (sortedItems order keep pages)"
proof -
  have "jsText (itemId x)" if "x \<in> set (keptOf keep (allItems pages))" for x
    using assms that plainText_jsText by (auto simp: orderable_def list_all_iff itemKey_def)
  then show ?thesis using jsSort_strict assms unfolding sortedItems_def orderable_def by blast
qed

lemma ordered_resumes:
  assumes steady: "steadyListing context sha opts request arn pages rows keep" "reqOrder request = Some order"
    and fit: "orderable (keptOf keep (allItems pages))"
    and at: "orderedAt sha request (requestFilters request arn) order (sortedItems order keep pages) p i"
  obtains p1 where "paginate (opts\<lparr>optNextToken := map_option TokenText (pagNextToken p)\<rparr>) = Inr p1"
    "orderedAt sha request (requestFilters request arn) order (sortedItems order keep pages) p1 i"
proof -
  define filters where "filters = requestFilters request arn"
  define items where "items = sortedItems order keep pages"
  have opts: "listingRequest opts = Inr request" "optNextToken opts = None" using steady(1) by (simp_all add: steadyListing_def)
  have i: "i \<le> length items" using at by (simp add: orderedAt_def items_def)
  consider (first) "pagNextToken p = None" "i = 0"
    | (later) "0 < i" "pagNextToken p = Some (encodeNextToken (fingerprint sha filters) (itemKey (items ! (i - 1))))"
    using at by (auto simp: orderedAt_def filters_def items_def)
  then show ?thesis
  proof cases
    case first
    have same: "opts\<lparr>optNextToken := None\<rparr> = opts" using opts(2) by (cases opts) simp
    have "paginate (opts\<lparr>optNextToken := map_option TokenText (pagNextToken p)\<rparr>) = Inr (newPaginator request None)"
      unfolding first(1) option.map same paginate_def opts by simp
    then show ?thesis using that [of "newPaginator request None"] ordered_initial [OF steady(1)] first(2) by simp
  next
    case later
    define key where "key = items ! (i - 1)"
    define token where "token = encodeNextToken (fingerprint sha filters) (itemKey key)"
    define d where "d = \<lparr>tokenFingerprint = fingerprint sha filters, tokenCursor = itemKey key\<rparr>"
    have "key \<in> set items" using later(1) i by (simp add: key_def)
    then have fits: "cursorFits (itemKey key)" using fit by (simp add: items_def sortedItems_def orderable_def list_all_iff)
    have "lowerHexText 16 (fingerprint sha filters)" using hexDigests_take(1) steady(1) by (simp add: steadyListing_def)
    from token_read_back [OF this fits] have "decodeNextToken (TokenText token) = Inr d" by (simp add: token_def d_def itemKey_def)
    from listingRequest_token [OF opts this]
    have req: "listingRequest (opts\<lparr>optNextToken := Some (TokenText token)\<rparr>) = Inr (request\<lparr>reqDecoded := Some d\<rparr>)"
      using steady(2) by (simp add: validateCursorForm_def d_def itemKey_def)
    have "filter (behind order (Some (itemKey key))) items = drop i items"
      using behind_drops [OF sortedItems_strict [OF fit] later(1), of order] i by (simp add: key_def items_def)
    then have "orderedAt sha request filters order items (newPaginator (request\<lparr>reqDecoded := Some d\<rparr>) (Some token)) i"
      using later(1) i unfolding orderedAt_def
      by (auto simp: newPaginator_def resumeCursors_def d_def token_def key_def itemKey_def intro!: exI [of _ "Some d"])
    then show ?thesis using req later(2) that [of "newPaginator (request\<lparr>reqDecoded := Some d\<rparr>) (Some token)"]
      by (simp add: paginate_def filters_def items_def token_def key_def)
  qed
qed

lemma follow_ordered:
  assumes steady: "steadyListing context sha opts request arn pages rows keep" "reqOrder request = Some order"
    and fit: "orderable (keptOf keep (allItems pages))"
    and at: "orderedAt sha request (requestFilters request arn) order (sortedItems order keep pages) p i"
      "length (drop i (sortedItems order keep pages)) < length calls"
  shows "\<exists>p' w'. followPages context sha opts calls p w = Some (Inr (drop i (sortedItems order keep pages)), p', w') \<and> \<not> hasNext p'"
  using at
proof (induction calls arbitrary: p i w)
  case (Cons fresh calls)
  have more: "hasNext p" using Cons.prems(1) by (simp add: orderedAt_def)
  obtain p1 where p1: "(if fresh then paginate (opts\<lparr>optNextToken := map_option TokenText (pagNextToken p)\<rparr>) else Inr p) = Inr p1"
    "orderedAt sha request (requestFilters request arn) order (sortedItems order keep pages) p1 i"
  proof (cases fresh)
    case True
    then show ?thesis using ordered_resumes [OF steady fit Cons.prems(1)] that by (metis (full_types))
  qed (use Cons.prems(1) that in auto)
  show ?case
  proof (rule ordered_call [OF steady p1(2), of w])
    fix p' w'
    assume call: "nextItems context sha p1 w = Some (Inr (drop i (sortedItems order keep pages)), p', w')" "\<not> hasNext p'"
    moreover have "followPages context sha opts calls p' w' = Some (Inr [], p', w')" using call(2) by (cases calls) simp_all
    ultimately show ?thesis using more p1(1) by simp
  next
    fix served p' w'
    assume call: "nextItems context sha p1 w = Some (Inr served, p', w')"
      and rest: "drop i (sortedItems order keep pages) = served @ drop (i + length served) (sortedItems order keep pages)" "served \<noteq> []"
      and at': "orderedAt sha request (requestFilters request arn) order (sortedItems order keep pages) p' (i + length served)"
    have "length (drop i (sortedItems order keep pages)) = length served + length (drop (i + length served) (sortedItems order keep pages))"
      using arg_cong [OF rest(1), of length] by (simp only: length_append)
    moreover have "0 < length served" using rest(2) by simp
    ultimately have "length (drop (i + length served) (sortedItems order keep pages)) < length calls"
      using Cons.prems(2) by (simp only: list.size)
    from Cons.IH [OF at' this, of w'] obtain p3 w3 where
      "followPages context sha opts calls p' w' = Some (Inr (drop (i + length served) (sortedItems order keep pages)), p3, w3)" "\<not> hasNext p3"
      by blast
    then show ?thesis using more p1(1) call rest(1) by (simp del: drop_append)
  qed
qed simp

text \<open>C18: following the tokens of an ordered listing serves every sandbox that passes the filters exactly once, strictly in
  order.  The pages of AWS and the sandboxes hold still; each call of \<open>nextItems\<close> is made on the same paginator or
  on a new one made from the last token, which reads all the pages again and goes on behind the key in the token; the limit is
  any.  The identifiers are distinct and printable.  What was served together is the sandboxes that pass, each once, in the order
  of start and then of identifier, or in the reverse of it; no call has thrown and the listing has ended.\<close>

theorem ordered_pages_complete:
  assumes "steadyListing context sha opts request arn pages rows keep" "reqOrder request = Some order"
    and "orderable (keptOf keep (allItems pages))" "paginate opts = Inr p" "length (allItems pages) < length calls"
  shows "\<exists>served p' w'. followPages context sha opts calls p w = Some (Inr served, p', w') \<and> \<not> hasNext p' \<and>
    mset served = mset (keptOf keep (allItems pages)) \<and> sorted_wrt (\<lambda>x y. compareItems order x y < 0) served"
proof -
  have p: "p = newPaginator request None" using stream_initial(1) [OF assms(1)] assms(4) by simp
  have "length (keptOf keep (allItems pages)) \<le> length (allItems pages)" by (simp add: map_filter_def)
  then have "length (drop 0 (sortedItems order keep pages)) < length calls" using assms(5) by (simp add: sortedItems_def)
  from follow_ordered [OF assms(1-3) ordered_initial [OF assms(1)] this, of w] p sortedItems_strict [OF assms(3), of order]
  show ?thesis by (auto simp: sortedItems_def)
qed

theorem ordered_pages_complete_witness:
  "\<exists>served p' w'. followPages demoContext demoSha (demoListing (Some (OrderIs Desc))) [True, False, True, True]
       (newPaginator (demoRequest (Some Desc)) None) () = Some (Inr served, p', w') \<and> \<not> hasNext p' \<and>
     mset served = {#demoItem ''a'' ''RUNNING'' 10, demoItem ''c'' ''SUSPENDED'' 30#} \<and>
     sorted_wrt (\<lambda>x y. compareItems Desc x y < 0) served"
proof -
  have "paginate (demoListing (Some (OrderIs Desc))) = Inr (newPaginator (demoRequest (Some Desc)) None)"
    using stream_initial(1) [OF demo_steady, of "Some Desc"] by simp
  moreover have "orderable (keptOf demoKeep (allItems demoPages))"
    unfolding demo_kept by (simp add: orderable_def itemKey_def demoItem_def plainText_def units_def LONGEST_TEXT_def)
  moreover have "length (allItems demoPages) < length [True, False, True, True]" by (simp add: demoPages_def)
  ultimately show ?thesis
    using ordered_pages_complete [OF demo_steady [of "Some Desc"], of Desc "newPaginator (demoRequest (Some Desc)) None" "[True, False, True, True]" "()"]
    unfolding demo_kept by (simp add: demoRequest_def del: followPages.simps)
qed

end
