(* ===== verification/Spec2Isabelle.thy ===== *)
theory Spec2Isabelle
  imports Http_Head Sse Dockerignore Mount_Path Pool_Runs Secret_Cache Tokens Sandbox_Calls Launch Network Command_Handle Listing_Failures Listing_Ordered
begin

text \<open>
  \<^bold>\<open>Verification of the core of the rayito TypeScript SDK\<close>

  The SDK (\<open>src/clients/typescript/src\<close>, to which all file names below are relative) creates sandboxes, which are micro
  virtual machines of a cloud platform with an agent inside, and drives them over RPC and HTTP.  A caller asks for a sandbox with
  options; the options become a launch plan with a payload for the agent; a handle waits until the agent is ready, sends calls,
  reconnects after cuts and suspensions, and follows commands.  Around that stand a warm pool of parked sandboxes, a listing
  with filters and tokens, secrets with a cache, an egress policy, template build contexts, and a proxy for the command line.  The
  development models the parts in which the SDK itself decides something and proves what callers rely on.

  \<^bold>\<open>Conventions.\<close>  A function of the source is a function here, with the name it has there unless a constant of HOL has
  that name.  A class or interface is a record, a union a datatype.  A call that may throw gives a sum whose left side
  is the error, with one constructor per \<open>throw\<close> or per class of error; \<open>andThen\<close> is the sequence of two such calls and
  \<open>throw_iff\<close> the collection of facts that take a result of a sequence apart.  Text is a list of UTF-16 code
  units (\<open>codepoints\<close>, natural numbers) where more than Latin-1 can occur, and a \<open>string\<close> where the source itself decodes Latin-1 or
  only compares.  Moments are milliseconds.  A dictionary whose order matters is an association list.  An awaited call of code
  outside the SDK is a parameter: a function from the state of the world to an answer, or an error, and a new
  state; nothing is assumed of it except what a theorem names.  Single-threaded code that awaits is cut into its pieces
  between two awaits, and these are the steps of a relation, so that any interleaving of pending calls is a run.
  A loop that need not end is a \<open>partial_function (option)\<close>, where \<open>None\<close> is a loop that does not return; that it
  returns is then proved, never assumed.  Fuel stands only in two parsers.  \<open>jsonParse\<close> gives its recursion twice the length of the
  text and two more, and \<open>Json_Parse\<close> shows that more changes no result.  \<open>readJson\<close> of \<open>Js_Json\<close>, which says what the agent reads, gets one more
  than the length; that this suffices is part of the theorem that every text the SDK writes is read back.

  \<^bold>\<open>Foundations.\<close>
  \<^item> \<open>Prelude\<close>: results that may throw, the string operations of the language, digits and \<open>Number.parseInt\<close>.
  \<^item> \<open>Js_Sort\<close>: the stable \<open>Array.prototype.sort\<close> and the best-so-far loop, proved from the interface \<open>js_comparator\<close>, which is
    interpreted for the comparisons of the pool and of the listing.
  \<^item> \<open>Js_Json\<close>: the order of the properties of an object, \<open>JSON.stringify\<close>, and \<open>sortedKeys\<close>, \<open>asciiJson\<close> of \<open>payload.ts\<close>; the
    text of every value is read back as that value.
  \<^item> \<open>Json_Parse\<close>: \<open>JSON.parse\<close>, numbers rounded to doubles.  \<open>Utf8\<close>: the encoder and the streaming decoder.  \<open>Iso_Date\<close>:
    \<open>toISOString\<close> and its reading for the years 1970 to 9999.

  \<^bold>\<open>The proxy of the command line\<close> (\<open>cli/http-framing.ts\<close>, \<open>cli/http-head.ts\<close>; \<open>Http_Framing\<close>, \<open>Http_Head\<close>): the framing of
  bodies and the strict parser and rewriter of heads.  A head that is parsed and rewritten is read by any such parser
  as the same single request with the same framing, so nothing can be smuggled past the proxy; the framing is decided without ambiguity.

  \<^bold>\<open>Starting a sandbox.\<close>
  \<^item> \<open>Lifecycle\<close> (\<open>sandbox/lifecycle.ts\<close>, the idle policy of \<open>models.ts\<close>, \<open>limits.ts\<close>) and \<open>Sandbox_Info\<close>: the lifecycle plan, timeouts
    and extensions.
  \<^item> \<open>Access_Token\<close> and \<open>Run_Payload\<close> (\<open>payload.ts\<close>): base64url tokens, accepted exactly when they are the encoding of enough
    bytes, and the payload of the run hook, in which the agent reads exactly what the caller asked for.
  \<^item> \<open>Launch\<close> (\<open>sandbox/launch.ts\<close>, \<open>LaunchRequest\<close> of \<open>aws/control-plane.ts\<close>): every check made before the platform is called.
  \<^item> \<open>Network\<close> (\<open>sandbox/network.ts\<close>, the gate in \<open>sandbox/sandbox.ts\<close>): the policy of a caller, the exact set of policies that are
    accepted, and that \<open>create()\<close> ends a sandbox whose guest does not enforce its policy.
  \<^item> This theory: the chain from \<open>allowInternetAccess: false\<close> through the payload to the handle that the caller gets.

  \<^bold>\<open>Talking to a sandbox.\<close>
  \<^item> \<open>Rpc_Errors\<close> (\<open>transport/errors.ts\<close>, \<open>sandbox/stream-errors.ts\<close>): how failures are told apart and what is thrown for them.
  \<^item> \<open>Readiness\<close> (\<open>sandbox/readiness.ts\<close>): the calendars of the probes, with the interface \<open>poll_schedule\<close> that its three calendars satisfy.
  \<^item> \<open>Sandbox_Core\<close>, \<open>Sandbox_Reconnect\<close>, \<open>Sandbox_Calls\<close> (\<open>sandbox/core.ts\<close>): the handle.  Waiting and reconnecting return when the
    clock advances with every sleep; a unary call is sent again only where the source says it is safe.
  \<^item> \<open>Tokens\<close> (\<open>transport/tokens.ts\<close>): the token store and the refresher with its timers; it keeps renewing as long as it runs.
  \<^item> \<open>Decoded_Stream\<close>, \<open>Commands\<close>, \<open>Command_Handle\<close> (\<open>sandbox/commands.ts\<close>): output decoded piece by piece equals the decoding of the
    whole, and a handle that is cut and subscribes again gives the whole output or a loss notice.

  \<^bold>\<open>Listing sandboxes.\<close>
  \<^item> \<open>Canonical_Json\<close>, \<open>Listing\<close>, \<open>Listing_Tokens\<close> (\<open>sandbox/listing.ts\<close>): filters, their fingerprint, cursors, and tokens that are
    decoded to the cursor they were made of and that fit the bound the decoder sets.
  \<^item> \<open>Sandbox_Index\<close> (\<open>index/record.ts\<close>, \<open>index/dynamodb.ts\<close>, \<open>index/join.ts\<close>): rows, reading them in chunks with retries, the join.
  \<^item> \<open>Paginator\<close>, \<open>Listing_Follow\<close>, \<open>Listing_Ordered\<close>, \<open>Listing_Failures\<close> (\<open>sandbox/paginator.ts\<close>, \<open>sandbox/probe.ts\<close>): following the pages serves each
    matching sandbox once and in order, that of AWS or the one asked for, on one paginator or on a chain of tokens; after a call that throws the
    same paginator serves nothing more although it says that it has more.

  \<^bold>\<open>The warm pool\<close> (\<open>pool/core.ts\<close>, \<open>pool/backend.ts\<close>, \<open>pool/pool.ts\<close>).
  \<^item> \<open>Pool_Core\<close>: slot records, selection, staleness, reconciliation, backoff.  \<open>Pool_Backend\<close>: the two stores behind the interface
    \<open>pool_backend\<close>; the file store refines the map and writes atomically whichever call of the file system fails.
  \<^item> \<open>Pool\<close>: the class, as pieces between awaits and the relation \<open>pool_step\<close>.  The invariants are instances of the interface
    \<open>step_invariant\<close>: \<open>Pool_Ledger\<close> accounts for every sandbox as a multiset, \<open>Pool_Counts\<close> bounds the numbers, \<open>Pool_Mirror\<close> relates the
    pool to its backend, \<open>Pool_Close\<close> shows that closing can finish, \<open>Pool_Runs\<close> holds concrete runs with two defects.

  \<^bold>\<open>Secrets and files.\<close>  \<open>Secret_Names\<close> and \<open>Secret_Cache\<close> (\<open>secrets/names.ts\<close>, \<open>secrets/cache.ts\<close>): references, and a cache that never gives
  a value read before it was invalidated.  \<open>Dockerignore\<close> (\<open>templates/dockerignore.ts\<close>): the two optimised matchers equal the declarative
  meaning of a pattern.  \<open>Mount_Path\<close> (\<open>mount-path.ts\<close>): the validation accepts exactly disjoint mountable paths.  \<open>Sse\<close>
  (\<open>agent/sse.ts\<close>): the reader of events does not depend on the chunks, lone line feeds apart.

  \<^bold>\<open>Parameters.\<close>  AWS (the control plane, DynamoDB, Secrets Manager), the agent behind its RPC calls, the file system, SHA-256 and
  random bytes of \<open>node:crypto\<close>, clocks and random numbers.  Theorems that need something of them name it: that a clock advances
  with a sleep, that AWS gives the same page for the same token while a listing is followed, that digests are hexadecimal.

  \<^bold>\<open>Not modelled.\<close>  Log lines, spans and the wording of messages.  Code that only copies fields into messages or calls a service:
  files and transfers, git, persistence, code execution, terminals and metrics of a sandbox, the AWS calls themselves, the
  construction of transports, the secrets store, template and image builds beyond the exclusion patterns, the coding agent and
  AgentCore commands, the dashboard, the stacks and constructs, the compatibility layer, the MCP server, volumes, telemetry, the
  generated protocol code, and the facade \<open>sandbox/sandbox.ts\<close> apart from the egress gate and \<open>paginate\<close>.  Of \<open>pool/pool.ts\<close> the timers and the
  wake-ups of the filler are left out: a step may happen whenever it is due.  Of \<open>secrets/names.ts\<close> the metadata in a description is left
  out.  The agent (Rust), the Python SDK and the infrastructure templates are separate programs; the SDK meets them only
  through the parameters above.
\<close>

section \<open>Properties that span components\<close>

lemma payloadOptions_ok:
  "optionsOk (payloadOptions input token block) \<longleftrightarrow>
     pred_option mapOk (inEnvs input) \<and> pred_option mapOk (inMetadata input) \<and>
     pred_option (\<lambda>p. jsText (fst p) \<and> jsText (snd p)) (inPersist input)"
  by (simp add: optionsOk_def payloadOptions_def)

lemma denied_policy:
  assumes "resolveNetwork network (AccessIs False) = Inr policy"
  shows "ALL_TRAFFIC \<in> set (denyOut policy)" "requiresEnforcement policy"
proof -
  show "ALL_TRAFFIC \<in> set (denyOut policy)"
    using assms by (auto simp: resolveNetwork_def validatedAllowInternetAccess_def throw_iff withAllTraffic_def split: prod.splits)
  then show "requiresEnforcement policy" by (auto simp: requiresEnforcement_def)
qed

text \<open>C11: turning off internet access is enforced from the start to the handle the caller gets.  Let a
  network be resolved with \<open>allowInternetAccess: false\<close> and a plan be built with the enforcement that the
  policy requires, as \<open>create()\<close> does.  Then the policy denies all traffic; the payload tells the agent to enforce before it
  answers; and the gate lets the sandbox through only when the agent was sent that policy and confirmed that it
  applies it.\<close>

theorem denied_internet_enforced:
  assumes "resolveNetwork network (AccessIs False) = Inr policy"
    and "buildLaunchPlan host (input\<lparr>inNetworkEnforce := Some (requiresEnforcement policy)\<rparr>) = Inr plan"
    and "pred_option mapOk (inEnvs input)" and "pred_option mapOk (inMetadata input)"
    and "pred_option (\<lambda>p. jsText (fst p) \<and> jsText (snd p)) (inPersist input)"
    and "\<And>secret. jsText (hostSha256 host secret)"
    and "applyInitialNetwork env updateNetwork readiness policy feature w = Some (Inr (), w')"
  shows "ALL_TRAFFIC \<in> set (denyOut policy) \<and>
    (\<exists>ps. readJson (runHookPayload (planRequest plan)) = Some (JsonObject ps) \<and>
       map_of ps (units ''network'') = Some (JsonObject [(units ''enforce'', JsonBool True)])) \<and>
    (\<exists>m. signalledUnary env noSignal (\<lambda>e. networkRpcError e feature) (updateNetwork
         \<lparr>messageAllowOut = allowOut policy, messageDenyOut = denyOut policy, messageProxy = egressProxy policy\<rparr>) w = Some (Inr m, w') \<and>
       protoEnforcement m \<in> {MessageGuestRoutes, MessageGuestRoutesAndProxy})"
proof -
  note denied = denied_policy [OF assms(1)]
  let ?input = "input\<lparr>inNetworkEnforce := Some (requiresEnforcement policy)\<rparr>"
  obtain block where built: "buildRunHookPayload (hostSha256 host) (payloadOptions ?input (planAccessToken plan) block) =
      Inr (runHookPayload (planRequest plan))"
    using buildLaunchPlan_payload [OF assms(2)] .
  have ok: "optionsOk (payloadOptions ?input (planAccessToken plan) block)" using assms(3-5) by (simp add: payloadOptions_ok)
  obtain secret envs metadata qs where "decodeAccessToken (payloadToken (payloadOptions ?input (planAccessToken plan) block)) = Inr secret"
    and read: "readJson (runHookPayload (planRequest plan)) = Some (JsonObject qs)" and "distinct (map fst qs)"
    and qs: "map_of qs = (\<lambda>k. map_option (\<lambda>v. listed (sortedKeys v))
      (map_of (payloadFields (hostSha256 host secret) envs metadata (payloadOptions ?input (planAccessToken plan) block)) k))"
    by (rule payload_object [OF ok assms(6) built]) (rule that)
  have "payloadNetworkEnforce (payloadOptions ?input (planAccessToken plan) block) = Some True"
    using denied(2) by (simp add: payloadOptions_def)
  then have "map_of qs (units ''network'') = Some (JsonObject [(units ''enforce'', JsonBool True)])"
    unfolding qs payloadFields_lookup(8) options_read_back(4) by simp
  with read have payload: "\<exists>ps. readJson (runHookPayload (planRequest plan)) = Some (JsonObject ps) \<and>
      map_of ps (units ''network'') = Some (JsonObject [(units ''enforce'', JsonBool True)])" by blast
  from initial_network_outcome [OF assms(7)]
  have "\<exists>m. signalledUnary env noSignal (\<lambda>e. networkRpcError e feature) (updateNetwork
      \<lparr>messageAllowOut = allowOut policy, messageDenyOut = denyOut policy, messageProxy = egressProxy policy\<rparr>) w = Some (Inr m, w') \<and>
    protoEnforcement m \<in> {MessageGuestRoutes, MessageGuestRoutesAndProxy}" by auto
  with denied(1) payload show ?thesis by (intro conjI)
qed

definition demoApplied :: "NetworkPolicyMessage \<Rightarrow> (rat, NetworkStateMessage) rpc" where
  "demoApplied message w =
     (Inr \<lparr>protoAllowOut = messageAllowOut message, protoDenyOut = messageDenyOut message, protoProxyConfigured = False,
        protoEnforcement = MessageGuestRoutes, protoLocalProxyPort = 0\<rparr>, w)"

theorem denied_internet_enforced_witness:
  "\<exists>plan ps. resolveNetwork NetworkMissing (AccessIs False) = Inr demoPolicy \<and>
     buildLaunchPlan demoHost (demoLaunch\<lparr>inNetworkEnforce := Some (requiresEnforcement demoPolicy)\<rparr>) = Inr plan \<and>
     applyInitialNetwork demoEnv demoApplied (Some GuestRoutes) demoPolicy ''network'' demoCore = Some (Inr (), demoCore) \<and>
     readJson (runHookPayload (planRequest plan)) = Some (JsonObject ps) \<and>
     map_of ps (units ''network'') = Some (JsonObject [(units ''enforce'', JsonBool True)])"
proof -
  obtain plan where plan: "buildLaunchPlan demoHost (demoLaunch\<lparr>inNetworkEnforce := Some (requiresEnforcement demoPolicy)\<rparr>) = Inr plan"
    using demo_launch_enforcing by blast
  have resolved: "resolveNetwork NetworkMissing (AccessIs False) = Inr demoPolicy"
    by (simp add: resolveNetwork_def networkObject_def resolveSelector_def resolveEgressProxy_def validatedAllowInternetAccess_def
        withAllTraffic_def demoPolicy_def)
  have applied: "applyInitialNetwork demoEnv demoApplied (Some GuestRoutes) demoPolicy ''network'' demoCore = Some (Inr (), demoCore)"
    by (simp add: applyInitialNetwork_def throwUnlessEnforced_def egressGateError_def isEnforced_def sendNetworkPolicy_def noSignal_def
        signalledUnary_def callUnary_def callUnaryWith_def callUnaryOnce_def retryUnestablished_def CONNECT_RETRY_DELAYS_MS_def demoApplied_def
        stateFromProto_def enforcementFromProto_def)
  have "jsText (hostSha256 demoHost secret)" for secret by (simp add: demoHost_def demoHash_def)
  with denied_internet_enforced [OF resolved plan _ _ _ _ applied] resolved plan applied show ?thesis
    by (auto simp: demoLaunch_def)
qed

end
